(* ===== verification/Prelude.thy ===== *)
theory Prelude
  imports Main "HOL-Library.AList" "HOL-Library.Char_ord" "HOL-Library.List_Lexorder"
begin

text \<open>
  Shared foundations of the development: the effect type in which the stateful Go functions are
  written (outcomes, sequencing, deferred calls, range loops), a small calculus of state
  predicates and final-state relations for it, the parts of Go's \<open>strings\<close>, \<open>strconv\<close>
  and \<open>fmt\<close> packages the program uses, and Go maps as association lists.
\<close>

section \<open>Fact collections\<close>

named_theorems go_simps \<open>equations that run the effectful combinators\<close>
named_theorems keeps_intros \<open>rules that decompose a claim about all final states\<close>

section \<open>Go strings\<close>

text \<open>
  A Go string is a sequence of bytes; \<^typ>\<open>string\<close> is a list of 8-bit characters. Case mapping is
  written for ASCII letters.
\<close>

definition HasPrefix :: "string \<Rightarrow> string \<Rightarrow> bool" where
  "HasPrefix s p \<longleftrightarrow> take (length p) s = p"

definition TrimPrefix :: "string \<Rightarrow> string \<Rightarrow> string" where
  "TrimPrefix s p = (if HasPrefix s p then drop (length p) s else s)"

fun Contains :: "string \<Rightarrow> string \<Rightarrow> bool" where
  "Contains [] t = (t = [])"
| "Contains (c # s) t = (HasPrefix (c # s) t \<or> Contains s t)"

text \<open>\<open>strings.Split\<close> with a one-byte separator: never an empty slice.\<close>

fun Split :: "char \<Rightarrow> string \<Rightarrow> string list" where
  "Split c [] = [[]]"
| "Split c (x # xs) =
     (if x = c then [] # Split c xs
      else (case Split c xs of [] \<Rightarrow> [[x]] | y # ys \<Rightarrow> (x # y) # ys))"

fun Join :: "string list \<Rightarrow> string \<Rightarrow> string" where
  "Join [] sep = []"
| "Join [x] sep = x"
| "Join (x # y # zs) sep = x @ sep @ Join (y # zs) sep"

definition upper_char :: "char \<Rightarrow> char" where
  "upper_char c = (let n = (of_char c :: nat) in if 97 \<le> n \<and> n \<le> 122 then char_of (n - 32) else c)"

definition ToUpper :: "string \<Rightarrow> string" where
  "ToUpper s = map upper_char s"

lemma HasPrefix_append [simp]: "HasPrefix (p @ s) p"
  by (simp add: HasPrefix_def)

lemma TrimPrefix_append [simp]: "TrimPrefix (p @ s) p = s"
  by (simp add: TrimPrefix_def)

lemma HasPrefix_iff: "HasPrefix s p \<longleftrightarrow> (\<exists>t. s = p @ t)"
  by (metis HasPrefix_append HasPrefix_def append_take_drop_id)

lemma TrimPrefix_inj:
  "HasPrefix s p \<Longrightarrow> HasPrefix t p \<Longrightarrow> TrimPrefix s p = TrimPrefix t p \<Longrightarrow> s = t"
  by (auto simp: HasPrefix_iff)

lemma Split_nonempty [simp]: "Split c s \<noteq> []"
  by (induction s) (auto split: list.splits)

lemma Split_no_sep [simp]: "c \<notin> set s \<Longrightarrow> Split c s = [s]"
  by (induction s) auto

lemma Split_append_sep [simp]: "c \<notin> set s \<Longrightarrow> Split c (s @ c # t) = s # Split c t"
  by (induction s) auto

lemma length_Split: "length (Split c s) = Suc (count_list s c)"
  by (induction s) (auto split: list.splits)

lemma Join_Split [simp]: "Join (Split c s) [c] = s"
proof (induction s)
  case Nil
  then show ?case by simp
next
  case (Cons x xs)
  obtain y ys where s: "Split c xs = y # ys"
    by (cases "Split c xs") auto
  with Cons.IH show ?case by (cases ys) auto
qed

lemma Split_parts_no_sep: "p \<in> set (Split c s) \<Longrightarrow> c \<notin> set p"
  by (induction s arbitrary: p) (auto split: if_splits list.splits)

section \<open>Go maps\<close>

text \<open>
  A Go map is an association list with distinct keys, in the order a \<open>range\<close> loop visits it. Go leaves
  that order open; a statement about all such lists is about every order.
\<close>

lemma map_of_map_keyed [simp]:
  "map_of (map (\<lambda>(k, v). (k, f k v)) xs) k = map_option (f k) (map_of xs k)"
  by (induction xs) auto

lemma map_of_fold_delete [simp]:
  "map_of (fold AList.delete ks xs) k = (if k \<in> set ks then None else map_of xs k)"
  by (induction ks arbitrary: xs) (auto simp: delete_conv')

lemma distinct_fold_delete [simp]:
  "distinct (map fst xs) \<Longrightarrow> distinct (map fst (fold AList.delete ks xs))"
  by (induction ks arbitrary: xs) (auto simp: distinct_delete)

section \<open>Decimal numbers\<close>

definition digit_char :: "nat \<Rightarrow> char" where
  "digit_char d = char_of (48 + d)"

fun nat_str :: "nat \<Rightarrow> string" where
  "nat_str n = (if n < 10 then [digit_char n] else nat_str (n div 10) @ [digit_char (n mod 10)])"

declare nat_str.simps [simp del]

lemma digit_char_eval [simp]:
  "digit_char 0 = CHR ''0''" "digit_char 1 = CHR ''1''" "digit_char (Suc 0) = CHR ''1''" "digit_char 2 = CHR ''2''"
  "digit_char 3 = CHR ''3''" "digit_char 4 = CHR ''4''" "digit_char 5 = CHR ''5''" "digit_char 6 = CHR ''6''"
  "digit_char 7 = CHR ''7''" "digit_char 8 = CHR ''8''" "digit_char 9 = CHR ''9''"
  by code_simp+

text \<open>\<open>strconv.Itoa\<close>, and \<open>%d\<close> of \<open>fmt\<close>.\<close>

definition Itoa :: "int \<Rightarrow> string" where
  "Itoa i = (if i < 0 then CHR ''-'' # nat_str (nat (- i)) else nat_str (nat i))"

text \<open>
  \<open>String\<close> of a \<open>time.Duration\<close>, a number of nanoseconds: a fraction without trailing zeros of the largest unit below a
  second, else hours, minutes and seconds, the larger ones only when there are any. The micro sign is two bytes.
\<close>

definition fmtFrac :: "int \<Rightarrow> nat \<Rightarrow> string" where
  "fmtFrac v prec =
    (let r = v mod 10 ^ prec;
         digits = replicate (prec - length (Itoa r)) (CHR ''0'') @ Itoa r
     in Itoa (v div 10 ^ prec)
       @ (if r = 0 then [] else CHR ''.'' # rev (dropWhile (\<lambda>c. c = CHR ''0'') (rev digits))))"

definition Duration_String :: "int \<Rightarrow> string" where
  "Duration_String d =
    (let u = \<bar>d\<bar>; sign = (if d < 0 then ''-'' else []) in
     if u = 0 then ''0s''
     else if u < 1000 then sign @ Itoa u @ ''ns''
     else if u < 1000000 then sign @ fmtFrac u 3 @ [CHR 0xC2, CHR 0xB5, CHR ''s'']
     else if u < 1000000000 then sign @ fmtFrac u 6 @ ''ms''
     else
       (let mins = u div 60000000000; hours = mins div 60
        in sign @ (if hours > 0 then Itoa hours @ ''h'' else [])
             @ (if mins > 0 then Itoa (mins mod 60) @ ''m'' else [])
             @ fmtFrac (u mod 60000000000) 9 @ ''s''))"

definition digit_val :: "char \<Rightarrow> nat" where
  "digit_val c = of_char c - 48"

definition str_nat :: "string \<Rightarrow> nat" where
  "str_nat s = foldl (\<lambda>n c. 10 * n + digit_val c) 0 s"

lemma digit_val_char [simp]: "d < 10 \<Longrightarrow> digit_val (digit_char d) = d"
  by (simp add: digit_val_def digit_char_def)

lemma str_nat_snoc: "str_nat (s @ [c]) = 10 * str_nat s + digit_val c"
  by (simp add: str_nat_def)

lemma str_nat_str [simp]: "str_nat (nat_str n) = n"
proof (induction n rule: nat_str.induct)
  case (1 n)
  show ?case
  proof (cases "n < 10")
    case True
    then show ?thesis by (simp add: nat_str.simps str_nat_def)
  next
    case False
    with "1.IH" show ?thesis by (subst nat_str.simps) (simp add: str_nat_snoc)
  qed
qed

lemma digit_chars: "c \<in> set (nat_str n) \<Longrightarrow> 48 \<le> (of_char c :: nat) \<and> (of_char c :: nat) \<le> 57"
proof (induction n rule: nat_str.induct)
  case (1 n)
  show ?case
  proof (cases "n < 10")
    case True
    with "1.prems" show ?thesis by (simp add: nat_str.simps [of n] digit_char_def)
  next
    case False
    have "n mod 10 < 10" by simp
    with False "1" show ?thesis
      by (auto simp: nat_str.simps [of n] digit_char_def)
  qed
qed

lemma nat_str_no_char: "(of_char c :: nat) < 48 \<or> 57 < (of_char c :: nat) \<Longrightarrow> c \<notin> set (nat_str n)"
  using digit_chars by fastforce

lemma nat_str_inj [simp]: "nat_str m = nat_str n \<longleftrightarrow> m = n"
  by (metis str_nat_str)

lemma nat_str_not_minus [simp]: "nat_str n \<noteq> CHR ''-'' # s" "CHR ''-'' # s \<noteq> nat_str n"
  using nat_str_no_char [of "CHR ''-''" n] by (auto simp: of_char_def) (metis list.set_intros(1))

lemma Itoa_inj [simp]: "Itoa i = Itoa j \<longleftrightarrow> i = j"
  by (auto simp: Itoa_def)

lemma Itoa_no_colon: "CHR '':'' \<notin> set (Itoa i)"
  using nat_str_no_char [of "CHR '':''"] by (auto simp: Itoa_def of_char_def)

section \<open>Errors\<close>

text \<open>
  The error values of the program. \<open>ApiErr\<close> is the text of an error returned by a client
  library; \<open>Errorf\<close> is \<open>fmt.Errorf\<close> or \<open>errors.New\<close> with the source's format and its printed
  arguments (an argument printed with \<open>%#v\<close> is dropped with its verb); \<open>Wrapf\<close> is an \<open>Errorf\<close> whose last argument is
  another error. The remaining constructors are the errors the code compares by identity or type.
\<close>

datatype error =
    ApiErr string
  | Errorf string "string list"
  | Wrapf string "string list" error
  | IPNotFoundError string
  | ErrVMNotFound
  | InstanceNotFound

fun Sprintf :: "string \<Rightarrow> string list \<Rightarrow> string" where
  "Sprintf [] args = []"
| "Sprintf [c] args = [c]"
| "Sprintf (c # d # s) args =
     (if c = CHR ''%'' then
        (case args of
           [] \<Rightarrow> Sprintf s []
         | a # as \<Rightarrow> (if d = CHR ''q'' then CHR 0x22 # a @ [CHR 0x22] else a) @ Sprintf s as)
      else c # Sprintf (d # s) args)"

fun Error :: "error \<Rightarrow> string" where
  "Error (ApiErr t) = t"
| "Error (Errorf f as) = Sprintf f as"
| "Error (Wrapf f as e) = Sprintf f (as @ [Error e])"
| "Error (IPNotFoundError ip) = Sprintf ''could not find IP address %v'' [ip]"
| "Error ErrVMNotFound = ''vm not found in cloudstack''"
| "Error InstanceNotFound = ''instance not found''"

section \<open>Effects\<close>

text \<open>
  A Go call returns a value, returns an error, panics, or waits forever (a blocked lock, a loop
  that does not end). An effectful function maps the state to an outcome and the next state; the
  state changes made before an error are kept.
\<close>

datatype 'a outcome = Ret 'a | Err error | Panic string | Block

type_synonym ('s, 'a) go = "'s \<Rightarrow> 'a outcome \<times> 's"

definition ret :: "'a \<Rightarrow> ('s, 'a) go" where
  "ret a = (\<lambda>s. (Ret a, s))"

definition throw :: "error \<Rightarrow> ('s, 'a) go" where
  "throw e = (\<lambda>s. (Err e, s))"

definition panic :: "string \<Rightarrow> ('s, 'a) go" where
  "panic m = (\<lambda>s. (Panic m, s))"

definition block :: "('s, 'a) go" where
  "block = (\<lambda>s. (Block, s))"

text \<open>\<open>x, err := m(); if err != nil { return err }; f(x)\<close>\<close>

definition bind :: "('s, 'a) go \<Rightarrow> ('a \<Rightarrow> ('s, 'b) go) \<Rightarrow> ('s, 'b) go" where
  "bind m f = (\<lambda>s. case m s of
      (Ret a, t) \<Rightarrow> f a t
    | (Err e, t) \<Rightarrow> (Err e, t)
    | (Panic p, t) \<Rightarrow> (Panic p, t)
    | (Block, t) \<Rightarrow> (Block, t))"

text \<open>\<open>x, err := m()\<close> where the caller looks at \<open>err\<close> itself.\<close>

definition attempt :: "('s, 'a) go \<Rightarrow> ('s, error + 'a) go" where
  "attempt m = (\<lambda>s. case m s of
      (Ret a, t) \<Rightarrow> (Ret (Inr a), t)
    | (Err e, t) \<Rightarrow> (Ret (Inl e), t)
    | (Panic p, t) \<Rightarrow> (Panic p, t)
    | (Block, t) \<Rightarrow> (Block, t))"

text \<open>\<open>if err != nil { return fmt.Errorf(..., err) }\<close>\<close>

definition wrap_err :: "(error \<Rightarrow> error) \<Rightarrow> ('s, 'a) go \<Rightarrow> ('s, 'a) go" where
  "wrap_err h m = (\<lambda>s. case m s of (Err e, t) \<Rightarrow> (Err (h e), t) | r \<Rightarrow> r)"

definition gets :: "('s \<Rightarrow> 'a) \<Rightarrow> ('s, 'a) go" where
  "gets f = (\<lambda>s. (Ret (f s), s))"

definition modify :: "('s \<Rightarrow> 's) \<Rightarrow> ('s, unit) go" where
  "modify f = (\<lambda>s. (Ret (), f s))"

text \<open>A deferred state change runs on every way out of \<open>m\<close>; a blocked call never gets there.\<close>

definition deferring :: "('s \<Rightarrow> 's) \<Rightarrow> ('s, 'a) go \<Rightarrow> ('s, 'a) go" where
  "deferring f m = (\<lambda>s. case m s of (Block, t) \<Rightarrow> (Block, t) | (r, t) \<Rightarrow> (r, f t))"

text \<open>\<open>for _, x := range xs { if err := f(x); err != nil { return err } }\<close>\<close>

fun foreach :: "'x list \<Rightarrow> ('x \<Rightarrow> ('s, unit) go) \<Rightarrow> ('s, unit) go" where
  "foreach [] f = ret ()"
| "foreach (x # xs) f = bind (f x) (\<lambda>_. foreach xs f)"

text \<open>The same loop with a loop-carried local variable.\<close>

fun foldm :: "'x list \<Rightarrow> ('x \<Rightarrow> 'a \<Rightarrow> ('s, 'a) go) \<Rightarrow> 'a \<Rightarrow> ('s, 'a) go" where
  "foldm [] f a = ret a"
| "foldm (x # xs) f a = bind (f x a) (\<lambda>b. foldm xs f b)"

lemma run_ret [go_simps]: "ret a s = (Ret a, s)"
  by (simp add: ret_def)

lemma run_throw [go_simps]: "throw e s = (Err e, s)"
  by (simp add: throw_def)

lemma run_panic [go_simps]: "panic p s = (Panic p, s)"
  by (simp add: panic_def)

lemma run_gets [go_simps]: "gets f s = (Ret (f s), s)"
  by (simp add: gets_def)

lemma run_modify [go_simps]: "modify f s = (Ret (), f s)"
  by (simp add: modify_def)

lemma run_bind [go_simps]:
  "m s = (Ret a, t) \<Longrightarrow> bind m f s = f a t"
  "m s = (Err e, t) \<Longrightarrow> bind m f s = (Err e, t)"
  "m s = (Panic p, t) \<Longrightarrow> bind m f s = (Panic p, t)"
  "m s = (Block, t) \<Longrightarrow> bind m f s = (Block, t)"
  by (simp_all add: bind_def)

lemma run_attempt [go_simps]:
  "m s = (Ret a, t) \<Longrightarrow> attempt m s = (Ret (Inr a), t)"
  "m s = (Err e, t) \<Longrightarrow> attempt m s = (Ret (Inl e), t)"
  "m s = (Panic p, t) \<Longrightarrow> attempt m s = (Panic p, t)"
  "m s = (Block, t) \<Longrightarrow> attempt m s = (Block, t)"
  by (simp_all add: attempt_def)

lemma run_wrap_err [go_simps]:
  "m s = (Ret a, t) \<Longrightarrow> wrap_err h m s = (Ret a, t)"
  "m s = (Err e, t) \<Longrightarrow> wrap_err h m s = (Err (h e), t)"
  "m s = (Panic p, t) \<Longrightarrow> wrap_err h m s = (Panic p, t)"
  "m s = (Block, t) \<Longrightarrow> wrap_err h m s = (Block, t)"
  by (simp_all add: wrap_err_def)

lemma bind_ret [simp]: "bind (ret a) f = f a" "bind m ret = m"
  by (auto simp: bind_def ret_def split: prod.splits outcome.splits)

lemma bind_throw [simp]: "bind (throw e) f = throw e"
  by (auto simp: bind_def throw_def)

lemma bind_panic [simp]: "bind (panic p) f = panic p"
  by (auto simp: bind_def panic_def)

lemma bind_assoc [simp]: "bind (bind m f) g = bind m (\<lambda>a. bind (f a) g)"
  by (auto simp: bind_def split: prod.splits outcome.splits)

lemma bind_RetE:
  assumes "bind m f s = (Ret b, u)"
  obtains a t where "m s = (Ret a, t)" "f a t = (Ret b, u)"
  using assms by (auto simp: bind_def split: prod.splits outcome.splits)

lemma attempt_RetE:
  assumes "attempt m s = (Ret r, t)"
  obtains a where "r = Inr a" "m s = (Ret a, t)" | e where "r = Inl e" "m s = (Err e, t)"
  using assms by (auto simp: attempt_def split: prod.splits outcome.splits)

lemma wrap_err_Ret [simp]: "wrap_err h m s = (Ret a, t) \<longleftrightarrow> m s = (Ret a, t)"
  by (auto simp: wrap_err_def split: prod.splits outcome.splits)

subsection \<open>Claims about final states and results\<close>

text \<open>
  \<open>keeps R m\<close>: however \<open>m\<close> ends, its final state is related to its first state by \<open>R\<close>. With a
  reflexive and transitive \<open>R\<close> the claim decomposes along the program text.
  \<open>returns m s Q\<close>: if \<open>m\<close> started in \<open>s\<close> returns a value, it satisfies \<open>Q\<close> with the final state.
\<close>

definition keeps :: "('s \<Rightarrow> 's \<Rightarrow> bool) \<Rightarrow> ('s, 'a) go \<Rightarrow> bool" where
  "keeps R m \<longleftrightarrow> (\<forall>s. R s (snd (m s)))"

definition returns :: "('s, 'a) go \<Rightarrow> 's \<Rightarrow> ('a \<Rightarrow> 's \<Rightarrow> bool) \<Rightarrow> bool" where
  "returns m s Q \<longleftrightarrow> (\<forall>a t. m s = (Ret a, t) \<longrightarrow> Q a t)"

lemma keepsD: "keeps R m \<Longrightarrow> m s = (r, t) \<Longrightarrow> R s t"
  by (metis keeps_def snd_conv)

lemma returnsD: "returns m s Q \<Longrightarrow> m s = (Ret a, t) \<Longrightarrow> Q a t"
  by (simp add: returns_def)

locale frame_relation =
  fixes R :: "'s \<Rightarrow> 's \<Rightarrow> bool"
  assumes R_refl: "R s s"
    and R_trans: "R s t \<Longrightarrow> R t u \<Longrightarrow> R s u"
begin

lemma keeps_pure:
  "keeps R (ret a)" "keeps R (throw e)" "keeps R (panic p)" "keeps R block" "keeps R (gets f)"
  by (auto simp: keeps_def ret_def throw_def panic_def block_def gets_def R_refl)

lemma keeps_bind: "keeps R m \<Longrightarrow> (\<And>a. keeps R (f a)) \<Longrightarrow> keeps R (bind m f)"
  by (auto simp: keeps_def bind_def split: prod.splits outcome.splits) (metis R_trans snd_conv)+

lemma keeps_attempt: "keeps R m \<Longrightarrow> keeps R (attempt m)"
  by (auto simp: keeps_def attempt_def split: prod.splits outcome.splits) (metis snd_conv)+

lemma keeps_wrap_err: "keeps R m \<Longrightarrow> keeps R (wrap_err h m)"
  by (auto simp: keeps_def wrap_err_def split: prod.splits outcome.splits) (metis snd_conv)+

lemma keeps_foreach: "(\<And>x. x \<in> set xs \<Longrightarrow> keeps R (f x)) \<Longrightarrow> keeps R (foreach xs f)"
  by (induction xs) (auto intro: keeps_pure keeps_bind)

lemma keeps_foldm: "(\<And>x a. x \<in> set xs \<Longrightarrow> keeps R (f x a)) \<Longrightarrow> keeps R (foldm xs f a)"
  by (induction xs arbitrary: a) (auto intro: keeps_pure keeps_bind)

lemma keeps_deferring: "keeps R m \<Longrightarrow> (\<And>s. R s (g s)) \<Longrightarrow> keeps R (deferring g m)"
  by (auto simp: keeps_def deferring_def split: prod.splits outcome.splits) (metis R_trans snd_conv)+

lemmas keeps_rules =
  keeps_pure keeps_bind keeps_attempt keeps_wrap_err keeps_foreach keeps_foldm

end

section \<open>Transition systems\<close>

text \<open>
  A component shared by several goroutines is a step relation. The contract its provider proves is
  that an invariant holds initially and is kept by every step; clients use the reachable states.
\<close>

definition reachable :: "('s \<Rightarrow> bool) \<Rightarrow> ('s \<Rightarrow> 's \<Rightarrow> bool) \<Rightarrow> 's \<Rightarrow> bool" where
  "reachable init step s \<longleftrightarrow> (\<exists>s0. init s0 \<and> step\<^sup>*\<^sup>* s0 s)"

lemma reachable_init: "init s \<Longrightarrow> reachable init step s"
  by (auto simp: reachable_def)

lemma reachable_step: "reachable init step s \<Longrightarrow> step s t \<Longrightarrow> reachable init step t"
  by (auto simp: reachable_def intro: rtranclp.rtrancl_into_rtrancl)

locale invariant_system =
  fixes init :: "'s \<Rightarrow> bool"
    and step :: "'s \<Rightarrow> 's \<Rightarrow> bool"
    and inv :: "'s \<Rightarrow> bool"
  assumes inv_init: "init s \<Longrightarrow> inv s"
    and inv_step: "step s t \<Longrightarrow> inv s \<Longrightarrow> inv t"
begin

lemma inv_steps: "step\<^sup>*\<^sup>* s t \<Longrightarrow> inv s \<Longrightarrow> inv t"
  by (induction rule: rtranclp_induct) (auto intro: inv_step)

lemma inv_reachable: "reachable init step s \<Longrightarrow> inv s"
  by (auto simp: reachable_def intro: inv_steps inv_init)

end

end
