(* ===== verification/World.thy ===== *)
theory World
  imports Prelude
begin

text \<open>
  What the program sees of the outside: the Kubernetes and CloudStack objects it reads, and the
  client libraries it calls. The libraries are not part of the program, so a value of type
  \<open>'w api\<close> is a parameter of every definition that calls one: each field is one library call,
  a function on an abstract outside world \<open>'w\<close>. The state record keeps that world and the list of
  calls made so far; each call is issued by one wrapper, which appends it to the list.
\<close>

section \<open>Kubernetes objects\<close>

type_synonym smap = "(string \<times> string) list"

text \<open>A nil \<open>Labels\<close> map is \<open>None\<close>: reading it finds nothing, writing to it panics.\<close>

record objectMeta =
  om_Name :: string
  om_Namespace :: string
  om_Labels :: "smap option"
  om_Annotations :: smap

datatype intOrString = IntVal int | StrVal string

record servicePort =
  sp_Name :: string
  sp_Protocol :: string
  sp_Port :: int
  sp_TargetPort :: intOrString
  sp_NodePort :: int

record ingress =
  ing_IP :: string
  ing_Hostname :: string

record service =
  svc_meta :: objectMeta
  svc_Ports :: "servicePort list"
  svc_SessionAffinity :: string
  svc_LoadBalancerIP :: string
  svc_Ingress :: "ingress list"

record kubeNode =
  kn_meta :: objectMeta
  kn_ProviderID :: string

record endpointSubset =
  es_Addresses :: "string option list"
  es_Ports :: "(string \<times> int) list"

record endpoints =
  ep_meta :: objectMeta
  ep_Subsets :: "endpointSubset list"

abbreviation svc_Name :: "service \<Rightarrow> string" where
  "svc_Name svc \<equiv> om_Name (svc_meta svc)"

abbreviation svc_Namespace :: "service \<Rightarrow> string" where
  "svc_Namespace svc \<equiv> om_Namespace (svc_meta svc)"

section \<open>CloudStack objects\<close>

record csTag =
  tag_Key :: string
  tag_Value :: string

record nic =
  nic_Networkid :: string
  nic_Ipaddress :: string

record virtualMachine =
  vm_Id :: string
  vm_Name :: string
  vm_Nic :: "nic list"
  vm_Hostname :: string
  vm_Publicip :: string
  vm_State :: string
  vm_Serviceofferingid :: string
  vm_Serviceofferingname :: string
  vm_Zonename :: string

record publicIpAddress =
  pip_Id :: string
  pip_Ipaddress :: string
  pip_Networkid :: string
  pip_Tags :: "csTag list"

record network =
  net_Vpcid :: string

text \<open>The rule returned by CloudStack together with the field \<open>additionalportmap\<close> that the program adds.\<close>

record loadBalancerRule =
  rule_Id :: string
  rule_Algorithm :: string
  rule_Cidrlist :: string
  rule_Name :: string
  rule_Networkid :: string
  rule_Privateport :: string
  rule_Publicport :: string
  rule_Publicip :: string
  rule_Publicipid :: string
  rule_Zoneid :: string
  rule_Protocol :: string
  rule_Tags :: "csTag list"
  AdditionalPortMap :: "string list"

record globoNetworkPool =
  pool_Port :: int
  pool_VipPort :: int
  pool_HealthCheckType :: string
  pool_HealthCheck :: string
  pool_HealthCheckExpected :: string
  pool_Id :: int

record associateResponse =
  ar_Id :: string
  ar_Ipaddress :: string
  ar_Networkid :: string
  ar_JobID :: string

record createRuleResponse =
  cr_Rule :: loadBalancerRule
  cr_JobID :: string

text \<open>The raw result of an asynchronous job.\<close>

datatype json = JNull | JBool bool | JNum int | JStr string | JArr "json list" | JObj "(string \<times> json) list"

text \<open>Values of \<open>CustomServiceParams.SetParam\<close>; setting a parameter again replaces it.\<close>

datatype pval = PStr string | PBool bool | PInt int | PList "string list"

type_synonym params = "(string \<times> pval) list"

definition SetParam :: "string \<Rightarrow> pval \<Rightarrow> params \<Rightarrow> params" where
  "SetParam k v p = AList.update k v p"

record ipQuery =
  q_Tags :: smap
  q_Ipaddress :: string
  q_Id :: string
  q_Projectid :: string
  q_Listall :: bool
  q_Page :: int
  q_Pagesize :: int

definition newIPQuery :: ipQuery where
  "newIPQuery = \<lparr>q_Tags = [], q_Ipaddress = [], q_Id = [], q_Projectid = [], q_Listall = False,
     q_Page = 0, q_Pagesize = 0\<rparr>"

text \<open>A CloudStack client as the program builds it for one environment.\<close>

record client =
  cl_APIURL :: string
  cl_APIKey :: string
  cl_SecretKey :: string
  cl_Verify :: bool

record serviceKey =
  namespace :: string
  name :: string

section \<open>Calls and the libraries behind them\<close>

datatype call =
    CustomRequest client string params
  | ListPublicIpAddresses client ipQuery
  | ListLoadBalancerRuleInstances client string int int
  | UpdateLoadBalancerRule client string string
  | CreateTags client "string list" string smap
  | AssignToLoadBalancerRule client string "string list"
  | RemoveFromLoadBalancerRule client string "string list"
  | GetNetworkByID client string string
  | ListVirtualMachines client string string
  | GetVirtualMachineByID client string string
  | GetVirtualMachineByName client string string
  | GetAsyncJobResult client string int
  | PatchService string string string
  | GetEndpoints string string
  | GetNode string
  | RecordEvent serviceKey string string

text \<open>
  \<open>req_*\<close> is \<open>CustomRequest\<close> of the CloudStack client decoding into the struct the caller passes;
  \<open>unmarshal_*\<close> is \<open>json.Unmarshal\<close> into a client library struct (which may define its own decoder): what the
  struct holds afterwards, and the error. The lists of rules and pools are decoded into the program's own structs and hold
  pointers: a rule is \<open>None\<close> when it is \<open>null\<close>, or when no field of the embedded \<open>*cloudstack.LoadBalancerRule\<close> was
  sent, so that this pointer is nil; both panic at the first field that is read. A pool is \<open>None\<close> when it is \<open>null\<close>. The
  lists the client library decodes into its own structs (addresses, machines) hold no nil.
\<close>

abbreviation nilDeref :: string where
  "nilDeref \<equiv> ''invalid memory address or nil pointer dereference''"

record 'w api =
  req_listLoadBalancerRules :: "client \<Rightarrow> params \<Rightarrow> 'w \<Rightarrow> (string + int \<times> loadBalancerRule option list) \<times> 'w"
  req_associate :: "client \<Rightarrow> string \<Rightarrow> params \<Rightarrow> 'w \<Rightarrow> (string + associateResponse) \<times> 'w"
  req_job :: "client \<Rightarrow> string \<Rightarrow> params \<Rightarrow> 'w \<Rightarrow> (string + string) \<times> 'w"
  req_createRule :: "client \<Rightarrow> params \<Rightarrow> 'w \<Rightarrow> (string + createRuleResponse) \<times> 'w"
  req_listPools :: "client \<Rightarrow> params \<Rightarrow> 'w \<Rightarrow> (string + int \<times> globoNetworkPool option list) \<times> 'w"
  req_updatePool :: "client \<Rightarrow> params \<Rightarrow> 'w \<Rightarrow> (string + json) \<times> 'w"
  api_listPublicIpAddresses :: "client \<Rightarrow> ipQuery \<Rightarrow> 'w \<Rightarrow> (string + int \<times> publicIpAddress list) \<times> 'w"
  api_listInstances :: "client \<Rightarrow> string \<Rightarrow> int \<Rightarrow> int \<Rightarrow> 'w \<Rightarrow> (string + int \<times> virtualMachine list) \<times> 'w"
  api_updateRule :: "client \<Rightarrow> string \<Rightarrow> string \<Rightarrow> 'w \<Rightarrow> (string + unit) \<times> 'w"
  api_createTags :: "client \<Rightarrow> string list \<Rightarrow> string \<Rightarrow> smap \<Rightarrow> 'w \<Rightarrow> (string + unit) \<times> 'w"
  api_assignHosts :: "client \<Rightarrow> string \<Rightarrow> string list \<Rightarrow> 'w \<Rightarrow> (string + unit) \<times> 'w"
  api_removeHosts :: "client \<Rightarrow> string \<Rightarrow> string list \<Rightarrow> 'w \<Rightarrow> (string + unit) \<times> 'w"
  api_getNetworkByID :: "client \<Rightarrow> string \<Rightarrow> string \<Rightarrow> 'w \<Rightarrow> (int \<times> (string + network)) \<times> 'w"
  api_listVirtualMachines :: "client \<Rightarrow> string \<Rightarrow> string \<Rightarrow> 'w \<Rightarrow> (string + virtualMachine list) \<times> 'w"
  api_getVMByID :: "client \<Rightarrow> string \<Rightarrow> string \<Rightarrow> 'w \<Rightarrow> (int \<times> (string + virtualMachine)) \<times> 'w"
  api_getVMByName :: "client \<Rightarrow> string \<Rightarrow> string \<Rightarrow> 'w \<Rightarrow> (int \<times> (string + virtualMachine)) \<times> 'w"
  api_asyncJob :: "client \<Rightarrow> string \<Rightarrow> int \<Rightarrow> 'w \<Rightarrow> (string + json) \<times> 'w"
  unmarshal_associate :: "json \<Rightarrow> associateResponse \<Rightarrow> associateResponse \<times> string option"
  unmarshal_createRule :: "json \<Rightarrow> createRuleResponse \<Rightarrow> createRuleResponse \<times> string option"
  kube_patchService :: "string \<Rightarrow> string \<Rightarrow> string \<Rightarrow> 'w \<Rightarrow> (string + unit) \<times> 'w"
  kube_getEndpoints :: "string \<Rightarrow> string \<Rightarrow> 'w \<Rightarrow> (string + endpoints) \<times> 'w"
  kube_getNode :: "string \<Rightarrow> 'w \<Rightarrow> (string + kubeNode) \<times> 'w"
  kube_event :: "serviceKey \<Rightarrow> string \<Rightarrow> string \<Rightarrow> 'w \<Rightarrow> 'w"
  ios_IntValue :: "intOrString \<Rightarrow> int"
  ios_String :: "intOrString \<Rightarrow> string"
  cache_Get :: "client \<Rightarrow> string \<Rightarrow> 'w \<Rightarrow> virtualMachine option \<times> 'w"
  cache_Set :: "client \<Rightarrow> string \<Rightarrow> virtualMachine \<Rightarrow> 'w \<Rightarrow> 'w"
  limiter_When :: "serviceKey \<Rightarrow> 'w \<Rightarrow> int \<times> 'w"
  limiter_Forget :: "serviceKey \<Rightarrow> 'w \<Rightarrow> 'w"
  time_Now :: "'w \<Rightarrow> int \<times> 'w"
  dns_LookupAddr :: "string \<Rightarrow> 'w \<Rightarrow> string list \<times> 'w"
  dns_LookupHost :: "string \<Rightarrow> 'w \<Rightarrow> string list \<times> 'w"

text \<open>A world in which no service answers: the base on which concrete instances are built.\<close>

definition offlineAPI :: "'w api" where
  "offlineAPI = \<lparr>
     req_listLoadBalancerRules = (\<lambda>_ _ w. (Inl ''offline'', w)),
     req_associate = (\<lambda>_ _ _ w. (Inl ''offline'', w)),
     req_job = (\<lambda>_ _ _ w. (Inl ''offline'', w)),
     req_createRule = (\<lambda>_ _ w. (Inl ''offline'', w)),
     req_listPools = (\<lambda>_ _ w. (Inl ''offline'', w)),
     req_updatePool = (\<lambda>_ _ w. (Inl ''offline'', w)),
     api_listPublicIpAddresses = (\<lambda>_ _ w. (Inl ''offline'', w)),
     api_listInstances = (\<lambda>_ _ _ _ w. (Inl ''offline'', w)),
     api_updateRule = (\<lambda>_ _ _ w. (Inl ''offline'', w)),
     api_createTags = (\<lambda>_ _ _ _ w. (Inl ''offline'', w)),
     api_assignHosts = (\<lambda>_ _ _ w. (Inl ''offline'', w)),
     api_removeHosts = (\<lambda>_ _ _ w. (Inl ''offline'', w)),
     api_getNetworkByID = (\<lambda>_ _ _ w. ((-1, Inl ''offline''), w)),
     api_listVirtualMachines = (\<lambda>_ _ _ w. (Inl ''offline'', w)),
     api_getVMByID = (\<lambda>_ _ _ w. ((-1, Inl ''offline''), w)),
     api_getVMByName = (\<lambda>_ _ _ w. ((-1, Inl ''offline''), w)),
     api_asyncJob = (\<lambda>_ _ _ w. (Inl ''offline'', w)),
     unmarshal_associate = (\<lambda>_ r. (r, Some ''offline'')),
     unmarshal_createRule = (\<lambda>_ r. (r, Some ''offline'')),
     kube_patchService = (\<lambda>_ _ _ w. (Inl ''offline'', w)),
     kube_getEndpoints = (\<lambda>_ _ w. (Inl ''offline'', w)),
     kube_getNode = (\<lambda>_ w. (Inl ''offline'', w)),
     kube_event = (\<lambda>_ _ _ w. w),
     ios_IntValue = (\<lambda>v. case v of IntVal i \<Rightarrow> i | StrVal _ \<Rightarrow> 0),
     ios_String = (\<lambda>v. case v of IntVal i \<Rightarrow> Itoa i | StrVal s \<Rightarrow> s),
     cache_Get = (\<lambda>_ _ w. (None, w)),
     cache_Set = (\<lambda>_ _ _ w. w),
     limiter_When = (\<lambda>_ w. (0, w)),
     limiter_Forget = (\<lambda>_ w. w),
     time_Now = (\<lambda>w. (0, w)),
     dns_LookupAddr = (\<lambda>_ w. ([], w)),
     dns_LookupHost = (\<lambda>_ w. ([], w))\<rparr>"

section \<open>State and wrappers\<close>

record 'w sys =
  world :: 'w
  trace :: "call list"

text \<open>A call that returns a result or an error.\<close>

definition io :: "call \<Rightarrow> ('w \<Rightarrow> (string + 'a) \<times> 'w) \<Rightarrow> (('w, 'x) sys_scheme, 'a) go" where
  "io c f = (\<lambda>s. case f (world s) of
      (Inr a, w) \<Rightarrow> (Ret a, s\<lparr>world := w, trace := trace s @ [c]\<rparr>)
    | (Inl e, w) \<Rightarrow> (Err (ApiErr e), s\<lparr>world := w, trace := trace s @ [c]\<rparr>))"

text \<open>A call that also returns a match count next to its result or error.\<close>

definition io_count ::
  "call \<Rightarrow> ('w \<Rightarrow> (int \<times> (string + 'a)) \<times> 'w) \<Rightarrow> (('w, 'x) sys_scheme, int \<times> (error + 'a)) go" where
  "io_count c f = (\<lambda>s. case f (world s) of
      ((n, Inr a), w) \<Rightarrow> (Ret (n, Inr a), s\<lparr>world := w, trace := trace s @ [c]\<rparr>)
    | ((n, Inl e), w) \<Rightarrow> (Ret (n, Inl (ApiErr e)), s\<lparr>world := w, trace := trace s @ [c]\<rparr>))"

text \<open>Local library state that cannot fail (cache, limiter, clock, resolver): not a remote call.\<close>

definition local_io :: "('w \<Rightarrow> 'a \<times> 'w) \<Rightarrow> (('w, 'x) sys_scheme, 'a) go" where
  "local_io f = (\<lambda>s. case f (world s) of (a, w) \<Rightarrow> (Ret a, s\<lparr>world := w\<rparr>))"

definition local_do :: "('w \<Rightarrow> 'w) \<Rightarrow> (('w, 'x) sys_scheme, unit) go" where
  "local_do f = (\<lambda>s. (Ret (), s\<lparr>world := f (world s)\<rparr>))"

definition event_io :: "call \<Rightarrow> ('w \<Rightarrow> 'w) \<Rightarrow> (('w, 'x) sys_scheme, unit) go" where
  "event_io c f = (\<lambda>s. (Ret (), s\<lparr>world := f (world s), trace := trace s @ [c]\<rparr>))"

lemmas io_defs = io_def io_count_def local_io_def local_do_def event_io_def

lemma io_cases:
  obtains a w where "f (world s) = (Inr a, w)" "io c f s = (Ret a, s\<lparr>world := w, trace := trace s @ [c]\<rparr>)"
  | e w where "f (world s) = (Inl e, w)" "io c f s = (Err (ApiErr e), s\<lparr>world := w, trace := trace s @ [c]\<rparr>)"
  by (cases "f (world s)"; cases "fst (f (world s))") (auto simp: io_def)

lemma io_RetE:
  assumes "io c f s = (Ret a, t)"
  obtains w where "f (world s) = (Inr a, w)" "t = s\<lparr>world := w, trace := trace s @ [c]\<rparr>"
  using assms by (cases rule: io_cases [where f = f and s = s and c = c]) auto

lemma attempt_io_trace:
  assumes run: "bind (attempt (io c f)) k s = (r, t)" and pure: "\<And>x u. snd (k x u) = u"
  shows "trace t = trace s @ [c]"
proof (cases rule: io_cases [where f = f and s = s and c = c])
  case (1 a w)
  with run pure [of "Inr a" "s\<lparr>world := w, trace := trace s @ [c]\<rparr>"] show ?thesis
    by (simp add: go_simps)
next
  case (2 e w)
  with run pure [of "Inl (ApiErr e)" "s\<lparr>world := w, trace := trace s @ [c]\<rparr>"] show ?thesis
    by (simp add: go_simps)
qed

text \<open>The calls that read remote state only. Waiting for a job to finish is one of them.\<close>

fun read_only :: "call \<Rightarrow> bool" where
  "read_only (CustomRequest c cmd p) = (cmd \<in> {''listLoadBalancerRules'', ''listGloboNetworkPools''})"
| "read_only (ListPublicIpAddresses c q) = True"
| "read_only (ListLoadBalancerRuleInstances c i p n) = True"
| "read_only (GetNetworkByID c i p) = True"
| "read_only (ListVirtualMachines c n p) = True"
| "read_only (GetVirtualMachineByID c i p) = True"
| "read_only (GetVirtualMachineByName c n p) = True"
| "read_only (GetAsyncJobResult c j t) = True"
| "read_only (GetEndpoints ns n) = True"
| "read_only (GetNode n) = True"
| "read_only _ = False"

subsection \<open>What a library call leaves alone\<close>

text \<open>
  \<open>outside_only P\<close>: between two states only the outside world changes, and the calls made in
  between all satisfy \<open>P\<close>.
\<close>

definition outside_only ::
  "(call \<Rightarrow> bool) \<Rightarrow> ('w, 'x) sys_scheme \<Rightarrow> ('w, 'x) sys_scheme \<Rightarrow> bool" where
  "outside_only P s t \<longleftrightarrow> sys.more t = sys.more s \<and> (\<exists>cs. trace t = trace s @ cs \<and> list_all P cs)"

interpretation outside: frame_relation "outside_only P"
  by unfold_locales (auto simp: outside_only_def)

lemma keeps_io: "P c \<Longrightarrow> keeps (outside_only P) (io c f)"
  by (auto simp: keeps_def io_def outside_only_def split: prod.splits sum.splits)

lemma keeps_io_count: "P c \<Longrightarrow> keeps (outside_only P) (io_count c f)"
  by (auto simp: keeps_def io_count_def outside_only_def split: prod.splits sum.splits)

lemma keeps_local_io: "keeps (outside_only P) (local_io f)"
  by (auto simp: keeps_def local_io_def outside_only_def split: prod.splits)

lemma keeps_local_do: "keeps (outside_only P) (local_do f)"
  by (auto simp: keeps_def local_do_def outside_only_def)

lemma keeps_event_io: "P c \<Longrightarrow> keeps (outside_only P) (event_io c f)"
  by (auto simp: keeps_def event_io_def outside_only_def)

lemma outside_only_mono: "outside_only P s t \<Longrightarrow> (\<And>c. P c \<Longrightarrow> Q c) \<Longrightarrow> outside_only Q s t"
  by (auto simp: outside_only_def list_all_iff)

lemma keeps_outside_mono:
  "keeps (outside_only P) m \<Longrightarrow> (\<And>c. P c \<Longrightarrow> Q c) \<Longrightarrow> keeps (outside_only Q) m"
  by (auto simp: keeps_def intro: outside_only_mono)

lemmas keeps_world = keeps_io keeps_io_count keeps_local_io keeps_local_do keeps_event_io
lemmas outside_intros [keeps_intros] = outside.keeps_rules keeps_world

end
