(* ===== verification/Cloud.thy ===== *)
theory Cloud
  imports World
begin

text \<open>
  The provider's configuration and the queries every other part makes of it
  (\<open>cloudstack/cloudstack.go\<close> and the metadata helpers of \<open>cloudstack/instances.go\<close>): reading the
  configuration, building the environments and clients, and finding the environment, project and
  client of an annotated Kubernetes object.
\<close>

section \<open>Configuration\<close>

record globalConfig =
  ServiceFilterLabel :: string
  NodeFilterLabel :: string
  NodeNameLabel :: string
  ProjectIDLabel :: string
  EnvironmentLabel :: string
  InternalIPIndex :: int
  ExternalIPIndex :: int
  UpdateLBWorkers :: int

record environmentConfig =
  APIURL :: string
  APIKey :: string
  SecretKey :: string
  LBEnvironmentID :: string
  LBDomain :: string
  ProjectID :: string
  SSLNoVerify :: bool
  RemoveLBs :: bool

record commandConfig =
  AssociateIP :: string
  DisassociateIP :: string
  AssignNetworks :: string
  DeleteLBRule :: string

text \<open>
  The extra arguments of a command: the names of the section in order, each with the value the
  parser stored for it, or none.
\<close>

type_synonym commandArgsConfig = "(string \<times> string option) list"

record CSConfig =
  Global :: globalConfig
  Environment :: "(string \<times> environmentConfig) list"
  Command :: commandConfig
  CommandArgs :: "(string \<times> commandArgsConfig) list"

definition ToMap :: "commandArgsConfig option \<Rightarrow> smap" where
  "ToMap c = (case c of
      None \<Rightarrow> []
    | Some vals \<Rightarrow>
        fold (\<lambda>k m. case map_of vals k of Some (Some v) \<Rightarrow> AList.update k v m | _ \<Rightarrow> m) (map fst vals) [])"

text \<open>An environment of the running provider; \<open>client\<close> and \<open>manager\<close> are pointers.\<close>

record CSEnvironment =
  env_client :: "client option"
  env_manager :: "client option"
  lbEnvironmentID :: string
  lbDomain :: string
  removeLBs :: bool

record CSCloud =
  environments :: "(string \<times> CSEnvironment) list"
  config :: CSConfig

definition ProviderName :: string where
  "ProviderName = ''custom-cloudstack''"

definition asyncJobWaitTimeout :: int where
  "asyncJobWaitTimeout = 5 * 60"

section \<open>Reading the configuration and building the provider\<close>

text \<open>
  \<open>readConfig\<close> after parsing: \<open>parsed\<close> is what the configuration parser returned for the reader
  (\<open>None\<close>: no reader was given), \<open>getenv\<close> the process environment.
\<close>

definition fillFromEnv :: "(string \<Rightarrow> string) \<Rightarrow> string \<Rightarrow> environmentConfig \<Rightarrow> environmentConfig" where
  "fillFromEnv getenv k v =
    (let v1 = (if APIURL v = [] then v\<lparr>APIURL := getenv (''CLOUDSTACK_'' @ ToUpper k @ ''_API_URL'')\<rparr> else v);
         v2 = (if APIKey v1 = [] then v1\<lparr>APIKey := getenv (''CLOUDSTACK_'' @ ToUpper k @ ''_API_KEY'')\<rparr> else v1);
         v3 = (if SecretKey v2 = [] then v2\<lparr>SecretKey := getenv (''CLOUDSTACK_'' @ ToUpper k @ ''_SECRET_KEY'')\<rparr> else v2)
     in v3)"

lemma fillFromEnv_simps:
  "APIURL (fillFromEnv g k v) = (if APIURL v = [] then g (''CLOUDSTACK_'' @ ToUpper k @ ''_API_URL'') else APIURL v)"
  "APIKey (fillFromEnv g k v) = (if APIKey v = [] then g (''CLOUDSTACK_'' @ ToUpper k @ ''_API_KEY'') else APIKey v)"
  "SecretKey (fillFromEnv g k v) = (if SecretKey v = [] then g (''CLOUDSTACK_'' @ ToUpper k @ ''_SECRET_KEY'') else SecretKey v)"
  "(fillFromEnv g k v)\<lparr>APIURL := APIURL v, APIKey := APIKey v, SecretKey := SecretKey v\<rparr> = v"
  by (simp_all add: fillFromEnv_def Let_def)

definition emptyConfig :: CSConfig where
  "emptyConfig = \<lparr>
     Global = \<lparr>ServiceFilterLabel = [], NodeFilterLabel = [], NodeNameLabel = [], ProjectIDLabel = [],
       EnvironmentLabel = [], InternalIPIndex = 0, ExternalIPIndex = 0, UpdateLBWorkers = 0\<rparr>,
     Environment = [],
     Command = \<lparr>AssociateIP = [], DisassociateIP = [], AssignNetworks = [], DeleteLBRule = []\<rparr>,
     CommandArgs = []\<rparr>"

definition readConfig :: "(string \<Rightarrow> string) \<Rightarrow> (string + CSConfig) option \<Rightarrow> error + CSConfig" where
  "readConfig getenv parsed = (case parsed of
      None \<Rightarrow> Inr emptyConfig
    | Some (Inl e) \<Rightarrow> Inl (Wrapf ''could not parse cloud provider config: %v'' [] (ApiErr e))
    | Some (Inr cfg) \<Rightarrow>
        Inr (cfg\<lparr>Environment := map (\<lambda>(k, v). (k, fillFromEnv getenv k v)) (Environment cfg)\<rparr>))"

text \<open>
  \<open>cloudstackManager\<close>: the client of an environment with a cache of virtual machines. The cache library is a parameter:
  \<open>newCache\<close> is the outcome of creating a cache with a configuration. What the cache holds belongs to the outside world of
  the lookups, so a manager is known by its client.
\<close>

record cacheConfig =
  NumCounters :: int
  MaxCost :: int
  BufferItems :: int

definition initCache :: "(cacheConfig \<Rightarrow> string option) \<Rightarrow> error option" where
  "initCache newCache =
    map_option ApiErr (newCache \<lparr>NumCounters = 100000, MaxCost = push_bit 20 50, BufferItems = 64\<rparr>)"

definition newCloudstackManager :: "(cacheConfig \<Rightarrow> string option) \<Rightarrow> client \<Rightarrow> error + client" where
  "newCloudstackManager newCache cli = (case initCache newCache of Some err \<Rightarrow> Inl err | None \<Rightarrow> Inr cli)"

text \<open>The environments of \<open>newCSCloud\<close>, in the order the map of environments is ranged over.\<close>

definition newEnvironment :: "environmentConfig \<Rightarrow> CSEnvironment" where
  "newEnvironment v =
    (let cli = \<lparr>cl_APIURL = APIURL v, cl_APIKey = APIKey v, cl_SecretKey = SecretKey v,
                cl_Verify = (\<not> SSLNoVerify v)\<rparr>
     in \<lparr>env_client = Some cli, env_manager = Some cli, lbEnvironmentID = LBEnvironmentID v,
         lbDomain = LBDomain v, removeLBs = RemoveLBs v\<rparr>)"

lemma newEnvironment_simps [simp]:
  "env_client (newEnvironment v) = Some \<lparr>cl_APIURL = APIURL v, cl_APIKey = APIKey v, cl_SecretKey = SecretKey v,
     cl_Verify = (\<not> SSLNoVerify v)\<rparr>"
  "env_manager (newEnvironment v) = env_client (newEnvironment v)"
  "lbEnvironmentID (newEnvironment v) = LBEnvironmentID v"
  "lbDomain (newEnvironment v) = LBDomain v"
  "removeLBs (newEnvironment v) = RemoveLBs v"
  by (simp_all add: newEnvironment_def Let_def)

fun newEnvironments ::
  "(cacheConfig \<Rightarrow> string option) \<Rightarrow> (string \<times> environmentConfig) list \<Rightarrow> (string \<times> CSEnvironment) list
    \<Rightarrow> error + (string \<times> CSEnvironment) list" where
  "newEnvironments newCache [] envs = Inr envs"
| "newEnvironments newCache ((k, v) # rest) envs =
     (if APIURL v = [] \<or> APIKey v = [] \<or> SecretKey v = [] then
        Inl (Errorf ''missing credentials for environment %q'' [k])
      else
        (case newCloudstackManager newCache (the (env_client (newEnvironment v))) of
           Inl err \<Rightarrow> Inl err
         | Inr manager \<Rightarrow> newEnvironments newCache rest (AList.update k (newEnvironment v) envs)))"

definition newCSCloud :: "(cacheConfig \<Rightarrow> string option) \<Rightarrow> CSConfig \<Rightarrow> error + CSCloud" where
  "newCSCloud newCache cfg = (case newEnvironments newCache (Environment cfg) [] of
      Inl e \<Rightarrow> Inl e
    | Inr envs \<Rightarrow> Inr \<lparr>environments = envs, config = cfg\<rparr>)"

text \<open>The provider interfaces offered to the controller manager: whether each is supported.\<close>

definition LoadBalancer_supported :: "CSCloud \<Rightarrow> bool" where
  "LoadBalancer_supported cs \<longleftrightarrow> \<not> (length (environments cs) = 0)"

definition Instances_supported :: "CSCloud \<Rightarrow> bool" where
  "Instances_supported cs \<longleftrightarrow> \<not> (length (environments cs) = 0)"

definition Zones_supported :: "CSCloud \<Rightarrow> bool" where
  "Zones_supported cs \<longleftrightarrow> \<not> (length (environments cs) = 0)"

definition Clusters_supported :: "CSCloud \<Rightarrow> bool" where
  "Clusters_supported cs \<longleftrightarrow> False"

definition Routes_supported :: "CSCloud \<Rightarrow> bool" where
  "Routes_supported cs \<longleftrightarrow> False"

definition HasClusterID :: "CSCloud \<Rightarrow> bool" where
  "HasClusterID cs \<longleftrightarrow> True"

section \<open>Environment, project and client of an object\<close>

definition labels :: "objectMeta \<Rightarrow> smap" where
  "labels m = (case om_Labels m of None \<Rightarrow> [] | Some l \<Rightarrow> l)"

text \<open>A lookup with presence flag: \<open>None\<close> is \<open>("", false)\<close>.\<close>

definition getLabelOrAnnotation :: "objectMeta \<Rightarrow> string \<Rightarrow> string option" where
  "getLabelOrAnnotation obj nm =
    (if nm = [] then None
     else (case map_of (labels obj) nm of
             Some n \<Rightarrow> Some n
           | None \<Rightarrow> map_of (om_Annotations obj) nm))"

text \<open>The string part of such a lookup when the flag is dropped.\<close>

definition str_or_empty :: "string option \<Rightarrow> string" where
  "str_or_empty v = (case v of None \<Rightarrow> [] | Some s \<Rightarrow> s)"

definition environmentForMeta :: "CSCloud \<Rightarrow> objectMeta \<Rightarrow> string" where
  "environmentForMeta cs m =
    (let environment = str_or_empty (getLabelOrAnnotation m (EnvironmentLabel (Global (config cs))))
     in if environment = [] \<and> length (environments cs) = 1
        then fst (hd (environments cs))
        else environment)"

definition projectForMeta :: "CSCloud \<Rightarrow> objectMeta \<Rightarrow> string \<Rightarrow> error + string" where
  "projectForMeta cs m environment =
    (case getLabelOrAnnotation m (ProjectIDLabel (Global (config cs))) of
       Some projectID \<Rightarrow> Inr projectID
     | None \<Rightarrow>
         (let projectID = (case map_of (Environment (config cs)) environment of
                             Some envConfig \<Rightarrow> ProjectID envConfig
                           | None \<Rightarrow> [])
          in if projectID = [] then Inl (Errorf ''no projectID found'' []) else Inr projectID))"

text \<open>The zero environment, which indexing a Go map at a missing key returns.\<close>

definition zeroEnvironment :: CSEnvironment where
  "zeroEnvironment = \<lparr>env_client = None, env_manager = None, lbEnvironmentID = [], lbDomain = [], removeLBs = False\<rparr>"

definition environmentOf :: "CSCloud \<Rightarrow> string \<Rightarrow> CSEnvironment" where
  "environmentOf cs environment = (case map_of (environments cs) environment of
      Some e \<Rightarrow> e | None \<Rightarrow> zeroEnvironment)"

definition clientForEnvironment :: "CSCloud \<Rightarrow> string \<Rightarrow> error + client" where
  "clientForEnvironment cs environment = (case env_client (environmentOf cs environment) of
      None \<Rightarrow> Inl (Errorf ''unable to retrieve client for environment %v, available environments: '' [environment])
    | Some c \<Rightarrow> Inr c)"

definition lift_sum :: "error + 'a \<Rightarrow> ('s, 'a) go" where
  "lift_sum r = (case r of Inl e \<Rightarrow> throw e | Inr a \<Rightarrow> ret a)"

lemma lift_sum_simps [simp]: "lift_sum (Inl e) = throw e" "lift_sum (Inr a) = ret a"
  by (simp_all add: lift_sum_def)

lemma keeps_lift_sum [keeps_intros]: "keeps (outside_only P) (lift_sum r)"
  by (cases r) (auto intro: keeps_intros)

section \<open>Lemmas\<close>

lemma getLabelOrAnnotation_empty [simp]: "getLabelOrAnnotation m [] = None"
  by (simp add: getLabelOrAnnotation_def)

lemma str_or_empty_simps [simp]: "str_or_empty None = []" "str_or_empty (Some s) = s"
  by (simp_all add: str_or_empty_def)

lemma projectForMeta_Inl: "projectForMeta cs m e = Inl x \<Longrightarrow> x = Errorf ''no projectID found'' []"
  by (auto simp: projectForMeta_def Let_def split: option.splits if_splits)

lemma newEnvironments_Inr:
  assumes "newEnvironments nc kvs envs = Inr envs'"
  shows "map_of envs' = map_of envs ++ map_of (rev (map (\<lambda>(k, v). (k, newEnvironment v)) kvs))
    \<and> (\<forall>(k, v) \<in> set kvs. APIURL v \<noteq> [] \<and> APIKey v \<noteq> [] \<and> SecretKey v \<noteq> [])"
  using assms
  by (induction nc kvs envs rule: newEnvironments.induct)
    (auto simp: update_conv' map_add_def split: if_splits sum.splits option.splits)

lemma newEnvironments_distinct:
  "newEnvironments nc kvs envs = Inr envs' \<Longrightarrow> distinct (map fst envs) \<Longrightarrow> distinct (map fst envs')"
  by (induction nc kvs envs rule: newEnvironments.induct)
    (auto simp: distinct_update split: if_splits sum.splits option.splits)

section \<open>A small provider\<close>

text \<open>
  One environment with credentials and a default project, no label configured except the project
  label: the instance on which the development's concrete examples run.
\<close>

definition sampleEnv :: environmentConfig where
  "sampleEnv = \<lparr>APIURL = ''http://cs'', APIKey = ''a'', SecretKey = ''b'', LBEnvironmentID = ''1'',
     LBDomain = ''test.com'', ProjectID = ''p1'', SSLNoVerify = False, RemoveLBs = True\<rparr>"

definition sampleConfig :: CSConfig where
  "sampleConfig = emptyConfig\<lparr>Environment := [(''env1'', sampleEnv)],
     Global := (Global emptyConfig)\<lparr>ProjectIDLabel := ''project''\<rparr>\<rparr>"

definition sampleCloud :: CSCloud where
  "sampleCloud = \<lparr>environments = [(''env1'', newEnvironment sampleEnv)], config = sampleConfig\<rparr>"

definition sampleClient :: client where
  "sampleClient = \<lparr>cl_APIURL = ''http://cs'', cl_APIKey = ''a'', cl_SecretKey = ''b'', cl_Verify = True\<rparr>"

definition sampleService :: service where
  "sampleService = \<lparr>
     svc_meta = \<lparr>om_Name = ''web'', om_Namespace = ''ns1'', om_Labels = Some [], om_Annotations = []\<rparr>,
     svc_Ports = [\<lparr>sp_Name = ''http'', sp_Protocol = ''TCP'', sp_Port = 80, sp_TargetPort = IntVal 8080, sp_NodePort = 30080\<rparr>],
     svc_SessionAffinity = ''None'', svc_LoadBalancerIP = [], svc_Ingress = []\<rparr>"

lemmas sample_defs = sampleEnv_def sampleConfig_def sampleCloud_def sampleClient_def sampleService_def
  emptyConfig_def

lemma sampleCloud_new: "newCSCloud (\<lambda>_. None) sampleConfig = Inr sampleCloud"
  by (simp add: newCSCloud_def newCloudstackManager_def initCache_def sample_defs)

lemma sample_lookups [simp]:
  "environmentForMeta sampleCloud (svc_meta sampleService) = ''env1''"
  "projectForMeta sampleCloud (svc_meta sampleService) ''env1'' = Inr ''p1''"
  "environmentOf sampleCloud ''env1'' = newEnvironment sampleEnv"
  "clientForEnvironment sampleCloud ''env1'' = Inr sampleClient"
  by (simp_all add: environmentForMeta_def projectForMeta_def environmentOf_def clientForEnvironment_def
      getLabelOrAnnotation_def labels_def sample_defs)

lemma sample_no_labels [simp]: "getLabelOrAnnotation (svc_meta sampleService) k = None"
  by (simp add: getLabelOrAnnotation_def labels_def sampleService_def)

section \<open>Correctness\<close>

text \<open>
  A provider that starts has, for every configured environment, a client with exactly that environment's
  credentials, none of them empty.
\<close>

lemma newCSCloud_clients:
  assumes "newCSCloud newCache cfg = Inr cs" and "distinct (map fst (Environment cfg))"
    and "map_of (Environment cfg) k = Some v"
  shows "clientForEnvironment cs k = Inr \<lparr>cl_APIURL = APIURL v, cl_APIKey = APIKey v, cl_SecretKey = SecretKey v,
      cl_Verify = (\<not> SSLNoVerify v)\<rparr>
    \<and> APIURL v \<noteq> [] \<and> APIKey v \<noteq> [] \<and> SecretKey v \<noteq> []"
proof -
  have e: "newEnvironments newCache (Environment cfg) [] = Inr (environments cs)"
    using assms(1) by (auto simp: newCSCloud_def split: sum.splits)
  have kv: "(k, v) \<in> set (Environment cfg)" using assms(3) by (rule map_of_SomeD)
  have "map_of (rev (map (\<lambda>(k, v). (k, newEnvironment v)) (Environment cfg))) k = Some (newEnvironment v)"
    using assms(2) kv by (force intro!: map_of_is_SomeI simp: rev_map [symmetric] comp_def split_def)
  then have "map_of (environments cs) k = Some (newEnvironment v)"
    using newEnvironments_Inr [OF e] by (simp add: map_add_def)
  then show ?thesis
    using newEnvironments_Inr [OF e] kv
    by (auto simp: clientForEnvironment_def environmentOf_def)
qed

text \<open>
  Credentials missing from the configuration file are taken from the environment variables named after
  the environment, a value given in the file is kept, and nothing else of the configuration changes.
\<close>

lemma readConfig_credentials:
  assumes "map_of (Environment cfg) k = Some v"
  shows "\<exists>cfg' v'. readConfig getenv (Some (Inr cfg)) = Inr cfg' \<and> map_of (Environment cfg') k = Some v'
    \<and> APIURL v' = (if APIURL v = [] then getenv (''CLOUDSTACK_'' @ ToUpper k @ ''_API_URL'') else APIURL v)
    \<and> APIKey v' = (if APIKey v = [] then getenv (''CLOUDSTACK_'' @ ToUpper k @ ''_API_KEY'') else APIKey v)
    \<and> SecretKey v' = (if SecretKey v = [] then getenv (''CLOUDSTACK_'' @ ToUpper k @ ''_SECRET_KEY'') else SecretKey v)
    \<and> v'\<lparr>APIURL := APIURL v, APIKey := APIKey v, SecretKey := SecretKey v\<rparr> = v
    \<and> cfg'\<lparr>Environment := Environment cfg\<rparr> = cfg"
proof -
  let ?cfg = "cfg\<lparr>Environment := map (\<lambda>(k, v). (k, fillFromEnv getenv k v)) (Environment cfg)\<rparr>"
  have "map_of (Environment ?cfg) k = Some (fillFromEnv getenv k v)"
    using assms by simp
  moreover have "readConfig getenv (Some (Inr cfg)) = Inr ?cfg" "?cfg\<lparr>Environment := Environment cfg\<rparr> = cfg"
    by (simp_all add: readConfig_def)
  ultimately show ?thesis
    using fillFromEnv_simps [where g = getenv and k = k and v = v] by blast
qed

end
