(* ===== verification/FakeServer.thy ===== *)
theory FakeServer
  imports World
begin

text \<open>
  The CloudStack server of \<open>cloudstack/fake/cloudstack.go\<close>: tags, load balancer rules, addresses and instances
  held in memory, one handler per API command, and jobs that take effect when their result is queried. Response
  bodies are kept as values before marshalling, and the closures stored as jobs are a datatype. The last section puts the client library's calls on top of it, which gives the concrete outside world
  on which the rest of the development is exercised.
\<close>

section \<open>State\<close>

type_synonym form = "(string \<times> string list) list"

type_synonym ruleMap = "(string \<times> json) list"

record fakeLB =
  Rule :: ruleMap
  lbPools :: "globoNetworkPool list"
  createLBPool :: bool

datatype fakeJob =
    JobAssociate int associateResponse
  | JobDisassociate string string
  | JobUpdateRule string string
  | JobUpdatePool string nat string string string
  | JobCreateRule string fakeLB
  | JobEcho string
  | JobCreateTags string string string string
  | JobDeleteTags string "string list"
  | JobAssignHosts string string "string list"
  | JobRemoveHosts string string "string list"
  | JobDeleteRule string string

record CloudstackServer =
  Calls :: "(string \<times> form) list"
  idx :: "(string \<times> int) list"
  Jobs :: "(string \<times> fakeJob) list"
  srv_tags :: "(string \<times> csTag list) list"
  lbRules :: "(string \<times> fakeLB) list"
  srv_ips :: "(string \<times> publicIpAddress) list"
  srv_vms :: "(string \<times> virtualMachine list) list"

definition NewCloudstackServer :: CloudstackServer where
  "NewCloudstackServer = \<lparr>Calls = [], idx = [], Jobs = [], srv_tags = [], lbRules = [], srv_ips = [], srv_vms = []\<rparr>"

datatype payload =
    VMList int "virtualMachine list"
  | RuleList int "ruleMap list"
  | PoolList int "globoNetworkPool list"
  | NetworkList
  | IPList int "publicIpAddress list"
  | AssociateBody associateResponse
  | JobBody string
  | RuleBody ruleMap
  | LBBody fakeLB
  | TagList int "csTag list"
  | JobResult payload

text \<open>A body under a name, an error status with its text, or a handler that panicked.\<close>

datatype response = OK string payload | ErrorResponse int string string | Aborted

section \<open>Helpers\<close>

definition FormValue :: "form \<Rightarrow> string \<Rightarrow> string" where
  "FormValue r k = (case map_of r k of Some (v # _) \<Rightarrow> v | _ \<Rightarrow> [])"

text \<open>Indexing Go maps of strings, integers and slices: the zero value for a missing key.\<close>

definition get_str :: "(string \<times> string) list \<Rightarrow> string \<Rightarrow> string" where
  "get_str m k = (case map_of m k of Some v \<Rightarrow> v | None \<Rightarrow> [])"

definition get_list :: "(string \<times> 'a list) list \<Rightarrow> string \<Rightarrow> 'a list" where
  "get_list m k = (case map_of m k of Some v \<Rightarrow> v | None \<Rightarrow> [])"

text \<open>\<open>strconv.Atoi\<close> with its error dropped.\<close>

definition is_digit :: "char \<Rightarrow> bool" where
  "is_digit ch \<longleftrightarrow> 48 \<le> (of_char ch :: nat) \<and> (of_char ch :: nat) \<le> 57"

definition Atoi :: "string \<Rightarrow> int" where
  "Atoi s = (case s of
      [] \<Rightarrow> 0
    | ch # ds \<Rightarrow>
        if ch \<in> {CHR ''-'', CHR ''+''} then
          (if ds \<noteq> [] \<and> list_all is_digit ds then (if ch = CHR ''-'' then - int (str_nat ds) else int (str_nat ds)) else 0)
        else if list_all is_digit s then int (str_nat s) else 0)"

definition newID :: "string \<Rightarrow> CloudstackServer \<Rightarrow> int \<times> CloudstackServer" where
  "newID cmd s =
    (let n = (case map_of (idx s) cmd of Some i \<Rightarrow> i | None \<Rightarrow> 0) + 1
     in (n, s\<lparr>idx := AList.update cmd n (idx s)\<rparr>))"

definition lbNameByID :: "CloudstackServer \<Rightarrow> string \<Rightarrow> string" where
  "lbNameByID s lbID =
    (case filter (\<lambda>(k, lb). map_of (Rule lb) ''id'' = Some (JStr lbID)) (lbRules s) of
       [] \<Rightarrow> [] | (k, _) # _ \<Rightarrow> k)"

definition AddIP :: "publicIpAddress \<Rightarrow> CloudstackServer \<Rightarrow> CloudstackServer" where
  "AddIP ip s = s\<lparr>srv_ips := AList.update (pip_Id ip) ip (srv_ips s)\<rparr>"

definition AddLBRule :: "string \<Rightarrow> fakeLB \<Rightarrow> CloudstackServer \<Rightarrow> CloudstackServer" where
  "AddLBRule lbName lbRule s = s\<lparr>lbRules := AList.update lbName lbRule (lbRules s)\<rparr>"

definition AddTags :: "string \<Rightarrow> csTag list \<Rightarrow> CloudstackServer \<Rightarrow> CloudstackServer" where
  "AddTags resourceid tags s = s\<lparr>srv_tags := AList.update resourceid tags (srv_tags s)\<rparr>"

definition DeleteTags :: "string \<Rightarrow> string list \<Rightarrow> CloudstackServer \<Rightarrow> CloudstackServer" where
  "DeleteTags resourceid tagKeys s =
    (let newTags = filter (\<lambda>tag. tag_Key tag \<notin> set tagKeys) (get_list (srv_tags s) resourceid)
     in s\<lparr>srv_tags := AList.update resourceid newTags (srv_tags s)\<rparr>)"

text \<open>A missing rule is a nil pointer: \<open>None\<close> is the panic.\<close>

definition SetDefaultLBPoolCreation :: "string \<Rightarrow> CloudstackServer \<Rightarrow> CloudstackServer option" where
  "SetDefaultLBPoolCreation lbId s =
    (let lbName = lbNameByID s lbId in
     case map_of (lbRules s) lbName of
       None \<Rightarrow> None
     | Some lbRule \<Rightarrow>
         Some (s\<lparr>lbRules := AList.update lbName (lbRule\<lparr>createLBPool := \<not> createLBPool lbRule\<rparr>) (lbRules s)\<rparr>))"

text \<open>The type assertions on the entries of a rule.\<close>

definition rule_str :: "ruleMap \<Rightarrow> string \<Rightarrow> string option" where
  "rule_str m k = (case map_of m k of Some (JStr v) \<Rightarrow> Some v | _ \<Rightarrow> None)"

definition json_strs :: "json list \<Rightarrow> string list option" where
  "json_strs js = (if list_all (\<lambda>j. case j of JStr _ \<Rightarrow> True | _ \<Rightarrow> False) js
     then Some (map (\<lambda>j. case j of JStr v \<Rightarrow> v | _ \<Rightarrow> []) js) else None)"

definition rule_strs :: "ruleMap \<Rightarrow> string \<Rightarrow> string list option" where
  "rule_strs m k = (case map_of m k of Some (JArr js) \<Rightarrow> json_strs js | _ \<Rightarrow> None)"

definition tcpPool :: "int \<Rightarrow> int \<Rightarrow> int \<Rightarrow> globoNetworkPool" where
  "tcpPool i vip port = \<lparr>pool_Port = port, pool_VipPort = vip, pool_HealthCheckType = ''TCP'', pool_HealthCheck = [],
     pool_HealthCheckExpected = [], pool_Id = i\<rparr>"

definition additionalPools :: "string list \<Rightarrow> globoNetworkPool list" where
  "additionalPools pairs = List.map_filter (\<lambda>(i, portPair).
     if \<not> Contains portPair '':'' then None
     else Some (tcpPool (int i + 1) (Atoi (Split (CHR '':'') portPair ! 0)) (Atoi (Split (CHR '':'') portPair ! 1))))
     (zip [0..<length pairs] pairs)"

definition createDefaultLBPools :: "string \<Rightarrow> CloudstackServer \<Rightarrow> CloudstackServer option" where
  "createDefaultLBPools lbId s =
    (let lbName = lbNameByID s lbId in
     case map_of (lbRules s) lbName of
       None \<Rightarrow> None
     | Some lbRule \<Rightarrow>
         (case (rule_str (Rule lbRule) ''publicport'', rule_str (Rule lbRule) ''privateport'') of
            (Some public, Some private) \<Rightarrow>
              if \<not> createLBPool lbRule then Some s
              else if list_ex (\<lambda>pool. pool_Port pool = Atoi private \<and> pool_VipPort pool = Atoi public) (lbPools lbRule) then Some s
              else
                (let first = lbPools lbRule @ [tcpPool 0 (Atoi public) (Atoi private)];
                     more = (case rule_strs (Rule lbRule) ''additionalportmap'' of
                       None \<Rightarrow> [] | Some pairs \<Rightarrow> additionalPools pairs)
                 in Some (s\<lparr>lbRules := AList.update lbName (lbRule\<lparr>lbPools := first @ more\<rparr>) (lbRules s)\<rparr>))
          | _ \<Rightarrow> None))"

text \<open>
  \<open>tags\[(\d+)\]\.(key|value)\<close> searched in a parameter name: the index and whether it names a key.
\<close>

definition tagName_at :: "string \<Rightarrow> (string \<times> bool) option" where
  "tagName_at k =
    (let rest = drop 5 k; ds = takeWhile is_digit rest; after = drop (length ds) rest in
     if HasPrefix k ''tags['' \<and> ds \<noteq> [] then
       (if HasPrefix after ''].key'' then Some (ds, True)
        else if HasPrefix after ''].value'' then Some (ds, False) else None)
     else None)"

fun tagName :: "string \<Rightarrow> (string \<times> bool) option" where
  "tagName [] = None"
| "tagName (ch # k) = (case tagName_at (ch # k) of Some r \<Rightarrow> Some r | None \<Rightarrow> tagName k)"

definition parseTags :: "form \<Rightarrow> smap" where
  "parseTags form =
    (let keys = List.map_filter (\<lambda>(k, v). case tagName k of Some (i, True) \<Rightarrow> Some (i, FormValue form k) | _ \<Rightarrow> None) form;
         vals = List.map_filter (\<lambda>(k, v). case tagName k of Some (i, False) \<Rightarrow> Some (i, FormValue form k) | _ \<Rightarrow> None) form
     in fold (\<lambda>(i, k) res. AList.update k (get_str vals i) res) keys [])"

section \<open>Commands\<close>

text \<open>\<open>.*(\d+)\<close> in the name: the greedy prefix leaves the last digit.\<close>

definition vmNumber :: "string \<Rightarrow> int" where
  "vmNumber nm = (case rev (filter is_digit nm) of [] \<Rightarrow> 1 | d # _ \<Rightarrow> Atoi [d])"

definition blankVM :: virtualMachine where
  "blankVM = \<lparr>vm_Id = [], vm_Name = [], vm_Nic = [], vm_Hostname = [], vm_Publicip = [], vm_State = [],
     vm_Serviceofferingid = [], vm_Serviceofferingname = [], vm_Zonename = []\<rparr>"

definition serve_listVirtualMachines :: "form \<Rightarrow> response" where
  "serve_listVirtualMachines r =
    (let nm = FormValue r ''name'' in
     if nm = ''notfound'' then OK ''listVirtualMachinesResponse'' (VMList 0 [])
     else
       (let number = vmNumber nm in
        OK ''listVirtualMachinesResponse'' (VMList 1 [blankVM\<lparr>vm_Name := nm, vm_Id := ''vm'' @ Itoa number,
          vm_Nic := [\<lparr>nic_Networkid = ''net'' @ Itoa number, nic_Ipaddress = []\<rparr>]\<rparr>])))"

definition tagsJson :: "csTag list \<Rightarrow> json" where
  "tagsJson tags = JArr (map (\<lambda>t. JObj [(''key'', JStr (tag_Key t)), (''value'', JStr (tag_Value t))]) tags)"

text \<open>
  One rule of the loop in \<open>listLoadBalancerRules\<close>: whether it is listed, and the rule with its tags stored;
  \<open>None\<close> when an entry that must be a string is not.
\<close>

definition matchLB :: "string \<Rightarrow> smap \<Rightarrow> CloudstackServer \<Rightarrow> fakeLB \<Rightarrow> (bool \<times> fakeLB) option" where
  "matchLB keyword queryTags s lb =
    (case rule_str (Rule lb) ''id'' of
       None \<Rightarrow> None
     | Some rid \<Rightarrow>
         (let lbTags = get_list (srv_tags s) rid;
              matchTags = list_ex (\<lambda>tag. get_str queryTags (tag_Key tag) = tag_Value tag) lbTags;
              tagged = lb\<lparr>Rule := AList.update ''tags'' (tagsJson lbTags) (Rule lb)\<rparr>
          in if matchTags then Some (True, tagged)
             else if keyword = [] then Some (False, lb)
             else (case rule_str (Rule lb) ''name'' of
                 None \<Rightarrow> None
               | Some nm \<Rightarrow> if Contains nm keyword \<or> Contains rid keyword then Some (True, tagged) else Some (False, lb))))"

fun listLBs :: "string \<Rightarrow> smap \<Rightarrow> (string \<times> fakeLB) list \<Rightarrow> ruleMap list \<Rightarrow> CloudstackServer
    \<Rightarrow> ruleMap list option \<times> CloudstackServer" where
  "listLBs keyword queryTags [] lbs s = (Some lbs, s)"
| "listLBs keyword queryTags ((k, lb) # rest) lbs s =
     (case matchLB keyword queryTags s lb of
        None \<Rightarrow> (None, s)
      | Some (listed, lb1) \<Rightarrow>
          listLBs keyword queryTags rest (if listed then lbs @ [Rule lb1] else lbs)
            (s\<lparr>lbRules := AList.update k lb1 (lbRules s)\<rparr>))"

definition serve_listLoadBalancerRules :: "form \<Rightarrow> CloudstackServer \<Rightarrow> response \<times> CloudstackServer" where
  "serve_listLoadBalancerRules r s =
    (case listLBs (FormValue r ''keyword'') (parseTags r) (lbRules s) [] s of
       (None, s1) \<Rightarrow> (Aborted, s1)
     | (Some lbs, s1) \<Rightarrow> (OK ''listLoadBalancerRulesResponse'' (RuleList (int (length lbs)) lbs), s1))"

definition serve_listGloboNetworkPools :: "form \<Rightarrow> CloudstackServer \<Rightarrow> response \<times> CloudstackServer" where
  "serve_listGloboNetworkPools r s =
    (let lbruleid = FormValue r ''lbruleid'' in
     case createDefaultLBPools lbruleid s of
       None \<Rightarrow> (Aborted, s)
     | Some s1 \<Rightarrow>
         (case filter (\<lambda>(k, lb). map_of (Rule lb) ''id'' = Some (JStr lbruleid)) (lbRules s1) of
            (k, lb) # _ \<Rightarrow> (OK ''listGloboNetworkPoolResponse'' (PoolList (int (length (lbPools lb))) (lbPools lb)), s1)
          | [] \<Rightarrow> (OK ''listGloboNetworkPoolResponse'' (PoolList 0 []), s1)))"

text \<open>
  One address of the loop in \<open>listPublicIpAddresses\<close>: skipped, or its stored tags extended in place and listed if
  one of them matches the query.
\<close>

definition matchIP :: "string \<Rightarrow> string \<Rightarrow> smap \<Rightarrow> CloudstackServer \<Rightarrow> publicIpAddress \<Rightarrow> bool \<times> publicIpAddress" where
  "matchIP address i tags s ip =
    (if address \<noteq> [] \<and> pip_Ipaddress ip \<noteq> address then (False, ip)
     else if i \<noteq> [] \<and> pip_Id ip \<noteq> i then (False, ip)
     else
       (let ipTags = get_list (srv_tags s) (pip_Id ip) in
        (length tags = 0 \<or> list_ex (\<lambda>tag. get_str tags (tag_Key tag) = tag_Value tag) ipTags,
         ip\<lparr>pip_Tags := pip_Tags ip @ ipTags\<rparr>)))"

definition serve_listPublicIpAddresses :: "form \<Rightarrow> CloudstackServer \<Rightarrow> response \<times> CloudstackServer" where
  "serve_listPublicIpAddresses r s =
    (if Atoi (FormValue r ''page'') > 1 then (OK ''listPublicIpAddressesResponse'' (IPList 0 []), s)
     else
       (let m = matchIP (FormValue r ''ipaddress'') (FormValue r ''id'') (parseTags r) s;
            listed = map snd (filter fst (map (\<lambda>(k, ip). m ip) (srv_ips s)))
        in (OK ''listPublicIpAddressesResponse'' (IPList (int (length listed)) listed),
            s\<lparr>srv_ips := map (\<lambda>(k, ip). (k, snd (m ip))) (srv_ips s)\<rparr>)))"

text \<open>Commands that answer with a job which takes effect when its result is queried.\<close>

definition addJob :: "string \<Rightarrow> fakeJob \<Rightarrow> CloudstackServer \<Rightarrow> CloudstackServer" where
  "addJob jobID job s = s\<lparr>Jobs := AList.update jobID job (Jobs s)\<rparr>"

definition serve_associateIpAddress :: "form \<Rightarrow> CloudstackServer \<Rightarrow> response \<times> CloudstackServer" where
  "serve_associateIpAddress r s =
    (let (ipIdx, s1) = newID ''associateIpAddress'' s;
         obj = \<lparr>ar_Id = ''ip-'' @ Itoa ipIdx, ar_Ipaddress = [], ar_Networkid = FormValue r ''networkid'',
           ar_JobID = ''job-ip-'' @ Itoa ipIdx\<rparr>
     in (OK ''associateIpAddressResponse'' (AssociateBody obj), addJob (ar_JobID obj) (JobAssociate ipIdx obj) s1))"

definition serve_disassociateIpAddress :: "form \<Rightarrow> CloudstackServer \<Rightarrow> response \<times> CloudstackServer" where
  "serve_disassociateIpAddress r s =
    (let ipID = FormValue r ''id'' in
     if map_of (srv_ips s) ipID = None
     then (ErrorResponse 404 ''disassociateIpAddressResponse'' (Sprintf ''ip not found: %q'' [ipID]), s)
     else
       (let (jobIdx, s1) = newID ''disassociateIpAddress'' s; jobID = ''job-ip-disassociate-'' @ Itoa jobIdx
        in (OK ''disassociateIpAddressResponse'' (JobBody jobID), addJob jobID (JobDisassociate ipID jobID) s1)))"

definition serve_updateLoadBalancerRule :: "form \<Rightarrow> CloudstackServer \<Rightarrow> response \<times> CloudstackServer" where
  "serve_updateLoadBalancerRule r s =
    (let lbID = FormValue r ''id''; lbName = lbNameByID s lbID in
     if lbName = [] then (ErrorResponse 404 ''updateLoadBalancerRuleResponse'' (Sprintf ''lb not found with id %v'' [lbID]), s)
     else
       (let (ruleIdx, s1) = newID ''updateLoadBalancerRule'' s; jobID = ''job-lbrule-update-'' @ Itoa ruleIdx
        in (OK ''updateLoadBalancerRuleResponse'' (JobBody jobID),
            addJob jobID (JobUpdateRule lbName (FormValue r ''algorithm'')) s1)))"

definition poolIndex :: "int \<Rightarrow> globoNetworkPool list \<Rightarrow> nat option" where
  "poolIndex poolID pools = (let n = length (takeWhile (\<lambda>p. pool_Id p \<noteq> poolID) pools)
     in if n < length pools then Some n else None)"

definition serve_updateGloboNetworkPool :: "form \<Rightarrow> CloudstackServer \<Rightarrow> response \<times> CloudstackServer" where
  "serve_updateGloboNetworkPool r s =
    (let lbRuleID = FormValue r ''lbruleid''; poolID = Atoi (FormValue r ''poolids''); lbName = lbNameByID s lbRuleID;
         notFound = ErrorResponse 404 ''updateGloboNetworkPoolResponse''
           (Sprintf ''pool %v for lb %v not found'' [lbRuleID, lbName])
     in if lbName = [] then
          (ErrorResponse 404 ''updateGloboNetworkPoolResponse'' (Sprintf ''lb not found with id %v'' [lbRuleID]), s)
        else
          (case map_of (lbRules s) lbName of
             None \<Rightarrow> (Aborted, s)
           | Some lb \<Rightarrow>
               if length (lbPools lb) = 0 then (notFound, s)
               else (case poolIndex poolID (lbPools lb) of
                  None \<Rightarrow> (notFound, s)
                | Some i \<Rightarrow>
                    (let (ruleIdx, s1) = newID ''updateGloboNetworkPool'' s;
                         jobID = ''job-lbrule-pool-update-'' @ Itoa ruleIdx
                     in (OK ''updateGloboNetworkPoolResponse'' (JobBody jobID),
                         addJob jobID (JobUpdatePool lbName i (FormValue r ''healthcheck'') (FormValue r ''healthchecktype'')
                           (FormValue r ''expectedhealthcheck'')) s1)))))"

text \<open>The answer holds only the new ID and the job; the other entries are added afterwards.\<close>

definition serve_createLoadBalancerRule :: "form \<Rightarrow> CloudstackServer \<Rightarrow> response \<times> CloudstackServer" where
  "serve_createLoadBalancerRule r s =
    (let lbname = FormValue r ''name'' in
     if map_of (lbRules s) lbname \<noteq> None then
       (ErrorResponse 409 ''createLoadBalancerRuleResponse'' (Sprintf ''lb already exists with name %v'' [lbname]), s)
     else
       (let (ruleIdx, s1) = newID ''createLoadBalancerRule'' s;
            jobID = ''job-lbrule-'' @ Itoa ruleIdx;
            rule0 = [(''id'', JStr (''lbrule-'' @ Itoa ruleIdx)), (''jobid'', JStr jobID)]
        in case map_of (srv_ips s1) (FormValue r ''publicipid'') of
             None \<Rightarrow> (Aborted, s1)
           | Some ipObj \<Rightarrow>
               if pip_Id ipObj = [] then
                 (ErrorResponse 500 ''createLoadBalancerRuleResponse''
                    (Sprintf ''ip id not found: %s'' [FormValue r ''publicipid'']), s1)
               else
                 (let copied = map (\<lambda>k. (k, JStr (FormValue r k)))
                        [''algorithm'', ''name'', ''privateport'', ''publicport'', ''networkid'', ''publicipid'', ''protocol''];
                      additional = FormValue r ''additionalportmap'';
                      rule1 = rule0 @ copied @ [(''openfirewall'', JBool (FormValue r ''openfirewall''
                          \<in> {''1'', ''t'', ''T'', ''true'', ''TRUE'', ''True''})), (''publicip'', JStr (pip_Ipaddress ipObj))]
                        @ (if additional \<noteq> [] then [(''additionalportmap'', JArr (map JStr (Split (CHR '','') additional)))] else [])
                  in (OK ''createLoadBalancerRuleResponse'' (RuleBody rule0),
                      addJob jobID (JobCreateRule lbname \<lparr>Rule = rule1, lbPools = [], createLBPool = True\<rparr>) s1))))"

definition serve_assignNetworkToLBRule :: "CloudstackServer \<Rightarrow> response \<times> CloudstackServer" where
  "serve_assignNetworkToLBRule s =
    (let (i, s1) = newID ''assignNetworkToLBRule'' s; jobID = ''job-net-assign-'' @ Itoa i
     in (OK ''assignNetworkToLBRuleResponse'' (JobBody jobID), addJob jobID (JobEcho jobID) s1))"

definition serve_createTags :: "form \<Rightarrow> CloudstackServer \<Rightarrow> response \<times> CloudstackServer" where
  "serve_createTags r s =
    (let (i, s1) = newID ''createTags'' s; jobID = ''job-tags-'' @ Itoa i
     in (OK ''createTags'' (JobBody jobID), addJob jobID (JobCreateTags jobID (FormValue r ''resourceids'')
          (FormValue r ''tags[0].key'') (FormValue r ''tags[0].value'')) s1))"

definition serve_deleteTags :: "form \<Rightarrow> CloudstackServer \<Rightarrow> response \<times> CloudstackServer" where
  "serve_deleteTags r s =
    (let (i, s1) = newID ''deleteTags'' s; jobID = ''job-delete-tags-'' @ Itoa i
     in (OK ''deleteTags'' (JobBody jobID), addJob jobID (JobDeleteTags jobID (get_list r ''resourceids'')) s1))"

definition splitIDs :: "string \<Rightarrow> string list" where
  "splitIDs ids = (if ids \<noteq> [] then Split (CHR '','') ids else [])"

definition serve_assignToLoadBalancerRule :: "form \<Rightarrow> CloudstackServer \<Rightarrow> response \<times> CloudstackServer" where
  "serve_assignToLoadBalancerRule r s =
    (let (i, s1) = newID ''assignToLoadBalancerRule'' s; jobID = ''job-host-assign-'' @ Itoa i
     in (OK ''assignToLoadBalancerRuleResponse'' (JobBody jobID),
         addJob jobID (JobAssignHosts jobID (FormValue r ''id'') (splitIDs (FormValue r ''virtualmachineids''))) s1))"

definition serve_removeFromLoadBalancerRule :: "form \<Rightarrow> CloudstackServer \<Rightarrow> response \<times> CloudstackServer" where
  "serve_removeFromLoadBalancerRule r s =
    (let (i, s1) = newID ''removeFromLoadBalancerRule'' s; jobID = ''job-host-remove-'' @ Itoa i
     in (OK ''removeFromLoadBalancerRuleResponse'' (JobBody jobID),
         addJob jobID (JobRemoveHosts jobID (FormValue r ''id'') (splitIDs (FormValue r ''virtualmachineids''))) s1))"

definition serve_listTags :: "form \<Rightarrow> CloudstackServer \<Rightarrow> response" where
  "serve_listTags r s =
    (let keyFilter = FormValue r ''key'';
         tags = filter (\<lambda>tag. \<not> (keyFilter \<noteq> [] \<and> tag_Key tag \<noteq> keyFilter)) (get_list (srv_tags s) (FormValue r ''resourceid''))
     in OK ''listTagsResponse'' (TagList (int (length tags)) tags))"

definition serve_deleteLoadBalancerRule :: "form \<Rightarrow> CloudstackServer \<Rightarrow> response \<times> CloudstackServer" where
  "serve_deleteLoadBalancerRule r s =
    (let (i, s1) = newID ''deleteLoadBalancerRule'' s; jobID = ''job-delete-lb-'' @ Itoa i
     in (OK ''deleteLoadBalancerRuleResponse'' (JobBody jobID), addJob jobID (JobDeleteRule jobID (FormValue r ''id'')) s1))"

definition serve_listLoadBalancerRuleInstances :: "form \<Rightarrow> CloudstackServer \<Rightarrow> response" where
  "serve_listLoadBalancerRuleInstances r s =
    (if Atoi (FormValue r ''page'') > 1 then OK ''listLoadBalancerRuleInstancesResponse'' (VMList 0 [])
     else (let l = get_list (srv_vms s) (FormValue r ''id'')
           in OK ''listLoadBalancerRuleInstancesResponse'' (VMList (int (length l)) l)))"

section \<open>Jobs\<close>

text \<open>The callbacks, one per command; no payload is a nil pointer in the callback.\<close>

type_synonym callback = "CloudstackServer \<Rightarrow> payload option \<times> CloudstackServer"

definition job_associate :: "int \<Rightarrow> associateResponse \<Rightarrow> callback" where
  "job_associate ipIdx obj s =
    (let obj1 = obj\<lparr>ar_Ipaddress := ''10.0.0.'' @ Itoa ipIdx\<rparr>
     in (Some (AssociateBody obj1), s\<lparr>srv_ips := AList.update (ar_Id obj)
          \<lparr>pip_Id = ar_Id obj1, pip_Ipaddress = ar_Ipaddress obj1, pip_Networkid = ar_Networkid obj1, pip_Tags = []\<rparr> (srv_ips s)\<rparr>))"

definition job_disassociate :: "string \<Rightarrow> string \<Rightarrow> callback" where
  "job_disassociate ipID jobID s = (Some (JobBody jobID), s\<lparr>srv_ips := AList.delete ipID (srv_ips s)\<rparr>)"

definition job_updateRule :: "string \<Rightarrow> string \<Rightarrow> callback" where
  "job_updateRule lbName algorithm s = (case map_of (lbRules s) lbName of
       None \<Rightarrow> (None, s)
     | Some lb \<Rightarrow>
         (let lb1 = lb\<lparr>Rule := AList.update ''algorithm'' (JStr algorithm) (Rule lb)\<rparr>
          in (Some (LBBody lb1), s\<lparr>lbRules := AList.update lbName lb1 (lbRules s)\<rparr>)))"

definition job_updatePool :: "string \<Rightarrow> nat \<Rightarrow> string \<Rightarrow> string \<Rightarrow> string \<Rightarrow> callback" where
  "job_updatePool lbName i hc hcType hcExpected s = (case map_of (lbRules s) lbName of
       None \<Rightarrow> (None, s)
     | Some lb \<Rightarrow>
         if i < length (lbPools lb) then
           (let pool = (lbPools lb ! i)\<lparr>pool_HealthCheck := hc, pool_HealthCheckType := hcType, pool_HealthCheckExpected := hcExpected\<rparr>;
                lb1 = lb\<lparr>lbPools := (lbPools lb)[i := pool]\<rparr>
            in (Some (LBBody lb1), s\<lparr>lbRules := AList.update lbName lb1 (lbRules s)\<rparr>))
         else (None, s))"

definition job_createRule :: "string \<Rightarrow> fakeLB \<Rightarrow> callback" where
  "job_createRule lbname obj s = (Some (RuleBody (Rule obj)), s\<lparr>lbRules := AList.update lbname obj (lbRules s)\<rparr>)"

definition job_assignNetwork :: "string \<Rightarrow> callback" where
  "job_assignNetwork jobID s = (Some (JobBody jobID), s)"

definition job_createTags :: "string \<Rightarrow> string \<Rightarrow> string \<Rightarrow> string \<Rightarrow> callback" where
  "job_createTags jobID rid k v s =
    (Some (JobBody jobID), s\<lparr>srv_tags := AList.update rid (get_list (srv_tags s) rid @ [\<lparr>tag_Key = k, tag_Value = v\<rparr>]) (srv_tags s)\<rparr>)"

definition job_deleteTags :: "string \<Rightarrow> string list \<Rightarrow> callback" where
  "job_deleteTags jobID ids s = (Some (JobBody jobID), s\<lparr>srv_tags := fold AList.delete ids (srv_tags s)\<rparr>)"

definition job_assignHosts :: "string \<Rightarrow> string \<Rightarrow> string list \<Rightarrow> callback" where
  "job_assignHosts jobID ruleId vmIDs s =
    (Some (JobBody jobID),
     s\<lparr>srv_vms := fold (\<lambda>vmID m. AList.update ruleId (get_list m ruleId @ [blankVM\<lparr>vm_Id := vmID\<rparr>]) m) vmIDs (srv_vms s)\<rparr>)"

definition job_removeHosts :: "string \<Rightarrow> string \<Rightarrow> string list \<Rightarrow> callback" where
  "job_removeHosts jobID ruleId vmIDs s =
    (Some (JobBody jobID),
     s\<lparr>srv_vms := AList.update ruleId (filter (\<lambda>vm. vm_Id vm \<notin> set vmIDs) (get_list (srv_vms s) ruleId)) (srv_vms s)\<rparr>)"

definition job_deleteRule :: "string \<Rightarrow> string \<Rightarrow> callback" where
  "job_deleteRule jobID lbID s =
    (Some (JobBody jobID), s\<lparr>lbRules := AList.delete (lbNameByID s lbID) (lbRules s), srv_tags := AList.delete lbID (srv_tags s)\<rparr>)"

lemmas job_defs [simp] = job_associate_def job_disassociate_def job_updateRule_def job_updatePool_def job_createRule_def
  job_assignNetwork_def job_createTags_def job_deleteTags_def job_assignHosts_def job_removeHosts_def job_deleteRule_def

fun runJob :: "fakeJob \<Rightarrow> callback" where
  "runJob (JobAssociate ipIdx obj) = job_associate ipIdx obj"
| "runJob (JobDisassociate ipID jobID) = job_disassociate ipID jobID"
| "runJob (JobUpdateRule lbName algorithm) = job_updateRule lbName algorithm"
| "runJob (JobUpdatePool lbName i hc hcType hcExpected) = job_updatePool lbName i hc hcType hcExpected"
| "runJob (JobCreateRule lbname obj) = job_createRule lbname obj"
| "runJob (JobEcho jobID) = job_assignNetwork jobID"
| "runJob (JobCreateTags jobID rid k v) = job_createTags jobID rid k v"
| "runJob (JobDeleteTags jobID ids) = job_deleteTags jobID ids"
| "runJob (JobAssignHosts jobID ruleId vmIDs) = job_assignHosts jobID ruleId vmIDs"
| "runJob (JobRemoveHosts jobID ruleId vmIDs) = job_removeHosts jobID ruleId vmIDs"
| "runJob (JobDeleteRule jobID lbID) = job_deleteRule jobID lbID"

definition serve_queryAsyncJobResult :: "form \<Rightarrow> CloudstackServer \<Rightarrow> response \<times> CloudstackServer" where
  "serve_queryAsyncJobResult r s =
    (let jobID = FormValue r ''jobid'' in
     case map_of (Jobs s) jobID of
       None \<Rightarrow> (ErrorResponse 404 ''queryAsyncJobResultResponse'' (Sprintf ''job id %q not found: '' [jobID]), s)
     | Some job \<Rightarrow>
         (case runJob job s of
            (None, s1) \<Rightarrow> (Aborted, s1)
          | (Some p, s1) \<Rightarrow> (OK ''queryAsyncJobResultResponse'' (JobResult p), s1)))"

section \<open>Dispatch\<close>

definition dispatch :: "string \<Rightarrow> form \<Rightarrow> CloudstackServer \<Rightarrow> response \<times> CloudstackServer" where
  "dispatch cmd r s =
    (if cmd = ''listVirtualMachines'' then (serve_listVirtualMachines r, s)
     else if cmd = ''listLoadBalancerRules'' then serve_listLoadBalancerRules r s
     else if cmd = ''listGloboNetworkPools'' then serve_listGloboNetworkPools r s
     else if cmd = ''listNetworks'' then (OK ''listNetworksResponse'' NetworkList, s)
     else if cmd = ''listPublicIpAddresses'' then serve_listPublicIpAddresses r s
     else if cmd = ''associateIpAddress'' then serve_associateIpAddress r s
     else if cmd = ''disassociateIpAddress'' then serve_disassociateIpAddress r s
     else if cmd = ''updateLoadBalancerRule'' then serve_updateLoadBalancerRule r s
     else if cmd = ''updateGloboNetworkPool'' then serve_updateGloboNetworkPool r s
     else if cmd = ''createLoadBalancerRule'' then serve_createLoadBalancerRule r s
     else if cmd = ''assignNetworkToLBRule'' then serve_assignNetworkToLBRule s
     else if cmd = ''createTags'' then serve_createTags r s
     else if cmd = ''deleteTags'' then serve_deleteTags r s
     else if cmd = ''assignToLoadBalancerRule'' then serve_assignToLoadBalancerRule r s
     else if cmd = ''removeFromLoadBalancerRule'' then serve_removeFromLoadBalancerRule r s
     else if cmd = ''listTags'' then (serve_listTags r s, s)
     else if cmd = ''deleteLoadBalancerRule'' then serve_deleteLoadBalancerRule r s
     else if cmd = ''listLoadBalancerRuleInstances'' then (serve_listLoadBalancerRuleInstances r s, s)
     else if cmd = ''queryAsyncJobResult'' then serve_queryAsyncJobResult r s
     else (ErrorResponse 500 (cmd @ ''Response'') (Sprintf ''fake call for %q not implemented, args: '' [cmd]), s))"

text \<open>
  Every request is recorded; then a hook, where one is installed, may answer it (\<open>None\<close>: it does not), else the command's
  handler does. The server of the other theories has no hook.
\<close>

type_synonym hook = "form \<Rightarrow> CloudstackServer \<Rightarrow> (response \<times> CloudstackServer) option"

definition serveHooked :: "hook option \<Rightarrow> form \<Rightarrow> CloudstackServer \<Rightarrow> response \<times> CloudstackServer" where
  "serveHooked hk r s = (let cmd = FormValue r ''command''; s1 = s\<lparr>Calls := Calls s @ [(cmd, r)]\<rparr> in
     case (case hk of None \<Rightarrow> None | Some h \<Rightarrow> h r s1) of
       Some answered \<Rightarrow> answered
     | None \<Rightarrow> dispatch cmd r s1)"

definition ServeHTTP :: "form \<Rightarrow> CloudstackServer \<Rightarrow> response \<times> CloudstackServer" where
  "ServeHTTP = serveHooked None"

lemma ServeHTTP_dispatch:
  "ServeHTTP r s = (let cmd = FormValue r ''command'' in dispatch cmd r (s\<lparr>Calls := Calls s @ [(cmd, r)]\<rparr>))"
  by (simp add: ServeHTTP_def serveHooked_def Let_def)

text \<open>
  \<open>HasCalls\<close>: whether the recorded requests pass the assertions of an expected list. Of each request the command and the
  parameters named are compared; a parameter expected without a value only has to be there.
\<close>

type_synonym expectedCall = "string \<times> (string \<times> string list option) list"

definition matchesCall :: "expectedCall \<Rightarrow> string \<times> form \<Rightarrow> bool" where
  "matchesCall expected actual \<longleftrightarrow> fst actual = fst expected
     \<and> list_all (\<lambda>(k, v). case v of None \<Rightarrow> map_of (snd actual) k \<noteq> None
          | Some vs \<Rightarrow> map_of (snd actual) k = Some vs) (snd expected)"

definition HasCalls :: "expectedCall list \<Rightarrow> CloudstackServer \<Rightarrow> bool" where
  "HasCalls calls s \<longleftrightarrow> length (Calls s) = length calls \<and> list_all2 matchesCall calls (Calls s)"

lemma HasCalls_commands: "HasCalls calls s \<Longrightarrow> map fst (Calls s) = map fst calls"
  by (auto simp: HasCalls_def matchesCall_def list_all2_conv_all_nth intro!: nth_equalityI)

section \<open>The client library on this server\<close>

text \<open>
  A concrete instance of the client library: parameters become form values, a request is answered by
  \<open>ServeHTTP\<close>, an asynchronous call of the typed interface queries its job, and bodies are decoded into the
  structs of the callers. It serves concrete runs and the interpretation of contracts; no definition of the program uses it.
\<close>

fun paramValue :: "pval \<Rightarrow> string" where
  "paramValue (PStr v) = v"
| "paramValue (PBool b) = (if b then ''true'' else ''false'')"
| "paramValue (PInt i) = Itoa i"
| "paramValue (PList l) = Join l '',''"

definition formOf :: "params \<Rightarrow> form" where
  "formOf p = map (\<lambda>(k, v). (k, [paramValue v])) p"

definition rpc ::
  "string \<Rightarrow> form \<Rightarrow> (payload \<Rightarrow> 'a option) \<Rightarrow> CloudstackServer \<Rightarrow> (string + 'a) \<times> CloudstackServer" where
  "rpc cmd f pick w = (case ServeHTTP ((''command'', [cmd]) # f) w of
      (OK _ p, w1) \<Rightarrow> (case pick p of Some a \<Rightarrow> (Inr a, w1) | None \<Rightarrow> (Inl ''unexpected body'', w1))
    | (ErrorResponse _ _ e, w1) \<Rightarrow> (Inl e, w1)
    | (Aborted, w1) \<Rightarrow> (Inl ''EOF'', w1))"

fun pickJob :: "payload \<Rightarrow> string option" where
  "pickJob (JobBody j) = Some j" | "pickJob _ = None"
fun pickVMs :: "payload \<Rightarrow> (int \<times> virtualMachine list) option" where
  "pickVMs (VMList n l) = Some (n, l)" | "pickVMs _ = None"
fun pickRules :: "payload \<Rightarrow> (int \<times> ruleMap list) option" where
  "pickRules (RuleList n l) = Some (n, l)" | "pickRules _ = None"
fun pickIPs :: "payload \<Rightarrow> (int \<times> publicIpAddress list) option" where
  "pickIPs (IPList n l) = Some (n, l)" | "pickIPs _ = None"
fun pickPools :: "payload \<Rightarrow> (int \<times> globoNetworkPool list) option" where
  "pickPools (PoolList n l) = Some (n, l)" | "pickPools _ = None"
fun pickAssociate :: "payload \<Rightarrow> associateResponse option" where
  "pickAssociate (AssociateBody a) = Some a" | "pickAssociate _ = None"
fun pickRule :: "payload \<Rightarrow> ruleMap option" where
  "pickRule (RuleBody m) = Some m" | "pickRule _ = None"
fun pickResult :: "payload \<Rightarrow> payload option" where
  "pickResult (JobResult p) = Some p" | "pickResult _ = None"

fun payloadJson :: "payload \<Rightarrow> json" where
  "payloadJson (AssociateBody a) = JObj [(''id'', JStr (ar_Id a)), (''ipaddress'', JStr (ar_Ipaddress a)),
     (''networkid'', JStr (ar_Networkid a)), (''jobid'', JStr (ar_JobID a))]"
| "payloadJson (JobBody j) = JObj [(''jobid'', JStr j)]"
| "payloadJson (RuleBody m) = JObj m"
| "payloadJson (LBBody lb) = JObj [(''Rule'', JObj (Rule lb))]"
| "payloadJson _ = JNull"

definition jobQuery :: "string \<Rightarrow> CloudstackServer \<Rightarrow> (string + payload) \<times> CloudstackServer" where
  "jobQuery j = rpc ''queryAsyncJobResult'' [(''jobid'', [j])] pickResult"

definition asyncCall :: "string \<Rightarrow> form \<Rightarrow> CloudstackServer \<Rightarrow> (string + unit) \<times> CloudstackServer" where
  "asyncCall cmd f w = (case rpc cmd f pickJob w of
      (Inl e, w1) \<Rightarrow> (Inl e, w1)
    | (Inr j, w1) \<Rightarrow> (case jobQuery j w1 of (Inl e, w2) \<Rightarrow> (Inl e, w2) | (Inr _, w2) \<Rightarrow> (Inr (), w2)))"

definition str_or :: "string \<Rightarrow> ruleMap \<Rightarrow> string \<Rightarrow> string" where
  "str_or old m k = (case rule_str m k of Some v \<Rightarrow> v | None \<Rightarrow> old)"

definition tagsOf :: "json option \<Rightarrow> csTag list" where
  "tagsOf j = (case j of
      Some (JArr ts) \<Rightarrow> map (\<lambda>t. case t of JObj m \<Rightarrow> \<lparr>tag_Key = str_or [] m ''key'', tag_Value = str_or [] m ''value''\<rparr>
        | _ \<Rightarrow> \<lparr>tag_Key = [], tag_Value = []\<rparr>) ts
    | _ \<Rightarrow> [])"

definition blankRule :: loadBalancerRule where
  "blankRule = \<lparr>rule_Id = [], rule_Algorithm = [], rule_Cidrlist = [], rule_Name = [], rule_Networkid = [],
     rule_Privateport = [], rule_Publicport = [], rule_Publicip = [], rule_Publicipid = [], rule_Zoneid = [],
     rule_Protocol = [], rule_Tags = [], AdditionalPortMap = []\<rparr>"

definition decodeRule :: "ruleMap \<Rightarrow> loadBalancerRule \<Rightarrow> loadBalancerRule" where
  "decodeRule m r = \<lparr>rule_Id = str_or (rule_Id r) m ''id'', rule_Algorithm = str_or (rule_Algorithm r) m ''algorithm'',
     rule_Cidrlist = str_or (rule_Cidrlist r) m ''cidrlist'', rule_Name = str_or (rule_Name r) m ''name'',
     rule_Networkid = str_or (rule_Networkid r) m ''networkid'', rule_Privateport = str_or (rule_Privateport r) m ''privateport'',
     rule_Publicport = str_or (rule_Publicport r) m ''publicport'', rule_Publicip = str_or (rule_Publicip r) m ''publicip'',
     rule_Publicipid = str_or (rule_Publicipid r) m ''publicipid'', rule_Zoneid = str_or (rule_Zoneid r) m ''zoneid'',
     rule_Protocol = str_or (rule_Protocol r) m ''protocol'', rule_Tags = tagsOf (map_of m ''tags''),
     AdditionalPortMap = (case rule_strs m ''additionalportmap'' of Some l \<Rightarrow> l | None \<Rightarrow> [])\<rparr>"

definition decodeCreated :: "ruleMap \<Rightarrow> createRuleResponse \<Rightarrow> createRuleResponse" where
  "decodeCreated m r = \<lparr>cr_Rule = decodeRule m (cr_Rule r), cr_JobID = str_or (cr_JobID r) m ''jobid''\<rparr>"

definition decodeAssociate :: "ruleMap \<Rightarrow> associateResponse \<Rightarrow> associateResponse" where
  "decodeAssociate m a = \<lparr>ar_Id = str_or (ar_Id a) m ''id'', ar_Ipaddress = str_or (ar_Ipaddress a) m ''ipaddress'',
     ar_Networkid = str_or (ar_Networkid a) m ''networkid'', ar_JobID = str_or (ar_JobID a) m ''jobid''\<rparr>"

definition queryForm :: "ipQuery \<Rightarrow> form" where
  "queryForm q = [(''ipaddress'', [q_Ipaddress q]), (''id'', [q_Id q]), (''page'', [Itoa (q_Page q)])]
     @ (case q_Tags q of [] \<Rightarrow> [] | (k, v) # _ \<Rightarrow> [(''tags[0].key'', [k]), (''tags[0].value'', [v])])"

definition fakeAPI :: "CloudstackServer api" where
  "fakeAPI = offlineAPI\<lparr>
     req_listLoadBalancerRules := (\<lambda>_ p. rpc ''listLoadBalancerRules'' (formOf p)
       (\<lambda>b. map_option (\<lambda>(n, l). (n, map (\<lambda>m. Some (decodeRule m blankRule)) l)) (pickRules b))),
     req_associate := (\<lambda>_ cmd p. rpc cmd (formOf p) pickAssociate),
     req_job := (\<lambda>_ cmd p. rpc cmd (formOf p) pickJob),
     req_createRule := (\<lambda>_ p. rpc ''createLoadBalancerRule'' (formOf p)
       (\<lambda>b. map_option (\<lambda>m. decodeCreated m \<lparr>cr_Rule = blankRule, cr_JobID = []\<rparr>) (pickRule b))),
     req_listPools := (\<lambda>_ p. rpc ''listGloboNetworkPools'' (formOf p)
       (\<lambda>b. map_option (\<lambda>(n, l). (n, map Some l)) (pickPools b))),
     req_updatePool := (\<lambda>_ p. rpc ''updateGloboNetworkPool'' (formOf p) (\<lambda>b. Some (payloadJson b))),
     api_listPublicIpAddresses := (\<lambda>_ q. rpc ''listPublicIpAddresses'' (queryForm q) pickIPs),
     api_listInstances := (\<lambda>_ rid page _. rpc ''listLoadBalancerRuleInstances''
       [(''id'', [rid]), (''page'', [Itoa page])] pickVMs),
     api_updateRule := (\<lambda>_ rid alg. asyncCall ''updateLoadBalancerRule'' [(''id'', [rid]), (''algorithm'', [alg])]),
     api_createTags := (\<lambda>_ rids ty kvs. asyncCall ''createTags'' ([(''resourceids'', [Join rids '',''])]
       @ (case kvs of [] \<Rightarrow> [] | (k, v) # _ \<Rightarrow> [(''tags[0].key'', [k]), (''tags[0].value'', [v])]))),
     api_assignHosts := (\<lambda>_ rid l. asyncCall ''assignToLoadBalancerRule''
       [(''id'', [rid]), (''virtualmachineids'', [Join l '',''])]),
     api_removeHosts := (\<lambda>_ rid l. asyncCall ''removeFromLoadBalancerRule''
       [(''id'', [rid]), (''virtualmachineids'', [Join l '',''])]),
     api_getNetworkByID := (\<lambda>_ _ _ w. ((1, Inr \<lparr>net_Vpcid = []\<rparr>), w)),
     api_listVirtualMachines := (\<lambda>_ nm _. rpc ''listVirtualMachines'' [(''name'', [nm])] (\<lambda>b. map_option snd (pickVMs b))),
     api_asyncJob := (\<lambda>_ j _. rpc ''queryAsyncJobResult'' [(''jobid'', [j])]
       (\<lambda>b. map_option (\<lambda>p. JObj [(''cmdResponse'', payloadJson p)]) (pickResult b))),
     unmarshal_associate := (\<lambda>j a. case j of JObj m \<Rightarrow> (decodeAssociate m a, None) | _ \<Rightarrow> (a, Some ''json'')),
     unmarshal_createRule := (\<lambda>j r. case j of JObj m \<Rightarrow> (decodeCreated m r, None) | _ \<Rightarrow> (r, Some ''json'')),
     kube_patchService := (\<lambda>_ _ _ w. (Inr (), w))\<rparr>"

section \<open>Lemmas\<close>

lemma FormValue_Cons [simp]: "FormValue ((k, [v]) # r) k' = (if k = k' then v else FormValue r k')"
  by (simp add: FormValue_def)

lemma get_list_update [simp]: "get_list (AList.update k v m) k' = (if k = k' then v else get_list m k')"
  by (auto simp: get_list_def update_conv')

lemma Split_Join:
  "xs \<noteq> [] \<Longrightarrow> (\<forall>x \<in> set xs. c \<notin> set x) \<Longrightarrow> Split c (Join xs [c]) = xs"
  by (induction xs "[c]" rule: Join.induct) auto

lemma splitIDs_Join:
  assumes "\<forall>x \<in> set xs. x \<noteq> [] \<and> CHR '','' \<notin> set x"
  shows "splitIDs (Join xs '','') = xs"
proof (cases xs)
  case (Cons y ys)
  then have "Join xs '','' \<noteq> []" using assms by (cases ys) auto
  then show ?thesis using Split_Join [of xs "CHR '',''"] assms Cons by (simp add: splitIDs_def)
qed (simp add: splitIDs_def)

text \<open>The instances behind the rules, and how the host jobs change them.\<close>

definition ruleHosts :: "CloudstackServer \<Rightarrow> string \<Rightarrow> string set" where
  "ruleHosts w rid = vm_Id ` set (get_list (srv_vms w) rid)"

lemma assign_fold_hosts:
  "vm_Id ` set (get_list (fold (\<lambda>vmID m. AList.update rid (get_list m rid @ [blankVM\<lparr>vm_Id := vmID\<rparr>]) m) ids m) k)
    = vm_Id ` set (get_list m k) \<union> (if k = rid then set ids else {})"
  by (induction ids arbitrary: m) auto

lemma newID_frame: "newID cmd s = (i, s1) \<Longrightarrow> srv_vms s1 = srv_vms s"
  by (auto simp: newID_def Let_def)

lemma fake_assign:
  assumes "\<forall>x \<in> set ids. x \<noteq> [] \<and> CHR '','' \<notin> set x"
  shows "\<exists>w1. api_assignHosts fakeAPI c rid ids w = (Inr (), w1)
    \<and> ruleHosts w1 = (ruleHosts w)(rid := ruleHosts w rid \<union> set ids)"
  using assms
  by (auto simp: fakeAPI_def asyncCall_def rpc_def ServeHTTP_dispatch dispatch_def serve_assignToLoadBalancerRule_def
      newID_def addJob_def jobQuery_def serve_queryAsyncJobResult_def update_conv' splitIDs_Join ruleHosts_def
      assign_fold_hosts Let_def fun_eq_iff)

lemma fake_remove:
  assumes "\<forall>x \<in> set ids. x \<noteq> [] \<and> CHR '','' \<notin> set x"
  shows "\<exists>w1. api_removeHosts fakeAPI c rid ids w = (Inr (), w1)
    \<and> ruleHosts w1 = (ruleHosts w)(rid := ruleHosts w rid - set ids)"
  using assms
  by (auto simp: fakeAPI_def asyncCall_def rpc_def ServeHTTP_dispatch dispatch_def serve_removeFromLoadBalancerRule_def
      newID_def addJob_def jobQuery_def serve_queryAsyncJobResult_def update_conv' splitIDs_Join ruleHosts_def
      Let_def fun_eq_iff)

end
