(* ===== verification/Helpers.thy ===== *)
theory Helpers
  imports Cloud FakeServer
begin

text \<open>
  \<open>cloudstack/helpers.go\<close>: the cached lookup of virtual machines by name, and the listing of all
  pages of a CloudStack resource with the removal of duplicates. The page loop has no bound of its own
  (it trusts the server's count), so it is a partial function: a loop that does not end is \<open>None\<close> and
  the call \<open>Block\<close>s.
\<close>

section \<open>Virtual machines by name\<close>

definition vmCacheKey :: "string \<Rightarrow> string \<Rightarrow> string" where
  "vmCacheKey nm projectID = Join [nm, projectID] [CHR 0x00]"

definition virtualMachineByName ::
  "'w api \<Rightarrow> client \<Rightarrow> string \<Rightarrow> string \<Rightarrow> (('w, 'x) sys_scheme, virtualMachine) go" where
  "virtualMachineByName api m nm projectID =
    (let key = vmCacheKey nm projectID in
     bind (local_io (cache_Get api m key)) (\<lambda>cached.
       case cached of
         Some vm \<Rightarrow> ret vm
       | None \<Rightarrow>
           bind (io (ListVirtualMachines m nm projectID) (api_listVirtualMachines api m nm projectID)) (\<lambda>vms.
             if length vms = 0 then throw ErrVMNotFound
             else if length vms > 1 then
               throw (Errorf ''more than one machine found with name %q in project %q'' [nm, projectID])
             else
               bind (local_do (cache_Set api m key (hd vms))) (\<lambda>_. ret (hd vms)))))"

section \<open>All pages of a listing\<close>

text \<open>
  One fetch returns the server's count and the elements of a page. The loop appends pages until one is
  empty or as many elements as counted have arrived.
\<close>

partial_function (option) page_loop ::
  "(int \<Rightarrow> ('s, int \<times> 'e list) go) \<Rightarrow> int \<Rightarrow> 'e list \<Rightarrow> 's \<Rightarrow> ('e list outcome \<times> 's) option" where
  "page_loop fetch page result s =
    (case fetch page s of
       (Ret (totalCount, els), t) \<Rightarrow>
         (if length els = 0 \<or> int (length (result @ els)) \<ge> totalCount
          then Some (Ret (result @ els), t)
          else page_loop fetch (page + 1) (result @ els) t)
     | (Err e, t) \<Rightarrow> Some (Err e, t)
     | (Panic p, t) \<Rightarrow> Some (Panic p, t)
     | (Block, t) \<Rightarrow> Some (Block, t))"

declare page_loop.simps [code]

text \<open>
  The loop that drops duplicates: an element whose ID was seen is overwritten with the last one, which is cut
  off, and the index is tried again.
\<close>

function dedup_loop :: "('e \<Rightarrow> string) \<Rightarrow> string list \<Rightarrow> nat \<Rightarrow> 'e list \<Rightarrow> 'e list" where
  "dedup_loop ID existing i result =
    (if i < length result then
       if ID (result ! i) \<in> set existing
       then dedup_loop ID existing i (butlast (result[i := last result]))
       else dedup_loop ID (ID (result ! i) # existing) (Suc i) result
     else result)"
  by pat_completeness auto
termination
  by (relation "measure (\<lambda>(ID, ex, i, r). length r - i)") auto

declare dedup_loop.simps [simp del]

definition listAllPagesUnsafe ::
  "('e \<Rightarrow> string) \<Rightarrow> (int \<Rightarrow> ('s, int \<times> 'e list) go) \<Rightarrow> ('s, 'e list) go" where
  "listAllPagesUnsafe ID fetch =
    (\<lambda>s. case page_loop fetch 1 [] s of
       None \<Rightarrow> (Block, s)
     | Some (Ret result, t) \<Rightarrow> (Ret (dedup_loop ID [] 0 result), t)
     | Some (Err e, t) \<Rightarrow> (Err e, t)
     | Some (Panic p, t) \<Rightarrow> (Panic p, t)
     | Some (Block, t) \<Rightarrow> (Block, t))"

definition fetchInstances ::
  "'w api \<Rightarrow> client \<Rightarrow> string \<Rightarrow> int \<Rightarrow> (('w, 'x) sys_scheme, int \<times> virtualMachine list) go" where
  "fetchInstances api c ruleID page =
    io (ListLoadBalancerRuleInstances c ruleID page 50) (api_listInstances api c ruleID page 50)"

definition listAllLBInstancesPages ::
  "'w api \<Rightarrow> client \<Rightarrow> string \<Rightarrow> (('w, 'x) sys_scheme, virtualMachine list) go" where
  "listAllLBInstancesPages api c ruleID = listAllPagesUnsafe vm_Id (fetchInstances api c ruleID)"

definition fetchIPs ::
  "'w api \<Rightarrow> client \<Rightarrow> ipQuery \<Rightarrow> int \<Rightarrow> (('w, 'x) sys_scheme, int \<times> publicIpAddress list) go" where
  "fetchIPs api c p page =
    (let q = p\<lparr>q_Page := page, q_Pagesize := 50\<rparr>
     in io (ListPublicIpAddresses c q) (api_listPublicIpAddresses api c q))"

definition listAllIPPages ::
  "'w api \<Rightarrow> client \<Rightarrow> ipQuery \<Rightarrow> (('w, 'x) sys_scheme, publicIpAddress list) go" where
  "listAllIPPages api c p = listAllPagesUnsafe pip_Id (fetchIPs api c p)"

section \<open>Lemmas\<close>

lemma vmCacheKey_eq: "vmCacheKey n p = n @ [CHR 0x00] @ p"
  by (simp add: vmCacheKey_def)

text \<open>Overwriting position \<open>i\<close> with the last element and cutting it off loses only the element at \<open>i\<close>.\<close>

lemma take_swap_remove: "i < length r \<Longrightarrow> take i (butlast (r[i := last r])) = take i r"
  by (simp add: butlast_conv_take take_butlast)

lemma swap_remove_subset: "r \<noteq> [] \<Longrightarrow> set (butlast (r[i := last r])) \<subseteq> set r"
  by (auto dest!: in_set_butlastD set_update_subset_insert [THEN subsetD])

lemma swap_remove_keeps:
  assumes "i < length r" "j < length r" "j \<noteq> i"
  shows "r ! j \<in> set (butlast (r[i := last r]))"
proof (cases "j = length r - 1")
  case True
  from assms have "r \<noteq> []" by auto
  with True assms have "i < length (butlast (r[i := last r]))" "butlast (r[i := last r]) ! i = r ! j"
    by (auto simp: nth_butlast last_conv_nth)
  then show ?thesis by (metis nth_mem)
next
  case False
  with assms have "j < length (butlast (r[i := last r]))" "butlast (r[i := last r]) ! j = r ! j"
    by (auto simp: nth_butlast)
  then show ?thesis by (metis nth_mem)
qed

lemma swap_remove_ids:
  assumes i: "i < length r" and dup: "ID (r ! i) \<in> ID ` set (take i r)"
  shows "ID ` set (butlast (r[i := last r])) = ID ` set r"
proof
  from i have "r \<noteq> []" by auto
  then show "ID ` set (butlast (r[i := last r])) \<subseteq> ID ` set r"
    using swap_remove_subset by (metis image_mono)
  have "ID (r ! j) \<in> ID ` set (butlast (r[i := last r]))" if "j < length r" for j
  proof (cases "j = i")
    case True
    from dup obtain j' where "j' < i" "ID (r ! j') = ID (r ! i)"
      using i by (auto simp: in_set_conv_nth)
    then show ?thesis using True i swap_remove_keeps [of i r j'] by (metis image_eqI nat_neq_iff order.strict_trans)
  next
    case False
    then show ?thesis using i that by (intro imageI swap_remove_keeps)
  qed
  then show "ID ` set r \<subseteq> ID ` set (butlast (r[i := last r]))"
    by (auto simp: in_set_conv_nth)
qed

lemma dedup_loop_ids:
  assumes "set existing = ID ` set (take i r)" "distinct (map ID (take i r))"
  shows "distinct (map ID (dedup_loop ID existing i r)) \<and> ID ` set (dedup_loop ID existing i r) = ID ` set r
    \<and> set (dedup_loop ID existing i r) \<subseteq> set r"
  using assms
proof (induction ID existing i r rule: dedup_loop.induct)
  case (1 ID existing i r)
  consider (fin) "\<not> i < length r" | (dup) "i < length r" "ID (r ! i) \<in> set existing"
    | (new) "i < length r" "ID (r ! i) \<notin> set existing" by blast
  then show ?case
  proof cases
    case fin
    then have "dedup_loop ID existing i r = r" by (simp add: dedup_loop.simps)
    with fin "1.prems" show ?thesis by simp
  next
    case dup
    let ?r = "butlast (r[i := last r])"
    have eq: "dedup_loop ID existing i r = dedup_loop ID existing i ?r"
      using dup by (simp add: dedup_loop.simps [of ID existing i r])
    have "r \<noteq> []" using dup(1) by auto
    then show ?thesis
      using "1.IH"(1) [OF dup] "1.prems" dup swap_remove_ids [OF dup(1), of ID] swap_remove_subset [of r i]
      by (auto simp: take_swap_remove eq)
  next
    case new
    have eq: "dedup_loop ID existing i r = dedup_loop ID (ID (r ! i) # existing) (Suc i) r"
      using new by (simp add: dedup_loop.simps [of ID existing i r])
    show ?thesis
      using "1.IH"(2) [OF new] "1.prems" new by (simp add: take_Suc_conv_app_nth eq)
  qed
qed

lemma dedup_ids:
  "distinct (map ID (dedup_loop ID [] 0 r))"
  "ID ` set (dedup_loop ID [] 0 r) = ID ` set r"
  "set (dedup_loop ID [] 0 r) \<subseteq> set r"
  using dedup_loop_ids [of "[]" ID 0 r] by auto

lemma dedup_id:
  "distinct (map ID (drop i r)) \<Longrightarrow> set existing \<inter> ID ` set (drop i r) = {} \<Longrightarrow> dedup_loop ID existing i r = r"
proof (induction ID existing i r rule: dedup_loop.induct)
  case (1 ID existing i r)
  show ?case
  proof (cases "i < length r")
    case True
    with "1" show ?thesis
      by (subst dedup_loop.simps) (auto simp: Cons_nth_drop_Suc [symmetric])
  qed (simp add: dedup_loop.simps)
qed

lemma listAllPages_single:
  "fetch 1 s = (Ret (n, els), t) \<Longrightarrow> n \<le> int (length els) \<Longrightarrow>
    listAllPagesUnsafe ID fetch s = (Ret (dedup_loop ID [] 0 els), t)"
  by (simp add: listAllPagesUnsafe_def page_loop.simps)

lemma dedup_Nil [simp]: "dedup_loop ID ex i [] = []"
  by (simp add: dedup_loop.simps)

subsection \<open>Paging only reads\<close>

lemma page_loop_outside:
  "page_loop fetch p xs s = Some rt \<Longrightarrow> (\<forall>p. keeps (outside_only P) (fetch p)) \<longrightarrow> outside_only P s (snd rt)"
proof (rule page_loop.raw_induct
    [where P = "\<lambda>fetch p xs s rt. (\<forall>p. keeps (outside_only P) (fetch p)) \<longrightarrow> outside_only P s (snd rt)"], rule impI)
  fix pl fetch page result s rt
  assume IH: "\<And>fetch p xs s rt. pl fetch p xs s = Some rt \<Longrightarrow>
      (\<forall>p. keeps (outside_only P) (fetch p)) \<longrightarrow> outside_only P s (snd rt)"
    and eq: "(case fetch page s of
        (Ret (totalCount, els), t) \<Rightarrow>
          if length els = 0 \<or> int (length (result @ els)) \<ge> totalCount then Some (Ret (result @ els), t)
          else pl fetch (page + 1) (result @ els) t
      | (Err e, t) \<Rightarrow> Some (Err e, t) | (Panic p, t) \<Rightarrow> Some (Panic p, t) | (Block, t) \<Rightarrow> Some (Block, t)) = Some rt"
    and f: "\<forall>p. keeps (outside_only P) (fetch p)"
  obtain r t where ft: "fetch page s = (r, t)" by fastforce
  with f have st: "outside_only P s t" by (blast dest: keepsD)
  have "outside_only P s (snd rt)" if "pl fetch p' xs' t = Some rt" for p' xs'
    using IH [OF that] f st by (blast intro: outside.R_trans)
  with eq ft st show "outside_only P s (snd rt)"
    by (auto split: outcome.splits if_splits)
qed assumption

lemma keeps_listAllPages: "(\<And>p. keeps (outside_only P) (fetch p)) \<Longrightarrow> keeps (outside_only P) (listAllPagesUnsafe ID fetch)"
  by (auto simp: keeps_def listAllPagesUnsafe_def outside.R_refl split: option.splits prod.splits outcome.splits
      dest!: page_loop_outside [of _ _ _ _ _ P])

lemma keeps_listAll [keeps_intros]:
  "keeps (outside_only read_only) (listAllLBInstancesPages api c rid)"
  "keeps (outside_only read_only) (listAllIPPages api c q)"
  by (auto simp: listAllLBInstancesPages_def listAllIPPages_def fetchInstances_def fetchIPs_def Let_def
      intro!: keeps_listAllPages keeps_intros)

section \<open>The contract of a paged listing\<close>

text \<open>
  What the page loop relies on: while what is listed is not changed by reading it, page \<open>p\<close> returns
  \<open>chunk p\<close> of it with a count, the chunks up to the last page make up the whole listing, no page before
  the last stops the loop, and the last one does.
\<close>

locale page_source =
  fixes fetch :: "int \<Rightarrow> ('s, int \<times> 'e list) go"
    and view :: "'s \<Rightarrow> 'v"
    and listing :: "'v \<Rightarrow> 'e list"
    and chunk :: "'e list \<Rightarrow> nat \<Rightarrow> 'e list"
    and total :: "'e list \<Rightarrow> nat \<Rightarrow> int"
    and pages :: "'e list \<Rightarrow> nat"
  assumes fetch_page: "1 \<le> p \<Longrightarrow> p \<le> pages (listing (view s)) \<Longrightarrow>
      \<exists>t. fetch (int p) s = (Ret (total (listing (view s)) p, chunk (listing (view s)) p), t) \<and> view t = view s"
    and pages_pos: "1 \<le> pages xs"
    and cover: "concat (map (chunk xs) [1..<Suc (pages xs)]) = xs"
    and more: "1 \<le> p \<Longrightarrow> p < pages xs \<Longrightarrow>
      chunk xs p \<noteq> [] \<and> int (length (concat (map (chunk xs) [1..<Suc p]))) < total xs p"
    and stop: "chunk xs (pages xs) = [] \<or> total xs (pages xs) \<le> int (length xs)"
begin

lemma page_loop_from:
  assumes "1 \<le> p" "p \<le> pages (listing (view s))"
  shows "\<exists>t. page_loop fetch (int p) (concat (map (chunk (listing (view s))) [1..<p])) s = Some (Ret (listing (view s)), t)
    \<and> view t = view s"
  using assms
proof (induction "pages (listing (view s)) - p" arbitrary: p s)
  case 0
  then have p: "p = pages (listing (view s))" by simp
  obtain t where t: "fetch (int p) s = (Ret (total (listing (view s)) p, chunk (listing (view s)) p), t)" "view t = view s"
    using fetch_page [OF 0(2,3)] by blast
  have "concat (map (chunk (listing (view s))) [1..<p]) @ chunk (listing (view s)) p = listing (view s)"
    using cover [of "listing (view s)"] pages_pos [of "listing (view s)"] p by simp
  moreover from arg_cong [OF this, of length]
  have "length (concat (map (chunk (listing (view s))) [1..<p])) + length (chunk (listing (view s)) p) = length (listing (view s))"
    by simp
  ultimately show ?case using t stop [of "listing (view s)"] p
    by (subst page_loop.simps) auto
next
  case (Suc n)
  obtain t where t: "fetch (int p) s = (Ret (total (listing (view s)) p, chunk (listing (view s)) p), t)" "view t = view s"
    using fetch_page [OF Suc.prems] by blast
  let ?A = "concat (map (chunk (listing (view s))) [1..<p])"
  have ch: "concat (map (chunk (listing (view s))) [1..<Suc p]) = ?A @ chunk (listing (view s)) p"
    using Suc.prems by simp
  have lt: "p < pages (listing (view s))" using Suc.hyps(2) by simp
  have "page_loop fetch (int p) ?A s = page_loop fetch (int p + 1) (?A @ chunk (listing (view s)) p) t"
    using t more [OF Suc.prems(1) lt, unfolded ch] by (subst page_loop.simps) auto
  then have step: "page_loop fetch (int p) ?A s
      = page_loop fetch (int (Suc p)) (concat (map (chunk (listing (view t))) [1..<Suc p])) t"
    by (simp only: ch t(2) of_nat_Suc add.commute)
  have "n = pages (listing (view t)) - Suc p" "Suc p \<le> pages (listing (view t))"
    using Suc.hyps(2) t(2) by simp_all
  then show ?case using Suc.hyps(1) [of t "Suc p"] step t(2) by simp
qed

lemma page_loop_all: "\<exists>t. page_loop fetch 1 [] s = Some (Ret (listing (view s)), t) \<and> view t = view s"
  using page_loop_from [of 1 s] pages_pos by simp

lemma listAllPages_all:
  "\<exists>t. listAllPagesUnsafe ID fetch s = (Ret (dedup_loop ID [] 0 (listing (view s))), t) \<and> view t = view s"
  using page_loop_all [of s] by (auto simp: listAllPagesUnsafe_def)

end

text \<open>
  Pages of a fixed size with the exact count, which is what CloudStack documents for \<open>page\<close> and
  \<open>pagesize\<close>, satisfy that contract.
\<close>

definition slice :: "nat \<Rightarrow> 'e list \<Rightarrow> nat \<Rightarrow> 'e list" where
  "slice k xs p = take k (drop ((p - 1) * k) xs)"

lemma concat_slices: "concat (map (slice k xs) [1..<Suc n]) = take (n * k) xs"
proof (induction n)
  case (Suc n)
  have "[1..<Suc (Suc n)] = [1..<Suc n] @ [Suc n]"
    by simp
  then have "concat (map (slice k xs) [1..<Suc (Suc n)]) = take (n * k) xs @ take k (drop (n * k) xs)"
    using Suc by (simp only: map_append concat_append) (simp add: slice_def)
  also have "\<dots> = take (Suc n * k) xs"
    by (metis take_add add.commute mult_Suc)
  finally show ?case .
qed simp

lemma slices_page_source:
  assumes kp: "0 < k"
    and fetch_slice: "\<And>p s. 1 \<le> p \<Longrightarrow> \<exists>t. fetch (int p) s
      = (Ret (int (length (listing (view s))), slice k (listing (view s)) p), t) \<and> view t = view s"
  shows "page_source fetch view listing (slice k) (\<lambda>xs _. int (length xs))
    (\<lambda>xs. Suc ((length xs - 1) div k))"
proof (unfold_locales, goal_cases)
  case (1 p s)
  then show ?case using fetch_slice by blast
next
  case (3 xs)
  have "length xs - 1 < k + (length xs - 1) div k * k"
    by (rule dividend_less_div_times [OF kp])
  then have "length xs \<le> Suc ((length xs - 1) div k) * k"
    by simp
  then show ?case by (simp only: concat_slices take_all)
next
  case (4 p xs)
  then have "p * k \<le> length xs - 1"
    using kp by (simp add: less_eq_div_iff_mult_less_eq less_Suc_eq_le)
  moreover have "0 < p * k" using 4 kp by simp
  ultimately have "p * k < length xs" by linarith
  moreover then have "(p - 1) * k < length xs"
    by (meson diff_le_self le_less_trans mult_le_mono1)
  moreover have "length (take (p * k) xs) < length xs"
    using calculation(1) by simp
  ultimately show ?case
    unfolding concat_slices using kp by (simp only: of_nat_less_iff) (simp add: slice_def)
qed auto

text \<open>
  The instance listing of the fake server satisfies the contract with a single page: the first page holds
  everything with the exact count.
\<close>

lemma fake_fetchInstances:
  "\<exists>t. fetchInstances fakeAPI c rid 1 s
      = (Ret (int (length (get_list (srv_vms (world s)) rid)), get_list (srv_vms (world s)) rid), t)
    \<and> srv_vms (world t) = srv_vms (world s)"
proof -
  have "Atoi (Itoa 1) = 1" by code_simp
  then show ?thesis
    by (simp add: fetchInstances_def io_def fakeAPI_def rpc_def ServeHTTP_dispatch dispatch_def
        serve_listLoadBalancerRuleInstances_def Let_def)
qed

interpretation fake_instances: page_source "fetchInstances fakeAPI c rid" "\<lambda>s. srv_vms (world s)"
  "\<lambda>v. get_list v rid" "\<lambda>xs p. xs" "\<lambda>xs p. int (length xs)" "\<lambda>xs. 1"
proof (unfold_locales, goal_cases)
  case (1 p s)
  then have "p = 1" by simp
  then show ?case using fake_fetchInstances [of c rid s] by simp
qed auto

section \<open>Correctness\<close>

text \<open>
  C36: against a server that pages a listing in slices with the exact count, the page loop ends and returns
  every listed address exactly once by ID, and only listed addresses.
\<close>

theorem listAllIPPages_complete:
  assumes "\<And>p w. 1 \<le> p \<Longrightarrow> api_listPublicIpAddresses api c (q\<lparr>q_Page := int p, q_Pagesize := 50\<rparr>) w
    = (Inr (int (length ips), slice 50 ips p), w)"
  shows "\<exists>r t. listAllIPPages api c q s = (Ret r, t) \<and> world t = world s
    \<and> distinct (map pip_Id r) \<and> pip_Id ` set r = pip_Id ` set ips \<and> set r \<subseteq> set ips"
proof -
  have "page_source (fetchIPs api c q) world (\<lambda>_. ips) (slice 50) (\<lambda>xs _. int (length xs))
      (\<lambda>xs. Suc ((length xs - 1) div 50))"
    by (rule slices_page_source) (use assms in \<open>auto simp: fetchIPs_def io_def\<close>)
  from page_source.listAllPages_all [OF this, of pip_Id s] show ?thesis
    by (auto simp: listAllIPPages_def dedup_ids dest: dedup_ids(3) [THEN subsetD])
qed

theorem listAllIPPages_complete_witness:
  "let c = \<lparr>cl_APIURL = ''http://cs'', cl_APIKey = ''a'', cl_SecretKey = ''b'', cl_Verify = True\<rparr>;
       ip = (\<lambda>i. \<lparr>pip_Id = Itoa i, pip_Ipaddress = ''10.0.0.1'', pip_Networkid = ''net1'', pip_Tags = []\<rparr>);
       ips = map ip [1..70];
       api = offlineAPI\<lparr>api_listPublicIpAddresses :=
         (\<lambda>_ q w. (Inr (int (length ips), slice 50 ips (nat (q_Page q))), w))\<rparr>
   in \<exists>r t. listAllIPPages api c newIPQuery \<lparr>world = (), trace = []\<rparr> = (Ret r, t)
        \<and> pip_Id ` set r = Itoa ` {1..70}"
proof -
  let ?c = "\<lparr>cl_APIURL = ''http://cs'', cl_APIKey = ''a'', cl_SecretKey = ''b'', cl_Verify = True\<rparr>"
  let ?ips = "map (\<lambda>i. \<lparr>pip_Id = Itoa i, pip_Ipaddress = ''10.0.0.1'', pip_Networkid = ''net1'', pip_Tags = []\<rparr>) [1..70]"
  let ?api = "offlineAPI\<lparr>api_listPublicIpAddresses :=
         (\<lambda>_ q w. (Inr (int (length ?ips), slice 50 ?ips (nat (q_Page q))), w))\<rparr> :: unit api"
  have "\<exists>r t. listAllIPPages ?api ?c newIPQuery \<lparr>world = (), trace = []\<rparr> = (Ret r, t) \<and> world t = ()
    \<and> distinct (map pip_Id r) \<and> pip_Id ` set r = pip_Id ` set ?ips \<and> set r \<subseteq> set ?ips"
    using listAllIPPages_complete [of ?api ?c newIPQuery ?ips "\<lparr>world = (), trace = []\<rparr>"] by simp
  then show ?thesis by (force simp: Let_def image_image)
qed

end
