(* ===== verification/Nodes.thy ===== *)
theory Nodes
  imports Helpers "HOL-Library.Word"
begin

text \<open>
  \<open>cloudstack/nodes.go\<close>: the registry of cluster nodes and of the nodes that back each service. The
  registry maps node names to the CloudStack machine found for them; it is updated from node lists and
  from endpoint events, and queried for the nodes of a service. Its revision is a 64-bit counter.
\<close>

section \<open>State\<close>

record nodeInfo =
  ni_name :: string
  vmID :: string
  networkID :: string
  hostName :: string
  ni_projectID :: string
  environmentID :: string
  filterValue :: string
  ni_revision :: "64 word"

record nodeRegistry =
  nodes :: "(string \<times> nodeInfo) list"
  svcNodes :: "(serviceKey \<times> string list) list"
  revision :: "64 word"

record 'w nsys = "'w sys" +
  registry :: nodeRegistry

definition newNodeRegistry :: nodeRegistry where
  "newNodeRegistry = \<lparr>nodes = [], svcNodes = [], revision = 0\<rparr>"

section \<open>Queries\<close>

definition nodeInfoNames :: "nodeInfo list \<Rightarrow> string" where
  "nodeInfoNames ns = Join (map ni_name ns) '',''"

definition nodesContainingService :: "nodeRegistry \<Rightarrow> serviceKey \<Rightarrow> nodeInfo list" where
  "nodesContainingService r svcKey =
    (case map_of (svcNodes r) svcKey of
       None \<Rightarrow> []
     | Some nodeSet \<Rightarrow> List.map_filter (\<lambda>nodeName. map_of (nodes r) nodeName) nodeSet)"

definition serves :: "CSCloud \<Rightarrow> service \<Rightarrow> nodeInfo \<Rightarrow> bool" where
  "serves cs svc nInfo =
    (let gl = Global (config cs);
         filterVal = (if ServiceFilterLabel gl \<noteq> []
           then str_or_empty (getLabelOrAnnotation (svc_meta svc) (ServiceFilterLabel gl)) else []);
         environment = environmentForMeta cs (svc_meta svc);
         project = (case projectForMeta cs (svc_meta svc) environment of Inl _ \<Rightarrow> [] | Inr p \<Rightarrow> p)
     in if environmentID nInfo \<noteq> environment then False
        else if filterVal \<noteq> [] \<and> filterValue nInfo \<noteq> filterVal then False
        else if project \<noteq> [] \<and> ni_projectID nInfo \<noteq> project then False
        else True)"

definition nodesForService :: "CSCloud \<Rightarrow> nodeRegistry \<Rightarrow> service option \<Rightarrow> error + nodeInfo list" where
  "nodesForService cs r svc = (case svc of
      None \<Rightarrow> Inl (Errorf ''service cannot be nil'' [])
    | Some svc \<Rightarrow>
        (let ns = filter (serves cs svc) (map snd (nodes r))
         in if length ns = 0
            then Inl (Errorf ''no nodes available to add to service %s/%s'' [svc_Namespace svc, svc_Name svc])
            else Inr ns))"

text \<open>Host IDs in order, the sorted set of networks, and the project of the last node.\<close>

definition idsForNodes :: "nodeInfo list \<Rightarrow> string list \<times> string list \<times> string" where
  "idsForNodes ns =
    (map vmID ns, sort (remdups (map networkID ns)), fold (\<lambda>nInfo projectID. ni_projectID nInfo) ns [])"

definition idsForService ::
  "CSCloud \<Rightarrow> nodeRegistry \<Rightarrow> service option \<Rightarrow> error + string list \<times> string list \<times> string" where
  "idsForService cs r svc = (case nodesForService cs r svc of
      Inl e \<Rightarrow> Inl e
    | Inr ns \<Rightarrow> Inr (idsForNodes ns))"

section \<open>Endpoint events\<close>

definition updateEndpointsNodes :: "endpoints \<Rightarrow> nodeRegistry \<Rightarrow> nodeRegistry" where
  "updateEndpointsNodes ep r =
    (let key = \<lparr>namespace = om_Namespace (ep_meta ep), name = om_Name (ep_meta ep)\<rparr>;
         nodeSet = fold (\<lambda>subset ns. fold (\<lambda>addr ns. case addr of
             None \<Rightarrow> ns
           | Some n \<Rightarrow> List.insert n ns) (es_Addresses subset) ns) (ep_Subsets ep) []
     in r\<lparr>svcNodes := AList.update key nodeSet (svcNodes r)\<rparr>)"

definition deleteEndpointsNodes :: "endpoints \<Rightarrow> nodeRegistry \<Rightarrow> nodeRegistry" where
  "deleteEndpointsNodes ep r =
    (let key = \<lparr>namespace = om_Namespace (ep_meta ep), name = om_Name (ep_meta ep)\<rparr>
     in r\<lparr>svcNodes := AList.delete key (svcNodes r)\<rparr>)"

text \<open>The objects an informer hands to the event handlers, by dynamic type.\<close>

datatype informerObj = EndpointsObj endpoints | DeletedFinalStateUnknown informerObj | OtherObj

datatype informerEvent = AddFunc informerObj | UpdateFunc informerObj informerObj | DeleteFunc informerObj

fun handleEndpoints :: "informerEvent \<Rightarrow> nodeRegistry \<Rightarrow> nodeRegistry" where
  "handleEndpoints (AddFunc obj) r =
    (case obj of EndpointsObj ep \<Rightarrow> updateEndpointsNodes ep r | _ \<Rightarrow> r)"
| "handleEndpoints (UpdateFunc _ obj) r =
    (case obj of EndpointsObj ep \<Rightarrow> updateEndpointsNodes ep r | _ \<Rightarrow> r)"
| "handleEndpoints (DeleteFunc obj) r =
    (case obj of
       EndpointsObj ep \<Rightarrow> deleteEndpointsNodes ep r
     | DeletedFinalStateUnknown (EndpointsObj ep) \<Rightarrow> deleteEndpointsNodes ep r
     | _ \<Rightarrow> r)"

section \<open>Node updates\<close>

definition externalNIC :: "CSCloud \<Rightarrow> virtualMachine \<Rightarrow> error + nic" where
  "externalNIC cs instance_vm =
    (if length (vm_Nic instance_vm) = 0 then Inl (Errorf ''instance does not have any nics'' [])
     else
       let externalIndex = ExternalIPIndex (Global (config cs))
       in if externalIndex \<ge> 0 \<and> externalIndex < int (length (vm_Nic instance_vm))
          then Inr (vm_Nic instance_vm ! nat externalIndex)
          else Inr (vm_Nic instance_vm ! 0))"

text \<open>
  \<open>updateLabels\<close> assigns the fields of the node in place, also those before an error; the error of
  \<open>projectForMeta\<close> comes with an empty project.
\<close>

definition updateLabels :: "CSCloud \<Rightarrow> kubeNode \<Rightarrow> nodeInfo \<Rightarrow> nodeInfo \<times> error option" where
  "updateLabels cs node n =
    (let gl = Global (config cs);
         n1 = n\<lparr>environmentID := environmentForMeta cs (kn_meta node)\<rparr>;
         n2 = (if NodeFilterLabel gl \<noteq> []
           then n1\<lparr>filterValue := str_or_empty (getLabelOrAnnotation (kn_meta node) (NodeFilterLabel gl))\<rparr>
           else n1)
     in case projectForMeta cs (kn_meta node) (environmentID n2) of
          Inl e \<Rightarrow> (n2\<lparr>ni_projectID := []\<rparr>,
            Some (Wrapf ''unable to retrieve projectID for node %q in environment %q: %v''
              [om_Name (kn_meta node), environmentID n2] e))
        | Inr p \<Rightarrow>
            (let n3 = n2\<lparr>ni_projectID := p, hostName := om_Name (kn_meta node)\<rparr>
             in (case getLabelOrAnnotation (kn_meta node) (NodeNameLabel gl) of
                   Some nm \<Rightarrow> (n3\<lparr>hostName := nm\<rparr>, None)
                 | None \<Rightarrow> (n3, None))))"

definition newNodeInfo ::
  "'w api \<Rightarrow> CSCloud \<Rightarrow> kubeNode \<Rightarrow> (('w, 'x) sys_scheme, nodeInfo option) go" where
  "newNodeInfo api cs node =
    (let nInfo0 = \<lparr>ni_name = om_Name (kn_meta node), vmID = [], networkID = [], hostName = [], ni_projectID = [],
           environmentID = [], filterValue = [], ni_revision = 0\<rparr>
     in case updateLabels cs node nInfo0 of
          (_, Some e) \<Rightarrow> throw e
        | (nInfo, None) \<Rightarrow>
            (case env_manager (environmentOf cs (environmentID nInfo)) of
               None \<Rightarrow> throw (Errorf ''unable to retrieve cloudstack manager for environment %q'' [environmentID nInfo])
             | Some manager \<Rightarrow>
                 bind (attempt (virtualMachineByName api manager (hostName nInfo) (ni_projectID nInfo))) (\<lambda>r.
                   case r of
                     Inl e \<Rightarrow> if e \<noteq> ErrVMNotFound then throw e else ret None
                   | Inr vm \<Rightarrow>
                       bind (lift_sum (externalNIC cs vm)) (\<lambda>nic.
                         ret (Some (nInfo\<lparr>vmID := vm_Id vm, networkID := nic_Networkid nic\<rparr>))))))"

definition nodeNames :: "kubeNode list \<Rightarrow> string" where
  "nodeNames ns = Join (map (\<lambda>n. om_Name (kn_meta n)) ns) '',''"

definition setNode :: "string \<Rightarrow> nodeInfo \<Rightarrow> nodeRegistry \<Rightarrow> nodeRegistry" where
  "setNode k n r = r\<lparr>nodes := AList.update k n (nodes r)\<rparr>"

text \<open>The body of the loop of \<open>updateNodes\<close> for one node.\<close>

definition updateNode ::
  "'w api \<Rightarrow> CSCloud \<Rightarrow> kubeNode \<Rightarrow> (('w, 'x) nsys_scheme, unit) go" where
  "updateNode api cs n =
    (let nm = om_Name (kn_meta n) in
     bind (gets registry) (\<lambda>r.
       case map_of (nodes r) nm of
         Some nInfo \<Rightarrow>
           (case updateLabels cs n nInfo of (nInfo', e) \<Rightarrow>
              bind (modify (registry_update (setNode nm nInfo'))) (\<lambda>_.
                case e of Some err \<Rightarrow> throw err | None \<Rightarrow> ret ()))
       | None \<Rightarrow>
           bind (newNodeInfo api cs n) (\<lambda>found. case found of
              None \<Rightarrow> ret ()
            | Some nInfo \<Rightarrow> modify (registry_update (setNode nm (nInfo\<lparr>ni_revision := revision r\<rparr>))))))"

definition removeUnvisited :: "string list \<Rightarrow> nodeRegistry \<Rightarrow> nodeRegistry" where
  "removeUnvisited visitedNodes r =
    (let toRemove = filter (\<lambda>k. k \<notin> set visitedNodes) (map fst (nodes r))
     in r\<lparr>nodes := fold AList.delete toRemove (nodes r)\<rparr>)"

definition updateNodes ::
  "'w api \<Rightarrow> CSCloud \<Rightarrow> kubeNode list \<Rightarrow> (('w, 'x) nsys_scheme, unit) go" where
  "updateNodes api cs ns =
    (if length ns = 0 then throw (Errorf ''no nodes available to add to load balancer'' [])
     else
       bind (modify (registry_update (revision_update (\<lambda>v. v + 1)))) (\<lambda>_.
       bind (foreach ns (updateNode api cs)) (\<lambda>_.
       bind (modify (registry_update (removeUnvisited (map (\<lambda>n. om_Name (kn_meta n)) ns)))) (\<lambda>_.
       bind (gets registry) (\<lambda>r.
         if length (nodes r) = 0
         then throw (Errorf ''unable to map kubernetes nodes to cloudstack instances for nodes: %v'' [nodeNames ns])
         else ret ())))))"

section \<open>Lemmas\<close>

definition reg_wf :: "nodeRegistry \<Rightarrow> bool" where
  "reg_wf r \<longleftrightarrow> distinct (map fst (nodes r)) \<and> distinct (map fst (svcNodes r))
     \<and> (\<forall>k n. map_of (nodes r) k = Some n \<longrightarrow> ni_name n = k)
     \<and> (\<forall>k ns. map_of (svcNodes r) k = Some ns \<longrightarrow> distinct ns)"

lemma setNode_simps [simp]:
  "map_of (nodes (setNode k n r)) = (map_of (nodes r))(k \<mapsto> n)"
  "svcNodes (setNode k n r) = svcNodes r" "revision (setNode k n r) = revision r"
  by (simp_all add: setNode_def update_conv')

lemma reg_wf_setNode: "reg_wf r \<Longrightarrow> ni_name n = k \<Longrightarrow> reg_wf (setNode k n r)"
  by (auto simp: reg_wf_def setNode_def distinct_update update_conv')

lemma updateLabels_frame:
  "updateLabels cs node n = (n', e) \<Longrightarrow> ni_name n' = ni_name n \<and> vmID n' = vmID n
    \<and> networkID n' = networkID n \<and> ni_revision n' = ni_revision n"
  by (auto simp: updateLabels_def Let_def split: sum.splits option.splits if_splits)

lemma outside_registry:
  "outside_only P s t \<Longrightarrow> registry (t :: ('w, 'x) nsys_scheme) = registry s"
  by (cases s; cases t) (auto simp: outside_only_def)

lemma keeps_virtualMachineByName [keeps_intros]:
  "keeps (outside_only read_only) (virtualMachineByName api m nm p)"
  by (auto simp: virtualMachineByName_def Let_def intro!: keeps_intros split: option.splits)

lemma keeps_newNodeInfo [keeps_intros]: "keeps (outside_only read_only) (newNodeInfo api cs node)"
  by (auto simp: newNodeInfo_def Let_def intro!: keeps_intros split: option.splits prod.splits sum.splits)

lemma newNodeInfo_name:
  "newNodeInfo api cs node s = (Ret (Some n), t) \<Longrightarrow> ni_name n = om_Name (kn_meta node)"
  by (auto simp: newNodeInfo_def Let_def go_simps throw_def ret_def lift_sum_def
      elim!: bind_RetE attempt_RetE dest!: updateLabels_frame split: option.splits prod.splits sum.splits if_splits)

text \<open>
  What handling the nodes named in \<open>S\<close> does to the registry: nothing else changes, known nodes stay, with
  the machine and revision they were registered with, and new nodes carry the current revision.
\<close>

definition node_frame :: "string set \<Rightarrow> nodeRegistry \<Rightarrow> nodeRegistry \<Rightarrow> bool" where
  "node_frame S r r' \<longleftrightarrow> (reg_wf r \<longrightarrow> reg_wf r') \<and> revision r' = revision r \<and> svcNodes r' = svcNodes r
     \<and> (\<forall>k. k \<notin> S \<longrightarrow> map_of (nodes r') k = map_of (nodes r) k)
     \<and> (\<forall>k n. map_of (nodes r) k = Some n \<longrightarrow> (\<exists>n'. map_of (nodes r') k = Some n'
          \<and> vmID n' = vmID n \<and> networkID n' = networkID n \<and> ni_revision n' = ni_revision n))
     \<and> (\<forall>k n'. map_of (nodes r) k = None \<and> map_of (nodes r') k = Some n' \<longrightarrow> ni_revision n' = revision r)"

definition nframe :: "string set \<Rightarrow> ('w, 'x) nsys_scheme \<Rightarrow> ('w, 'x) nsys_scheme \<Rightarrow> bool" where
  "nframe S s t \<longleftrightarrow> node_frame S (registry s) (registry t)"

lemma node_frame_refl: "node_frame S r r"
  by (auto simp: node_frame_def)

lemma node_frame_known_node:
  assumes "node_frame S r r'" "map_of (nodes r) k = Some n"
  obtains n' where "map_of (nodes r') k = Some n'"
    "vmID n' = vmID n" "networkID n' = networkID n" "ni_revision n' = ni_revision n"
  using assms unfolding node_frame_def by blast

lemma node_frame_trans:
  assumes f: "node_frame S r1 r2" "node_frame S r2 r3"
  shows "node_frame S r1 r3"
proof -
  have "\<exists>n'. map_of (nodes r3) k = Some n' \<and> vmID n' = vmID n \<and> networkID n' = networkID n
      \<and> ni_revision n' = ni_revision n" if n: "map_of (nodes r1) k = Some n" for k n
  proof -
    obtain n2 where n2: "map_of (nodes r2) k = Some n2"
      "vmID n2 = vmID n" "networkID n2 = networkID n" "ni_revision n2 = ni_revision n"
      by (rule node_frame_known_node [OF f(1) n])
    obtain n3 where "map_of (nodes r3) k = Some n3"
      "vmID n3 = vmID n2" "networkID n3 = networkID n2" "ni_revision n3 = ni_revision n2"
      by (rule node_frame_known_node [OF f(2) n2(1)])
    with n2 show ?thesis by simp
  qed
  moreover have "ni_revision n' = revision r1"
    if "map_of (nodes r1) k = None" "map_of (nodes r3) k = Some n'" for k n'
  proof (cases "map_of (nodes r2) k")
    case None
    with that f show ?thesis by (simp add: node_frame_def)
  next
    case (Some n2)
    with that(1) f(1) have "ni_revision n2 = revision r1" unfolding node_frame_def by blast
    with node_frame_known_node [OF f(2) Some] that(2) show ?thesis by force
  qed
  moreover have "reg_wf r1 \<longrightarrow> reg_wf r3" "revision r3 = revision r1" "svcNodes r3 = svcNodes r1"
    "\<forall>k. k \<notin> S \<longrightarrow> map_of (nodes r3) k = map_of (nodes r1) k"
    using f by (simp_all add: node_frame_def)
  ultimately show ?thesis unfolding node_frame_def by blast
qed

interpretation nodes_only: frame_relation "nframe S"
  by unfold_locales (auto simp: nframe_def intro: node_frame_refl node_frame_trans)

lemma keeps_nframe_outside: "keeps (outside_only P) m \<Longrightarrow> keeps (nframe S) m"
  by (auto simp: keeps_def nframe_def dest: outside_registry [symmetric] intro: node_frame_refl)
    (metis node_frame_refl outside_registry)

lemma node_frame_new:
  assumes "map_of (nodes r) k = None" "k \<in> S" "ni_name n = k" "ni_revision n = revision r"
  shows "node_frame S r (setNode k n r)"
  using assms by (auto simp: node_frame_def reg_wf_setNode)

lemma node_frame_known:
  assumes "map_of (nodes r) k = Some n0" "k \<in> S" "ni_name n = ni_name n0"
    "vmID n = vmID n0" "networkID n = networkID n0" "ni_revision n = ni_revision n0"
  shows "node_frame S r (setNode k n r)"
proof -
  have "reg_wf (setNode k n r)" if "reg_wf r"
    using that assms by (intro reg_wf_setNode) (auto simp: reg_wf_def)
  then show ?thesis using assms by (auto simp: node_frame_def)
qed

lemma keeps_updateNode:
  assumes "om_Name (kn_meta n) \<in> S"
  shows "keeps (nframe S) (updateNode api cs n)"
  unfolding keeps_def
proof
  fix s
  let ?k = "om_Name (kn_meta n)"
  show "nframe S s (snd (updateNode api cs n s))"
  proof (cases "map_of (nodes (registry s)) ?k")
    case (Some n0)
    obtain n' e where u: "updateLabels cs n n0 = (n', e)" by fastforce
    have "nframe S s (registry_update (setNode ?k n') s)"
      unfolding nframe_def using assms Some updateLabels_frame [OF u] by (auto intro: node_frame_known)
    then show ?thesis
      using Some u by (auto simp: updateNode_def Let_def go_simps split: option.splits)
  next
    case None
    obtain r t where n: "newNodeInfo api cs n s = (r, t)" by fastforce
    have same: "registry t = registry s"
      using keepsD [OF keeps_newNodeInfo n] by (rule outside_registry)
    show ?thesis
    proof (cases "\<exists>nInfo. r = Ret (Some nInfo)")
      case True
      then obtain nInfo where r: "r = Ret (Some nInfo)" by blast
      have "ni_name nInfo = ?k" using newNodeInfo_name n r by blast
      then have "node_frame S (registry s) (setNode ?k (nInfo\<lparr>ni_revision := revision (registry s)\<rparr>) (registry s))"
        using None assms by (intro node_frame_new) auto
      then show ?thesis
        using None n r same by (simp add: updateNode_def Let_def go_simps nframe_def)
    next
      case False
      then have "snd (updateNode api cs n s) = t"
        using None n by (cases r) (auto simp: updateNode_def Let_def go_simps ret_def split: option.splits)
      then show ?thesis using same by (simp add: nframe_def node_frame_refl)
    qed
  qed
qed

lemma removeUnvisited_simps [simp]:
  "map_of (nodes (removeUnvisited V r)) k = (if k \<in> set V then map_of (nodes r) k else None)"
  "svcNodes (removeUnvisited V r) = svcNodes r" "revision (removeUnvisited V r) = revision r"
  by (auto simp: removeUnvisited_def Let_def map_of_eq_None_iff)

lemma reg_wf_removeUnvisited: "reg_wf r \<Longrightarrow> reg_wf (removeUnvisited V r)"
  by (auto simp: reg_wf_def) (simp add: removeUnvisited_def Let_def)

lemma reg_wf_revision [simp]: "reg_wf (revision_update f r) = reg_wf r"
  by (simp add: reg_wf_def)

lemma updateEndpointsNodes_set:
  "\<exists>ns. svcNodes (updateEndpointsNodes ep r)
      = AList.update \<lparr>namespace = om_Namespace (ep_meta ep), name = om_Name (ep_meta ep)\<rparr> ns (svcNodes r)
    \<and> distinct ns \<and> set ns = {n. \<exists>sub \<in> set (ep_Subsets ep). Some n \<in> set (es_Addresses sub)}"
proof -
  let ?ins = "\<lambda>addr ns :: string list. case addr of None \<Rightarrow> ns | Some n \<Rightarrow> List.insert n ns"
  have inner: "distinct ns \<Longrightarrow> distinct (fold ?ins as ns) \<and> set (fold ?ins as ns) = set ns \<union> {n. Some n \<in> set as}" for as ns
    by (induction as arbitrary: ns) (auto split: option.splits)
  have "distinct ns \<Longrightarrow> distinct (fold (\<lambda>sub. fold ?ins (es_Addresses sub)) subs ns)
      \<and> set (fold (\<lambda>sub. fold ?ins (es_Addresses sub)) subs ns)
        = set ns \<union> {n. \<exists>sub \<in> set subs. Some n \<in> set (es_Addresses sub)}" for subs :: "endpointSubset list" and ns
    by (induction subs arbitrary: ns) (auto simp: inner)
  from this [of "[]" "ep_Subsets ep"] show ?thesis
    by (intro exI [of _ "fold (\<lambda>sub. fold ?ins (es_Addresses sub)) (ep_Subsets ep) []"])
      (simp add: updateEndpointsNodes_def Let_def)
qed

lemma updateEndpointsNodes_nodes [simp]: "nodes (updateEndpointsNodes ep r) = nodes r"
  by (simp add: updateEndpointsNodes_def Let_def)

lemma reg_wf_updateEndpoints: "reg_wf r \<Longrightarrow> reg_wf (updateEndpointsNodes ep r)"
  using updateEndpointsNodes_set [of ep r]
  by (auto simp: reg_wf_def distinct_update update_conv' split: if_splits)

lemma reg_wf_deleteEndpoints: "reg_wf r \<Longrightarrow> reg_wf (deleteEndpointsNodes ep r)"
  by (auto simp: reg_wf_def deleteEndpointsNodes_def Let_def distinct_delete delete_conv' split: if_splits)

lemma reg_wf_handleEndpoints: "reg_wf r \<Longrightarrow> reg_wf (handleEndpoints ev r)"
  by (cases ev) (auto simp: reg_wf_updateEndpoints reg_wf_deleteEndpoints split: informerObj.splits)

text \<open>
  All ways \<open>updateNodes\<close> ends: refused at once, stopped by a node with all known nodes kept, or run
  through, with exactly the listed nodes left.
\<close>

lemma updateNodes_cases:
  assumes u: "updateNodes api cs ns s = (res, t)"
  obtains (refused) "ns = []" "t = s" "\<exists>e. res = Err e"
  | (stopped) "ns \<noteq> []" "\<forall>u. res \<noteq> Ret u"
      "node_frame ((\<lambda>n. om_Name (kn_meta n)) ` set ns) (revision_update (\<lambda>v. v + 1) (registry s)) (registry t)"
  | (full) r' where "ns \<noteq> []" "res = (if nodes (registry t) = [] then Err (Errorf
        ''unable to map kubernetes nodes to cloudstack instances for nodes: %v'' [nodeNames ns]) else Ret ())"
      "node_frame ((\<lambda>n. om_Name (kn_meta n)) ` set ns) (revision_update (\<lambda>v. v + 1) (registry s)) r'"
      "registry t = removeUnvisited (map (\<lambda>n. om_Name (kn_meta n)) ns) r'"
proof (cases "ns = []")
  case True
  with u show ?thesis by (intro refused) (auto simp: updateNodes_def throw_def)
next
  case False
  let ?s1 = "registry_update (revision_update (\<lambda>v. v + 1)) s"
  let ?S = "(\<lambda>n. om_Name (kn_meta n)) ` set ns"
  obtain r1 t1 where f: "foreach ns (updateNode api cs) ?s1 = (r1, t1)" by fastforce
  have fr: "node_frame ?S (registry ?s1) (registry t1)"
    using keepsD [OF nodes_only.keeps_foreach f] keeps_updateNode by (metis image_eqI nframe_def)
  show ?thesis
  proof (cases r1)
    case (Ret x)
    show ?thesis
      by (rule full [OF False, of "registry t1"]) (use u f fr Ret False in
        \<open>auto simp: updateNodes_def go_simps split: if_splits\<close>)
  qed (use u f fr False stopped in \<open>auto simp: updateNodes_def go_simps\<close>)
qed

section \<open>The registry as a shared component\<close>

text \<open>
  The controller and the informer change the registry from different goroutines, each change under the
  registry's own locks. Every reachable registry is well formed.
\<close>

inductive registry_step :: "'w api \<Rightarrow> CSCloud \<Rightarrow> ('w, 'x) nsys_scheme \<Rightarrow> ('w, 'x) nsys_scheme \<Rightarrow> bool"
  for api cs where
  node_update: "updateNodes api cs ns s = (res, t) \<Longrightarrow> registry_step api cs s t"
| endpoint_event: "registry_step api cs s (registry_update (handleEndpoints ev) s)"
| elsewhere: "registry t = registry s \<Longrightarrow> registry_step api cs s t"

definition registry_init :: "('w, 'x) nsys_scheme \<Rightarrow> bool" where
  "registry_init s \<longleftrightarrow> registry s = newNodeRegistry"

lemma reg_wf_updateNodes:
  assumes "reg_wf (registry s)" "updateNodes api cs ns s = (res, t)"
  shows "reg_wf (registry t)"
  using assms(2)
proof (cases rule: updateNodes_cases)
  case stopped
  with assms(1) show ?thesis by (simp add: node_frame_def)
next
  case (full r')
  with assms(1) show ?thesis by (simp add: node_frame_def reg_wf_removeUnvisited)
qed (use assms in simp)

interpretation registry_sys: invariant_system registry_init "registry_step api cs" "\<lambda>s. reg_wf (registry s)"
proof unfold_locales
  show "registry_init s \<Longrightarrow> reg_wf (registry s)" for s :: "('a, 'b) nsys_scheme"
    by (simp add: registry_init_def newNodeRegistry_def reg_wf_def)
  show "registry_step api cs s t \<Longrightarrow> reg_wf (registry s) \<Longrightarrow> reg_wf (registry t)" for s t :: "('a, 'b) nsys_scheme"
    by (induction rule: registry_step.induct) (auto intro: reg_wf_updateNodes reg_wf_handleEndpoints)
qed

section \<open>Correctness\<close>

definition sampleNode :: nodeInfo where
  "sampleNode = \<lparr>ni_name = ''n1'', vmID = ''vm1'', networkID = ''net1'', hostName = ''n1'', ni_projectID = ''p1'',
     environmentID = ''env1'', filterValue = [], ni_revision = 1\<rparr>"

text \<open>What one node of the list does to the registry, when it does not stop the update.\<close>

lemma updateNode_Ret:
  assumes run: "updateNode api cs n u = (Ret (), t)" and nm: "nm = om_Name (kn_meta n)"
  shows "revision (registry t) = revision (registry u) \<and> svcNodes (registry t) = svcNodes (registry u)
    \<and> (case map_of (nodes (registry u)) nm of
        Some old \<Rightarrow> map_of (nodes (registry t)) = (map_of (nodes (registry u)))(nm \<mapsto> fst (updateLabels cs n old))
      | None \<Rightarrow> \<exists>found v. newNodeInfo api cs n u = (Ret found, v) \<and> map_of (nodes (registry t))
          = (map_of (nodes (registry u)))(nm := map_option (\<lambda>x. x\<lparr>ni_revision := revision (registry u)\<rparr>) found))"
proof (cases "map_of (nodes (registry u)) nm")
  case (Some old)
  then show ?thesis
    using run nm by (auto simp: updateNode_def Let_def go_simps setNode_def update_conv' split: prod.splits option.splits)
next
  case None
  then obtain found v where f: "newNodeInfo api cs n u = (Ret found, v)"
    "(case found of None \<Rightarrow> ret () | Some nInfo \<Rightarrow>
        modify (registry_update (setNode nm (nInfo\<lparr>ni_revision := revision (registry u)\<rparr>)))) v = (Ret (), t)"
    using run nm by (auto simp: updateNode_def Let_def run_gets elim!: bind_RetE)
  have "registry v = registry u" using keepsD [OF keeps_newNodeInfo f(1)] by (rule outside_registry)
  with f None show ?thesis by (cases found) (auto simp: go_simps setNode_def update_conv' fun_upd_idem)
qed

lemma foreach_snoc: "foreach (xs @ [x]) f = bind (foreach xs f) (\<lambda>_. f x)"
  by (induction xs) (auto simp: bind_assoc)

text \<open>
  The loop over a list of nodes with different names: the value registered for each of them in the end. \<open>u\<close> is the state
  in which the loop comes to a node.
\<close>

lemma foreach_updateNode:
  assumes "foreach ns (updateNode api cs) s = (Ret (), t)" "distinct (map (\<lambda>n. om_Name (kn_meta n)) ns)"
  shows "revision (registry t) = revision (registry s) \<and> svcNodes (registry t) = svcNodes (registry s)
    \<and> (\<forall>k. k \<notin> (\<lambda>n. om_Name (kn_meta n)) ` set ns \<longrightarrow> map_of (nodes (registry t)) k = map_of (nodes (registry s)) k)
    \<and> (\<forall>i < length ns. let nm = om_Name (kn_meta (ns ! i)) in
        (case map_of (nodes (registry s)) nm of
          Some old \<Rightarrow> map_of (nodes (registry t)) nm = Some (fst (updateLabels cs (ns ! i) old))
        | None \<Rightarrow> \<exists>u found v. foreach (take i ns) (updateNode api cs) s = (Ret (), u)
            \<and> newNodeInfo api cs (ns ! i) u = (Ret found, v)
            \<and> map_of (nodes (registry t)) nm = map_option (\<lambda>x. x\<lparr>ni_revision := revision (registry s)\<rparr>) found))"
  using assms
proof (induction ns arbitrary: t rule: rev_induct)
  case Nil
  then show ?case by (simp add: ret_def)
next
  case (snoc x xs)
  let ?n = "\<lambda>n. om_Name (kn_meta n)"
  obtain u where u: "foreach xs (updateNode api cs) s = (Ret (), u)" and x: "updateNode api cs x u = (Ret (), t)"
    using snoc.prems(1) by (auto simp: foreach_snoc elim!: bind_RetE)
  have d: "distinct (map ?n xs)" "?n x \<notin> ?n ` set xs" using snoc.prems(2) by auto
  note IH = snoc.IH [OF u d(1)]
  note step = updateNode_Ret [OF x refl]
  have other: "map_of (nodes (registry t)) k = map_of (nodes (registry u)) k" if "k \<noteq> ?n x" for k
    using step that by (auto split: option.splits)
  have ux: "map_of (nodes (registry u)) (?n x) = map_of (nodes (registry s)) (?n x)" using IH d(2) by blast
  have nth: "?n (xs ! i) \<noteq> ?n x" if "i < length xs" for i using d(2) that by (metis image_eqI nth_mem)
  have "let nm = ?n ((xs @ [x]) ! i) in (case map_of (nodes (registry s)) nm of
          Some old \<Rightarrow> map_of (nodes (registry t)) nm = Some (fst (updateLabels cs ((xs @ [x]) ! i) old))
        | None \<Rightarrow> \<exists>u found v. foreach (take i (xs @ [x])) (updateNode api cs) s = (Ret (), u)
            \<and> newNodeInfo api cs ((xs @ [x]) ! i) u = (Ret found, v)
            \<and> map_of (nodes (registry t)) nm = map_option (\<lambda>x. x\<lparr>ni_revision := revision (registry s)\<rparr>) found)"
    if i: "i < length (xs @ [x])" for i
  proof (cases "i < length xs")
    case True
    then have eq: "(xs @ [x]) ! i = xs ! i" "take i (xs @ [x]) = take i xs" by (simp_all add: nth_append)
    show ?thesis unfolding Let_def eq other [OF nth [OF True]] using IH True by (simp add: Let_def)
  next
    case False
    then have "i = length xs" using i by simp
    then show ?thesis using step ux u IH by (auto simp: Let_def split: option.splits)
  qed
  moreover have "map_of (nodes (registry t)) k = map_of (nodes (registry s)) k" if "k \<notin> ?n ` set (xs @ [x])" for k
    using IH other [of k] that by auto
  ultimately show ?case using IH step by simp
qed

text \<open>
  C26: a successful \<open>updateNodes\<close> leaves exactly the listed nodes that have a machine. Nothing is registered under a name
  that is not listed. A listed node that was registered stays, with the machine, network and revision it was registered
  with and the labels it has now. A listed node that was not registered is registered exactly when looking up its machine,
  in the state in which the loop comes to it, found one, with what was found and the new revision of the registry. At least
  one node is left, and the endpoints are untouched.
\<close>

theorem updateNodes_registry:
  assumes wf: "reg_wf (registry s)" and names: "distinct (map (\<lambda>n. om_Name (kn_meta n)) ns)"
    and run: "updateNodes api cs ns s = (Ret (), t)"
  shows "reg_wf (registry t) \<and> nodes (registry t) \<noteq> [] \<and> revision (registry t) = revision (registry s) + 1
    \<and> svcNodes (registry t) = svcNodes (registry s)
    \<and> (\<forall>k. k \<notin> (\<lambda>n. om_Name (kn_meta n)) ` set ns \<longrightarrow> map_of (nodes (registry t)) k = None)
    \<and> (\<forall>i < length ns. let nm = om_Name (kn_meta (ns ! i)) in
        (case map_of (nodes (registry s)) nm of
          Some old \<Rightarrow> \<exists>n. map_of (nodes (registry t)) nm = Some n \<and> n = fst (updateLabels cs (ns ! i) old)
            \<and> vmID n = vmID old \<and> networkID n = networkID old \<and> ni_revision n = ni_revision old
        | None \<Rightarrow> \<exists>u found v.
            foreach (take i ns) (updateNode api cs) (registry_update (revision_update (\<lambda>v. v + 1)) s) = (Ret (), u)
            \<and> newNodeInfo api cs (ns ! i) u = (Ret found, v)
            \<and> map_of (nodes (registry t)) nm = map_option (\<lambda>x. x\<lparr>ni_revision := revision (registry t)\<rparr>) found))"
proof -
  let ?s = "registry_update (revision_update (\<lambda>v. v + 1)) s" and ?names = "map (\<lambda>n. om_Name (kn_meta n)) ns"
  obtain t1 where f: "foreach ns (updateNode api cs) ?s = (Ret (), t1)" and t: "registry t = removeUnvisited ?names (registry t1)"
    and ne: "nodes (registry t) \<noteq> []"
    using run by (auto simp: updateNodes_def modify_def gets_def throw_def ret_def elim!: bind_RetE split: if_splits)
  note loop = foreach_updateNode [OF f names]
  have frame: "vmID (fst (updateLabels cs x old)) = vmID old \<and> networkID (fst (updateLabels cs x old)) = networkID old
      \<and> ni_revision (fst (updateLabels cs x old)) = ni_revision old" for x old
    using updateLabels_frame [of cs x old "fst (updateLabels cs x old)" "snd (updateLabels cs x old)"] by simp
  have nodes: "let nm = om_Name (kn_meta (ns ! i)) in
        (case map_of (nodes (registry s)) nm of
          Some old \<Rightarrow> \<exists>n. map_of (nodes (registry t)) nm = Some n \<and> n = fst (updateLabels cs (ns ! i) old)
            \<and> vmID n = vmID old \<and> networkID n = networkID old \<and> ni_revision n = ni_revision old
        | None \<Rightarrow> \<exists>u found v. foreach (take i ns) (updateNode api cs) ?s = (Ret (), u)
            \<and> newNodeInfo api cs (ns ! i) u = (Ret found, v)
            \<and> map_of (nodes (registry t)) nm = map_option (\<lambda>x. x\<lparr>ni_revision := revision (registry t)\<rparr>) found)"
    if i: "i < length ns" for i
    using loop i frame by (auto simp: t Let_def split: option.splits)
  show ?thesis
    using reg_wf_updateNodes [OF wf run] ne loop nodes by (simp add: t)
qed

text \<open>Two nodes arrive at an empty registry; CloudStack knows both machines, and both are registered.\<close>

definition sampleKube :: "string \<Rightarrow> kubeNode" where
  "sampleKube nm = \<lparr>kn_meta = \<lparr>om_Name = nm, om_Namespace = [], om_Labels = None, om_Annotations = []\<rparr>, kn_ProviderID = []\<rparr>"

definition machinesAPI :: "unit api" where
  "machinesAPI = offlineAPI\<lparr>api_listVirtualMachines := (\<lambda>_ nm _ w. (Inr [\<lparr>vm_Id = ''vm-'' @ nm, vm_Name = nm,
     vm_Nic = [\<lparr>nic_Networkid = ''net1'', nic_Ipaddress = ''10.0.0.1''\<rparr>], vm_Hostname = [], vm_Publicip = [], vm_State = ''Running'',
     vm_Serviceofferingid = [], vm_Serviceofferingname = [], vm_Zonename = []\<rparr>], w))\<rparr>"

theorem updateNodes_registry_witness:
  "\<exists>t n. updateNodes machinesAPI sampleCloud [sampleKube ''n1'', sampleKube ''n2''] \<lparr>world = (), trace = [], registry = newNodeRegistry\<rparr> = (Ret (), t)
    \<and> map_of (nodes (registry t)) ''n2'' = Some n \<and> vmID n = ''vm-n2'' \<and> ni_revision n = 1"
proof -
  let ?ns = "[sampleKube ''n1'', sampleKube ''n2'']" and ?s = "\<lparr>world = (), trace = [], registry = newNodeRegistry\<rparr> :: unit nsys"
  have wf: "reg_wf (registry ?s)" by (simp add: reg_wf_def newNodeRegistry_def)
  have "fst (updateNodes machinesAPI sampleCloud ?ns ?s) = Ret ()" by code_simp
  then obtain t where t: "updateNodes machinesAPI sampleCloud ?ns ?s = (Ret (), t)" by (metis prod.collapse)
  have "case newNodeInfo machinesAPI sampleCloud (sampleKube ''n2'') u of (Ret (Some n), _) \<Rightarrow> vmID n = ''vm-n2'' | _ \<Rightarrow> False" for u :: "unit nsys"
    by (simp add: newNodeInfo_def virtualMachineByName_def updateLabels_def externalNIC_def environmentForMeta_def projectForMeta_def
      getLabelOrAnnotation_def labels_def environmentOf_def sample_defs offlineAPI_def sampleKube_def machinesAPI_def
      bind_def ret_def attempt_def io_defs Let_def)
  note found = this
  have "distinct (map (\<lambda>n. om_Name (kn_meta n)) ?ns)" by (simp add: sampleKube_def)
  note reg = updateNodes_registry [OF wf this t]
  have rev: "revision (registry t) = 1" using reg by (simp add: newNodeRegistry_def)
  have n2: "1 < length ?ns" "om_Name (kn_meta (?ns ! 1)) = ''n2''" "map_of (nodes (registry ?s)) ''n2'' = None"
    by (simp_all add: sampleKube_def newNodeRegistry_def)
  from reg n2(1) have "let nm = om_Name (kn_meta (?ns ! 1)) in
      (case map_of (nodes (registry ?s)) nm of
        Some old \<Rightarrow> \<exists>n. map_of (nodes (registry t)) nm = Some n \<and> n = fst (updateLabels sampleCloud (?ns ! 1) old)
          \<and> vmID n = vmID old \<and> networkID n = networkID old \<and> ni_revision n = ni_revision old
      | None \<Rightarrow> \<exists>u found v. foreach (take 1 ?ns) (updateNode machinesAPI sampleCloud) (registry_update (revision_update (\<lambda>v. v + 1)) ?s) = (Ret (), u)
          \<and> newNodeInfo machinesAPI sampleCloud (?ns ! 1) u = (Ret found, v)
          \<and> map_of (nodes (registry t)) nm = map_option (\<lambda>x. x\<lparr>ni_revision := revision (registry t)\<rparr>) found)"
    by blast
  then obtain u v :: "unit nsys" and res where "newNodeInfo machinesAPI sampleCloud (?ns ! 1) u = (Ret res, v)"
    "map_of (nodes (registry t)) ''n2'' = map_option (\<lambda>x. x\<lparr>ni_revision := revision (registry t)\<rparr>) res"
    unfolding Let_def n2(2,3) by (simp only: option.case) blast
  with found [of u] rev t show ?thesis by (cases res) auto
qed

text \<open>
  An \<open>updateNodes\<close> that fails, for whatever reason, drops no node that was registered, unless it ends
  with no node registered at all; the registry stays well formed.
\<close>

lemma updateNodes_error_keeps:
  assumes "reg_wf (registry s)" and "updateNodes api cs ns s = (Err e, t)" and "nodes (registry t) \<noteq> []"
  shows "reg_wf (registry t) \<and> dom (map_of (nodes (registry s))) \<subseteq> dom (map_of (nodes (registry t)))"
  using assms(2)
proof (cases rule: updateNodes_cases)
  case stopped
  then have "\<exists>n'. map_of (nodes (registry t)) k = Some n'" if "map_of (nodes (registry s)) k = Some n" for k n
    using that node_frame_known_node [OF stopped(3), of k n] by auto
  then show ?thesis using reg_wf_updateNodes [OF assms(1,2)] by (auto simp: dom_def)
qed (use assms reg_wf_updateNodes [OF assms(1,2)] in auto)

text \<open>
  C27: the nodes handed to a service are exactly the registered nodes of the service's environment that match its
  filter value and its project where it has them; the call fails exactly when there is none.
\<close>

theorem nodesForService_exact:
  assumes "reg_wf r"
  shows "case nodesForService cs r (Some svc) of
      Inl _ \<Rightarrow> \<not> (\<exists>k n. map_of (nodes r) k = Some n \<and> serves cs svc n)
    | Inr ns \<Rightarrow> ns \<noteq> [] \<and> distinct (map ni_name ns) \<and> set ns = {n. \<exists>k. map_of (nodes r) k = Some n
        \<and> environmentID n = environmentForMeta cs (svc_meta svc)
        \<and> (ServiceFilterLabel (Global (config cs)) = []
            \<or> getLabelOrAnnotation (svc_meta svc) (ServiceFilterLabel (Global (config cs))) \<in> {None, Some []}
            \<or> getLabelOrAnnotation (svc_meta svc) (ServiceFilterLabel (Global (config cs))) = Some (filterValue n))
        \<and> (case projectForMeta cs (svc_meta svc) (environmentForMeta cs (svc_meta svc)) of
             Inl _ \<Rightarrow> True | Inr p \<Rightarrow> p = [] \<or> ni_projectID n = p)}"
proof -
  have nd: "distinct (map fst (nodes r))" using assms by (simp add: reg_wf_def)
  have mem: "n \<in> set (map snd (nodes r)) \<longleftrightarrow> (\<exists>k. map_of (nodes r) k = Some n)" for n
    using nd by (force simp: map_of_eq_Some_iff)
  have "map ni_name (map snd (nodes r)) = map fst (nodes r)"
    using assms nd by (auto simp: reg_wf_def map_of_eq_Some_iff)
  then have dn: "distinct (map ni_name (filter (serves cs svc) (map snd (nodes r))))"
    using nd by (metis distinct_map_filter)
  have sv: "serves cs svc n \<longleftrightarrow> environmentID n = environmentForMeta cs (svc_meta svc)
        \<and> (ServiceFilterLabel (Global (config cs)) = []
            \<or> getLabelOrAnnotation (svc_meta svc) (ServiceFilterLabel (Global (config cs))) \<in> {None, Some []}
            \<or> getLabelOrAnnotation (svc_meta svc) (ServiceFilterLabel (Global (config cs))) = Some (filterValue n))
        \<and> (case projectForMeta cs (svc_meta svc) (environmentForMeta cs (svc_meta svc)) of
             Inl _ \<Rightarrow> True | Inr p \<Rightarrow> p = [] \<or> ni_projectID n = p)" for n
    by (auto simp: serves_def Let_def str_or_empty_def split: sum.splits option.splits if_splits)
  show ?thesis
  proof (cases "filter (serves cs svc) (map snd (nodes r)) = []")
    case True
    then have "\<not> serves cs svc n" if "map_of (nodes r) k = Some n" for k n
      using that mem unfolding filter_empty_conv by metis
    with True show ?thesis by (simp add: nodesForService_def Let_def)
  next
    case False
    then have "nodesForService cs r (Some svc) = Inr (filter (serves cs svc) (map snd (nodes r)))"
      by (simp add: nodesForService_def Let_def)
    moreover have "set (filter (serves cs svc) (map snd (nodes r))) = {n. \<exists>k. map_of (nodes r) k = Some n \<and> serves cs svc n}"
      unfolding set_filter by (simp only: mem) blast
    ultimately show ?thesis using False dn by (simp only: sum.case sv) simp
  qed
qed

theorem nodesForService_exact_witness:
  "let n1 = sampleNode;
       r = \<lparr>nodes = [(''n1'', n1), (''n2'', n1\<lparr>ni_name := ''n2'', ni_projectID := ''p2''\<rparr>)], svcNodes = [], revision = 1\<rparr>
   in nodesForService sampleCloud r (Some sampleService) = Inr [n1] \<and> distinct (map ni_name [n1])"
proof -
  let ?r = "\<lparr>nodes = [(''n1'', sampleNode), (''n2'', sampleNode\<lparr>ni_name := ''n2'', ni_projectID := ''p2''\<rparr>)], svcNodes = [], revision = 1\<rparr>"
  have wf: "reg_wf ?r" by (simp add: reg_wf_def sampleNode_def)
  have "nodesForService sampleCloud ?r (Some sampleService) = Inr [sampleNode]"
    by (simp add: nodesForService_def serves_def Let_def sampleNode_def)
  with nodesForService_exact [OF wf, of sampleCloud sampleService] show ?thesis
    by (simp only: Let_def sum.case)
qed

text \<open>
  The networks reported for a service are its nodes' networks, sorted and without repetition, at least one, and
  the project is the service's own project whenever it has one.
\<close>

lemma idsForService_ids:
  assumes "idsForService cs r (Some svc) = Inr (hostIDs, networkIDs, projectID)"
  shows "\<exists>ns. nodesForService cs r (Some svc) = Inr ns \<and> hostIDs = map vmID ns
    \<and> sorted networkIDs \<and> distinct networkIDs \<and> set networkIDs = networkID ` set ns \<and> networkIDs \<noteq> []
    \<and> projectID \<in> ni_projectID ` set ns
    \<and> (\<forall>p. projectForMeta cs (svc_meta svc) (environmentForMeta cs (svc_meta svc)) = Inr p \<and> p \<noteq> [] \<longrightarrow> projectID = p)"
proof -
  obtain ns where ns: "nodesForService cs r (Some svc) = Inr ns" "idsForNodes ns = (hostIDs, networkIDs, projectID)"
    using assms by (auto simp: idsForService_def split: sum.splits)
  have ne: "ns \<noteq> []" and sv: "\<forall>n \<in> set ns. serves cs svc n"
    using ns(1) by (auto simp: nodesForService_def Let_def split: if_splits)
  have last: "xs \<noteq> [] \<Longrightarrow> fold (\<lambda>nInfo projectID. ni_projectID nInfo) xs p = ni_projectID (last xs)" for xs p
    by (induction xs arbitrary: p) auto
  have pr: "projectID = ni_projectID (last ns)"
    using ns(2) last [OF ne, of "[]"] by (auto simp: idsForNodes_def)
  moreover have "ni_projectID (last ns) = p"
    if "projectForMeta cs (svc_meta svc) (environmentForMeta cs (svc_meta svc)) = Inr p" "p \<noteq> []" for p
    using sv ne that by (auto simp: serves_def Let_def split: if_splits dest!: bspec [OF _ last_in_set])
  moreover have "sort (remdups (map networkID ns)) \<noteq> []"
    using ne by (metis image_is_empty set_empty set_map set_remdups set_sort)
  ultimately show ?thesis
    using ns ne by (auto simp: idsForNodes_def)
qed

text \<open>
  After an endpoints object is added or updated, the nodes listed for its service are exactly the registered nodes
  that its addresses name; after it is deleted, directly or as a final-state tombstone, there is none; other services
  are not affected.
\<close>

lemma handleEndpoints_nodes:
  "ni_name ` set (nodesContainingService (handleEndpoints (AddFunc (EndpointsObj ep)) r) key)
     \<subseteq> ni_name ` snd ` set (nodes r)
   \<and> (key = \<lparr>namespace = om_Namespace (ep_meta ep), name = om_Name (ep_meta ep)\<rparr> \<longrightarrow>
       set (nodesContainingService (handleEndpoints (AddFunc (EndpointsObj ep)) r) key)
         = {n. \<exists>k sub. map_of (nodes r) k = Some n \<and> sub \<in> set (ep_Subsets ep) \<and> Some k \<in> set (es_Addresses sub)}
     \<and> handleEndpoints (UpdateFunc old (EndpointsObj ep)) r = handleEndpoints (AddFunc (EndpointsObj ep)) r
     \<and> nodesContainingService (handleEndpoints (DeleteFunc (EndpointsObj ep)) r) key = []
     \<and> nodesContainingService (handleEndpoints (DeleteFunc (DeletedFinalStateUnknown (EndpointsObj ep))) r) key = [])
   \<and> (key \<noteq> \<lparr>namespace = om_Namespace (ep_meta ep), name = om_Name (ep_meta ep)\<rparr> \<longrightarrow>
       nodesContainingService (handleEndpoints (AddFunc (EndpointsObj ep)) r) key = nodesContainingService r key
     \<and> nodesContainingService (handleEndpoints (DeleteFunc (EndpointsObj ep)) r) key = nodesContainingService r key)"
proof -
  let ?k = "\<lparr>namespace = om_Namespace (ep_meta ep), name = om_Name (ep_meta ep)\<rparr>"
  obtain ns where ns: "svcNodes (updateEndpointsNodes ep r) = AList.update ?k ns (svcNodes r)"
      "set ns = {n. \<exists>sub \<in> set (ep_Subsets ep). Some n \<in> set (es_Addresses sub)}"
    using updateEndpointsNodes_set [of ep r] by blast
  have sub: "ni_name ` set (nodesContainingService r' key) \<subseteq> ni_name ` snd ` set (nodes r')" for r'
    by (force simp: nodesContainingService_def map_filter_def dest: map_of_SomeD split: option.splits)
  have own: "set (nodesContainingService (updateEndpointsNodes ep r) ?k)
      = {n. \<exists>k sub. map_of (nodes r) k = Some n \<and> sub \<in> set (ep_Subsets ep) \<and> Some k \<in> set (es_Addresses sub)}"
    using ns by (force simp: nodesContainingService_def update_conv' map_filter_def)
  have del: "nodesContainingService (deleteEndpointsNodes ep r) ?k = []"
    by (simp add: nodesContainingService_def deleteEndpointsNodes_def delete_conv')
  have oth: "nodesContainingService (updateEndpointsNodes ep r) key = nodesContainingService r key
      \<and> nodesContainingService (deleteEndpointsNodes ep r) key = nodesContainingService r key" if "key \<noteq> ?k"
    using that ns
    by (auto simp: nodesContainingService_def deleteEndpointsNodes_def update_conv' delete_conv' split: option.splits)
  show ?thesis
    using sub [of "updateEndpointsNodes ep r"] own del oth by simp
qed

end
