(* ===== verification/ServiceLock.thy ===== *)
theory ServiceLock
  imports World
begin

text \<open>
  The per-service lock of \<open>cloudstack/servicelock.go\<close>: a map from service keys to reference-counted
  mutexes. Go pointers to \<open>refCounter\<close> are addresses into a heap. The part of each operation done
  under \<open>l.mu\<close> is one step; \<open>m.lock.Lock()\<close> outside it is another. The interleaving of any number of
  goroutines is the step relation at the end.
\<close>

section \<open>The lock\<close>

record refCounter =
  counter :: int
  locked :: bool

record serviceLock =
  inUse :: "(serviceKey \<times> nat) list"
  heap :: "refCounter list"

definition newServiceLock :: serviceLock where
  "newServiceLock = \<lparr>inUse = [], heap = []\<rparr>"

definition getLocker :: "serviceKey \<Rightarrow> serviceLock \<Rightarrow> nat \<times> serviceLock" where
  "getLocker key l = (case map_of (inUse l) key of
      Some m \<Rightarrow> (m, l)
    | None \<Rightarrow> (length (heap l),
        l\<lparr>inUse := AList.update key (length (heap l)) (inUse l),
          heap := heap l @ [\<lparr>counter = 0, locked = False\<rparr>]\<rparr>))"

text \<open>\<open>Lock\<close> up to \<open>l.mu.Unlock()\<close>: take or create the counter and count this caller.\<close>

definition lock_enter :: "serviceKey \<Rightarrow> serviceLock \<Rightarrow> nat \<times> serviceLock" where
  "lock_enter key l =
    (let (m, l1) = getLocker key l; r = heap l1 ! m
     in (m, l1\<lparr>heap := (heap l1)[m := r\<lparr>counter := counter r + 1\<rparr>]\<rparr>))"

text \<open>\<open>m.lock.Lock()\<close>: \<open>None\<close> while another goroutine holds the mutex.\<close>

definition lock_acquire :: "nat \<Rightarrow> serviceLock \<Rightarrow> serviceLock option" where
  "lock_acquire m l =
    (let r = heap l ! m
     in if locked r then None else Some (l\<lparr>heap := (heap l)[m := r\<lparr>locked := True\<rparr>]\<rparr>))"

text \<open>\<open>Unlock\<close>: \<open>None\<close> is Go's fatal error for unlocking a mutex that is not locked.\<close>

definition Unlock :: "serviceKey \<Rightarrow> serviceLock \<Rightarrow> serviceLock option" where
  "Unlock key l =
    (let (m, l1) = getLocker key l; r = heap l1 ! m
     in if \<not> locked r then None
        else
          let r1 = r\<lparr>locked := False, counter := counter r - 1\<rparr>;
              l2 = l1\<lparr>heap := (heap l1)[m := r1]\<rparr>
          in Some (if counter r1 \<le> 0 then l2\<lparr>inUse := AList.delete key (inUse l2)\<rparr> else l2))"

section \<open>Goroutines\<close>

text \<open>
  What one goroutine is doing: nothing with the lock, waiting on the mutex \<open>m\<close> of a service, or
  between \<open>Lock\<close> and \<open>Unlock\<close>.
\<close>

datatype pc = Idle | Waiting serviceKey nat | Holding serviceKey

record lockSys =
  lck :: serviceLock
  pcs :: "pc list"

definition lock_init :: "lockSys \<Rightarrow> bool" where
  "lock_init s \<longleftrightarrow> lck s = newServiceLock \<and> list_all (\<lambda>p. p = Idle) (pcs s)"

inductive lock_step :: "lockSys \<Rightarrow> lockSys \<Rightarrow> bool" where
  enter: "\<lbrakk> t < length (pcs s); pcs s ! t = Idle; lock_enter k (lck s) = (m, l) \<rbrakk>
    \<Longrightarrow> lock_step s (s\<lparr>lck := l, pcs := (pcs s)[t := Waiting k m]\<rparr>)"
| acquire: "\<lbrakk> t < length (pcs s); pcs s ! t = Waiting k m; lock_acquire m (lck s) = Some l \<rbrakk>
    \<Longrightarrow> lock_step s (s\<lparr>lck := l, pcs := (pcs s)[t := Holding k]\<rparr>)"
| release: "\<lbrakk> t < length (pcs s); pcs s ! t = Holding k; Unlock k (lck s) = Some l \<rbrakk>
    \<Longrightarrow> lock_step s (s\<lparr>lck := l, pcs := (pcs s)[t := Idle]\<rparr>)"

inductive_cases lock_stepE: "lock_step s t"

section \<open>The invariant\<close>

text \<open>How many goroutines refer to a service, and how many hold its lock.\<close>

fun refers :: "serviceKey \<Rightarrow> pc \<Rightarrow> bool" where
  "refers k Idle = False"
| "refers k (Waiting k' m) = (k = k')"
| "refers k (Holding k') = (k = k')"

definition refs :: "serviceKey \<Rightarrow> pc list \<Rightarrow> nat" where
  "refs k ps = length (filter (refers k) ps)"

definition holds :: "serviceKey \<Rightarrow> pc list \<Rightarrow> nat" where
  "holds k ps = length (filter (\<lambda>p. p = Holding k) ps)"

definition entry_ok :: "pc list \<Rightarrow> serviceKey \<Rightarrow> refCounter \<Rightarrow> bool" where
  "entry_ok ps k r \<longleftrightarrow> counter r = int (refs k ps) \<and> 0 < refs k ps
     \<and> holds k ps = (if locked r then 1 else 0)"

text \<open>
  The invariant, over the map as a partial function: keys do not share a mutex, the entry of a key
  counts exactly the goroutines that refer to it, its mutex is locked exactly when one of them
  holds it, a key without an entry is referred to by nobody, and a waiting goroutine waits on the
  mutex the map still has for its key.
\<close>

definition view_inv :: "(serviceKey \<rightharpoonup> nat) \<Rightarrow> refCounter list \<Rightarrow> pc list \<Rightarrow> bool" where
  "view_inv u h ps \<longleftrightarrow> (\<forall>k k' m. u k = Some m \<and> u k' = Some m \<longrightarrow> k = k')
     \<and> (\<forall>k m. u k = Some m \<longrightarrow> m < length h \<and> entry_ok ps k (h ! m))
     \<and> (\<forall>k. u k = None \<longrightarrow> refs k ps = 0)
     \<and> (\<forall>k m. Waiting k m \<in> set ps \<longrightarrow> u k = Some m)"

definition lock_inv :: "lockSys \<Rightarrow> bool" where
  "lock_inv s \<longleftrightarrow> distinct (map fst (inUse (lck s)))
     \<and> view_inv (map_of (inUse (lck s))) (heap (lck s)) (pcs s)"

lemma count_list_update:
  "t < length ps \<Longrightarrow>
    length (filter P (ps[t := q])) + (if P (ps ! t) then 1 else 0)
      = length (filter P ps) + (if P q then 1 else 0)"
proof (induction ps arbitrary: t)
  case Nil
  then show ?case by simp
next
  case (Cons p ps)
  show ?case
  proof (cases t)
    case 0
    then show ?thesis by simp
  next
    case (Suc n)
    with Cons.prems Cons.IH [of n] show ?thesis by simp
  qed
qed

lemma refs_update:
  "t < length ps \<Longrightarrow>
    refs k (ps[t := q]) + (if refers k (ps ! t) then 1 else 0) = refs k ps + (if refers k q then 1 else 0)"
  unfolding refs_def by (rule count_list_update)

lemma holds_update:
  "t < length ps \<Longrightarrow>
    holds k (ps[t := q]) + (if ps ! t = Holding k then 1 else 0) = holds k ps + (if q = Holding k then 1 else 0)"
  unfolding holds_def by (rule count_list_update)

lemma refs_pos: "t < length ps \<Longrightarrow> refers k (ps ! t) \<Longrightarrow> 0 < refs k ps"
  unfolding refs_def by (auto simp: filter_empty_conv intro: bexI [of _ "ps ! t"])

lemma holds_pos: "t < length ps \<Longrightarrow> ps ! t = Holding k \<Longrightarrow> 0 < holds k ps"
  unfolding holds_def by (force simp: filter_empty_conv in_set_conv_nth)

lemma holds_le_refs: "holds k ps \<le> refs k ps"
  unfolding holds_def refs_def by (induction ps) auto

lemma refs_idle: "list_all (\<lambda>p. p = Idle) ps \<Longrightarrow> refs k ps = 0"
  by (induction ps) (auto simp: refs_def)


lemma entry_ok_other:
  assumes "entry_ok ps k r" "t < length ps" "\<not> refers k (ps ! t)" "\<not> refers k q"
  shows "entry_ok (ps[t := q]) k r"
proof -
  have "q \<noteq> Holding k" "ps ! t \<noteq> Holding k"
    using assms(3,4) by auto
  then show ?thesis
    using assms refs_update [of t ps k q] holds_update [of t ps k q] by (simp add: entry_ok_def)
qed

lemma refs_other:
  "t < length ps \<Longrightarrow> refers k (ps ! t) \<longleftrightarrow> refers k q \<Longrightarrow> refs k (ps[t := q]) = refs k ps"
  using refs_update [of t ps k q] by (auto split: if_splits)

text \<open>
  A goroutine moves from \<open>ps ! t\<close> to \<open>q\<close>, both about key \<open>k\<close> only, and the map and the heap change at
  \<open>k\<close> only: what is left to show is about the entry of \<open>k\<close>.
\<close>

lemma view_inv_step:
  assumes inv: "view_inv u h ps" and t: "t < length ps"
    and only: "\<And>k'. k' \<noteq> k \<Longrightarrow> \<not> refers k' (ps ! t) \<and> \<not> refers k' q"
    and uo: "\<And>k'. k' \<noteq> k \<Longrightarrow> u' k' = u k'"
    and ho: "\<And>k' m. k' \<noteq> k \<Longrightarrow> u k' = Some m \<Longrightarrow> m < length h' \<and> h' ! m = h ! m \<and> u' k \<noteq> Some m"
    and some: "\<And>m. u' k = Some m \<Longrightarrow> m < length h' \<and> entry_ok (ps[t := q]) k (h' ! m)"
    and none: "u' k = None \<Longrightarrow> refs k (ps[t := q]) = 0"
    and wait: "\<And>m. Waiting k m \<in> set (ps[t := q]) \<Longrightarrow> u' k = Some m"
  shows "view_inv u' h' (ps[t := q])"
proof -
  have "k1 = k2" if "u' k1 = Some m" "u' k2 = Some m" for k1 k2 m
    using that inv uo ho unfolding view_inv_def by metis
  moreover have "m < length h' \<and> entry_ok (ps[t := q]) k' (h' ! m)" if "u' k' = Some m" for k' m
  proof (cases "k' = k")
    case False
    then show ?thesis
      using that inv uo ho only t entry_ok_other unfolding view_inv_def by metis
  qed (use that some in simp)
  moreover have "refs k' (ps[t := q]) = 0" if "u' k' = None" for k'
  proof (cases "k' = k")
    case False
    then show ?thesis
      using that inv uo only [OF False] t refs_other [of t ps k' q] unfolding view_inv_def by auto
  qed (use that none in simp)
  moreover have "u' k' = Some m" if w: "Waiting k' m \<in> set (ps[t := q])" for k' m
  proof (cases "k' = k")
    case False
    with only [OF False] have "Waiting k' m \<noteq> q" by auto
    with w have "Waiting k' m \<in> set ps"
      using set_update_subset_insert [of ps t q] by auto
    with inv uo [OF False] show ?thesis unfolding view_inv_def by auto
  qed (use w wait in simp)
  ultimately show ?thesis unfolding view_inv_def by blast
qed

lemma entry_okI:
  assumes "entry_ok ps k r" "t < length ps"
    and "counter r' = counter r - (if refers k (ps ! t) then 1 else 0) + (if refers k q then 1 else 0)"
    and "0 < counter r'"
    and "(if locked r then 1 else 0) - (if ps ! t = Holding k then 1 else 0) + (if q = Holding k then 1 else 0)
      = (if locked r' then 1 else 0 :: int)"
  shows "entry_ok (ps[t := q]) k r'"
  using assms refs_update [of t ps k q] holds_update [of t ps k q]
  by (auto simp: entry_ok_def split: if_splits)

lemma view_inv_entry:
  "view_inv u h ps \<Longrightarrow> u k = Some m \<Longrightarrow> m < length h \<and> entry_ok ps k (h ! m)"
  by (auto simp: view_inv_def)

lemma view_inv_inj: "view_inv u h ps \<Longrightarrow> u k = Some m \<Longrightarrow> u k' = Some m \<Longrightarrow> k = k'"
  by (auto simp: view_inv_def)

lemma view_inv_referred:
  assumes "view_inv u h ps" "t < length ps" "refers k (ps ! t)"
  obtains m where "u k = Some m"
  using assms refs_pos [of t ps k] by (cases "u k") (auto simp: view_inv_def)

lemma waiting_update: "Waiting k m \<in> set (ps[t := q]) \<Longrightarrow> Waiting k m \<in> set ps \<or> q = Waiting k m"
  using set_update_subset_insert [of ps t q] by auto

lemma entry_locked:
  assumes "entry_ok ps k r" "t < length ps" "ps ! t = Holding k"
  shows "locked r"
  using assms holds_pos [of t ps k] by (auto simp: entry_ok_def split: if_splits)

lemma inv_enter:
  assumes inv: "view_inv (map_of (inUse l)) (heap l) ps" and t: "t < length ps" "ps ! t = Idle"
    and e: "lock_enter k l = (m, l')"
  shows "view_inv (map_of (inUse l')) (heap l') (ps[t := Waiting k m])"
proof (cases "map_of (inUse l) k")
  case None
  then have l': "m = length (heap l)" "heap l' = heap l @ [\<lparr>counter = 1, locked = False\<rparr>]"
    "map_of (inUse l') = (map_of (inUse l))(k \<mapsto> m)"
    using e by (auto simp: lock_enter_def getLocker_def update_conv')
  have r0: "refs k ps = 0" "holds k ps = 0"
    using inv None holds_le_refs [of k ps] by (auto simp: view_inv_def)
  have w0: "Waiting k m' \<notin> set ps" for m'
    using inv None by (auto simp: view_inv_def)
  have ok: "entry_ok (ps[t := Waiting k m]) k \<lparr>counter = 1, locked = False\<rparr>"
    using r0 t refs_update [of t ps k "Waiting k m"] holds_update [of t ps k "Waiting k m"]
    by (simp add: entry_ok_def)
  show ?thesis
    by (rule view_inv_step [OF inv t(1), where k = k])
      (use t l' ok w0 in \<open>auto simp: nth_append dest: view_inv_entry [OF inv] waiting_update\<close>)
next
  case (Some m')
  let ?r = "heap l ! m"
  from Some have l': "m' = m" "heap l' = (heap l)[m := ?r\<lparr>counter := counter ?r + 1\<rparr>]"
    "map_of (inUse l') = map_of (inUse l)"
    using e by (auto simp: lock_enter_def getLocker_def Let_def)
  note r = view_inv_entry [OF inv Some]
  have ok: "entry_ok (ps[t := Waiting k m]) k (?r\<lparr>counter := counter ?r + 1\<rparr>)"
    using r t l'(1) by (intro entry_okI) (auto simp: entry_ok_def)
  show ?thesis
    by (rule view_inv_step [OF inv t(1), where k = k])
      (use t l' ok r Some in
        \<open>auto simp: nth_list_update dest: view_inv_entry [OF inv] view_inv_inj [OF inv Some] waiting_update\<close>,
       use inv Some l' in \<open>auto simp: view_inv_def dest!: waiting_update\<close>)
qed


lemma inv_acquire:
  assumes inv: "view_inv (map_of (inUse l)) (heap l) ps" and t: "t < length ps" "ps ! t = Waiting k m"
    and e: "lock_acquire m l = Some l'"
  shows "view_inv (map_of (inUse l')) (heap l') (ps[t := Holding k])"
proof -
  let ?r = "heap l ! m"
  have l': "\<not> locked ?r" "heap l' = (heap l)[m := ?r\<lparr>locked := True\<rparr>]" "inUse l' = inUse l"
    using e by (auto simp: lock_acquire_def Let_def split: if_splits)
  have m: "map_of (inUse l) k = Some m"
    using inv t nth_mem [OF t(1)] by (auto simp: view_inv_def)
  note r = view_inv_entry [OF inv m]
  have ok: "entry_ok (ps[t := Holding k]) k (?r\<lparr>locked := True\<rparr>)"
    using r t l'(1) by (intro entry_okI) (auto simp: entry_ok_def)
  show ?thesis
    by (rule view_inv_step [OF inv t(1), where k = k])
      (use t l' ok r m in
        \<open>auto simp: nth_list_update dest: view_inv_entry [OF inv] view_inv_inj [OF inv m]\<close>,
       use inv m l' in \<open>auto simp: view_inv_def dest!: waiting_update\<close>)
qed

lemma Unlock_holding:
  assumes inv: "view_inv (map_of (inUse l)) (heap l) ps" and t: "t < length ps" "ps ! t = Holding k"
  obtains m r where "map_of (inUse l) k = Some m" "r = heap l ! m" "locked r"
    "Unlock k l = Some (let l2 = l\<lparr>heap := (heap l)[m := r\<lparr>locked := False, counter := counter r - 1\<rparr>]\<rparr>
       in if counter r - 1 \<le> 0 then l2\<lparr>inUse := AList.delete k (inUse l)\<rparr> else l2)"
proof -
  obtain m where m: "map_of (inUse l) k = Some m"
    using view_inv_referred [OF inv t(1), of k] t(2) by auto
  moreover have "locked (heap l ! m)"
    using view_inv_entry [OF inv m] t by (auto intro: entry_locked)
  ultimately show ?thesis
    by (intro that) (auto simp: Unlock_def getLocker_def Let_def)
qed

lemma inv_release:
  assumes inv: "view_inv (map_of (inUse l)) (heap l) ps" and t: "t < length ps" "ps ! t = Holding k"
    and e: "Unlock k l = Some l'"
  shows "view_inv (map_of (inUse l')) (heap l') (ps[t := Idle])"
proof -
  obtain m r where m: "map_of (inUse l) k = Some m" "r = heap l ! m" "locked r"
    and u: "Unlock k l = Some (let l2 = l\<lparr>heap := (heap l)[m := r\<lparr>locked := False, counter := counter r - 1\<rparr>]\<rparr>
       in if counter r - 1 \<le> 0 then l2\<lparr>inUse := AList.delete k (inUse l)\<rparr> else l2)"
    by (rule Unlock_holding [OF inv t])
  have l': "heap l' = (heap l)[m := r\<lparr>locked := False, counter := counter r - 1\<rparr>]"
    "map_of (inUse l') = (if counter r - 1 \<le> 0 then (map_of (inUse l))(k := None) else map_of (inUse l))"
    using u e by (auto simp: Let_def delete_conv')
  note ent = view_inv_entry [OF inv m(1)]
  have refs: "int (refs k (ps[t := Idle])) = counter r - 1"
    using ent m(2) t refs_update [of t ps k Idle] by (auto simp: entry_ok_def)
  have ok: "entry_ok (ps[t := Idle]) k (r\<lparr>locked := False, counter := counter r - 1\<rparr>)"
    if "0 < counter r - 1"
    using ent t m(2,3) that by (intro entry_okI) (auto simp: entry_ok_def)
  have gone: "Waiting k m' \<notin> set (ps[t := Idle])" if "counter r - 1 \<le> 0" for m'
  proof -
    from refs that have "refs k (ps[t := Idle]) = 0" by simp
    then show ?thesis by (auto simp: refs_def filter_empty_conv)
  qed
  have wait: "map_of (inUse l') k = Some m'" if "Waiting k m' \<in> set (ps[t := Idle])" for m'
    using that gone l'(2) inv by (auto simp: view_inv_def dest!: waiting_update split: if_splits)
  show ?thesis
    by (rule view_inv_step [OF inv t(1), where k = k])
      (use t l' ok ent m refs wait in
        \<open>auto simp: nth_list_update dest: view_inv_entry [OF inv] view_inv_inj [OF inv m(1)]
          split: if_splits\<close>)
qed

lemma distinct_enter: "lock_enter k l = (m, l') \<Longrightarrow> distinct (map fst (inUse l)) \<Longrightarrow> distinct (map fst (inUse l'))"
  by (auto simp: lock_enter_def getLocker_def Let_def distinct_update split: option.splits)

lemma distinct_Unlock: "Unlock k l = Some l' \<Longrightarrow> distinct (map fst (inUse l)) \<Longrightarrow> distinct (map fst (inUse l'))"
  by (auto simp: Unlock_def getLocker_def Let_def distinct_update distinct_delete split: option.splits if_splits)

lemma lock_inv_step: "lock_step s s' \<Longrightarrow> lock_inv s \<Longrightarrow> lock_inv s'"
proof (induction rule: lock_step.induct)
  case (acquire t s k m l)
  moreover have "inUse l = inUse (lck s)"
    using acquire by (auto simp: lock_acquire_def Let_def split: if_splits)
  ultimately show ?case by (auto simp: lock_inv_def dest: inv_acquire)
qed (auto simp: lock_inv_def dest: inv_enter inv_release distinct_enter distinct_Unlock)

lemma lock_inv_init: "lock_init s \<Longrightarrow> lock_inv s"
  by (auto simp: lock_init_def lock_inv_def newServiceLock_def view_inv_def refs_idle list_all_iff)

interpretation svc_lock: invariant_system lock_init lock_step lock_inv
  by unfold_locales (auto intro: lock_inv_init lock_inv_step)

section \<open>Correctness\<close>

lemma filter_one_unique:
  assumes "length (filter P xs) \<le> 1" "i < length xs" "P (xs ! i)" "j < length xs" "P (xs ! j)"
  shows "i = j"
proof -
  have "card {i. i < length xs \<and> P (xs ! i)} \<le> Suc 0"
    using assms(1) by (simp add: length_filter_conv_card)
  then show ?thesis
    using assms(2-) by (auto simp: card_le_Suc0_iff_eq)
qed

lemma holds_le_one: "view_inv u h ps \<Longrightarrow> holds k ps \<le> 1"
  using holds_le_refs [of k ps] by (cases "u k") (auto simp: view_inv_def entry_ok_def)

lemma holder_unique:
  assumes "view_inv (map_of (inUse l)) (heap l) ps" "t1 < length ps" "ps ! t1 = Holding k" "t2 < length ps" "ps ! t2 = Holding k"
  shows "t1 = t2"
  using holds_le_one [OF assms(1)] assms(2-) unfolding holds_def by (rule filter_one_unique)

lemma waiting_holder:
  assumes inv: "view_inv (map_of (inUse l)) (heap l) ps" and t: "t < length ps" "ps ! t = Waiting k m"
    and w: "lock_acquire m l = None"
  shows "\<exists>t' < length ps. ps ! t' = Holding k"
proof -
  have "map_of (inUse l) k = Some m" using inv t nth_mem [OF t(1)] by (auto simp: view_inv_def)
  from view_inv_entry [OF inv this] w have "0 < holds k ps"
    by (auto simp: entry_ok_def lock_acquire_def Let_def split: if_splits)
  then show ?thesis by (auto simp: holds_def filter_empty_conv in_set_conv_nth)
qed

lemma view_inv_idle:
  assumes inv: "view_inv (map_of (inUse l)) (heap l) ps" and "list_all (\<lambda>p. p = Idle) ps"
  shows "inUse l = []"
proof -
  have "map_of (inUse l) k = None" for k
    using refs_idle [OF assms(2), of k] view_inv_entry [OF inv, of k] by (cases "map_of (inUse l) k") (auto simp: entry_ok_def)
  then show ?thesis by (metis map_of_eq_empty_iff ext)
qed

text \<open>
  Two goroutines are never between \<open>Lock\<close> and \<open>Unlock\<close> of the same service, however the calls of
  any number of goroutines on any services are interleaved.
\<close>

lemma lock_mutual_exclusion:
  assumes "reachable lock_init lock_step s"
    and "t1 < length (pcs s)" "pcs s ! t1 = Holding k"
    and "t2 < length (pcs s)" "pcs s ! t2 = Holding k"
  shows "t1 = t2"
proof -
  have "view_inv (map_of (inUse (lck s))) (heap (lck s)) (pcs s)"
    using svc_lock.inv_reachable [OF assms(1)] by (simp add: lock_inv_def)
  then show ?thesis using assms(2-) by (rule holder_unique)
qed

text \<open>
  A goroutine that waits for a service can take the lock at once unless another goroutine holds
  that same service, and a holder's \<open>Unlock\<close> always succeeds: it never unlocks an unlocked mutex.
\<close>

lemma lock_progress:
  assumes "reachable lock_init lock_step s"
    and "t < length (pcs s)" "pcs s ! t = Waiting k m"
  shows "(\<exists>l. lock_acquire m (lck s) = Some l)
    \<or> (\<exists>t' l. t' < length (pcs s) \<and> pcs s ! t' = Holding k \<and> Unlock k (lck s) = Some l)"
proof (cases "lock_acquire m (lck s)")
  case None
  have inv: "view_inv (map_of (inUse (lck s))) (heap (lck s)) (pcs s)"
    using svc_lock.inv_reachable [OF assms(1)] by (simp add: lock_inv_def)
  from waiting_holder [OF inv assms(2,3) None] obtain t' where t': "t' < length (pcs s)" "pcs s ! t' = Holding k" by blast
  then obtain l where "Unlock k (lck s) = Some l"
    by (rule Unlock_holding [OF inv])
  with t' show ?thesis by blast
qed simp

text \<open>
  When no goroutine uses the lock, the map of mutexes is empty: reference counting leaks no entry.
\<close>

lemma lock_no_leak:
  assumes "reachable lock_init lock_step s" and "list_all (\<lambda>p. p = Idle) (pcs s)"
  shows "inUse (lck s) = []"
proof -
  have "view_inv (map_of (inUse (lck s))) (heap (lck s)) (pcs s)"
    using svc_lock.inv_reachable [OF assms(1)] by (simp add: lock_inv_def)
  then show ?thesis using assms(2) by (rule view_inv_idle)
qed

end
