(* ===== verification/LBModel.thy ===== *)
theory LBModel
  imports Helpers
begin

text \<open>
  The load balancer object of \<open>cloudstack/loadbalancer.go\<close> and what is computed from it and its service
  without touching CloudStack: names, clients, algorithm, extra parameters, the label patch, the removal
  switch; and waiting for asynchronous jobs. A \<open>*loadBalancer\<close> is a value that each operation returns
  updated; the service it points to is part of it, so in-place changes of the service are kept.
\<close>

section \<open>State\<close>

record cloudstackIP =
  ip_id :: string
  ip_address :: string
  ip_networkid :: string

record loadBalancer =
  lb_projectID :: string
  lb_environment :: string
  lb_name :: string
  lb_algorithm :: string
  mainNetworkID :: string
  lb_ip :: cloudstackIP
  lb_rule :: "loadBalancerRule option"
  lb_service :: service

text \<open>
  A rule that is stored in a load balancer was read when it was found, or created with its embedded struct, so its
  embedded pointer is not nil.
\<close>

definition rule_String :: "loadBalancerRule option \<Rightarrow> string" where
  "rule_String r = (case r of
      None \<Rightarrow> ''lbrule(nil)''
    | Some r \<Rightarrow> Sprintf ''lbrule(%v, %v)'' [rule_Id r, rule_Name r])"

definition ip_String :: "cloudstackIP \<Rightarrow> string" where
  "ip_String ip = Sprintf ''ip(%v, %v)'' [ip_id ip, ip_address ip]"

definition lb_String :: "loadBalancer option \<Rightarrow> string" where
  "lb_String lb = (case lb of
      None \<Rightarrow> ''lb(nil)''
    | Some lb \<Rightarrow>
        (let svcName = Sprintf ''%s/%s'' [svc_Namespace (lb_service lb), svc_Name (lb_service lb)];
             projID = (if lb_projectID lb \<noteq> [] then lb_projectID lb else ''nil'')
         in Sprintf ''lb(%v, %v, %v, %v, svc(%v))''
              [lb_name lb, projID, rule_String (lb_rule lb), ip_String (lb_ip lb), svcName]))"

definition isValid :: "cloudstackIP \<Rightarrow> bool" where
  "isValid ip \<longleftrightarrow> ip_id ip \<noteq> [] \<and> ip_address ip \<noteq> []"

section \<open>Annotations and labels the provider understands\<close>

definition lbNameLabel :: string where
  "lbNameLabel = ''csccm.cloudprovider.io/loadbalancer-name''"
definition lbNameSuffix :: string where
  "lbNameSuffix = ''csccm.cloudprovider.io/loadbalancer-name-suffix''"
definition lbUseTargetPort :: string where
  "lbUseTargetPort = ''csccm.cloudprovider.io/loadbalancer-use-targetport''"
definition associateIPAddressExtraParamPrefix :: string where
  "associateIPAddressExtraParamPrefix = ''csccm.cloudprovider.io/associateipaddress-extra-param-''"
definition createLoadBalancerExtraParamPrefix :: string where
  "createLoadBalancerExtraParamPrefix = ''csccm.cloudprovider.io/createloadbalancer-extra-param-''"
definition lbCustomHealthCheck :: string where
  "lbCustomHealthCheck = ''csccm.cloudprovider.io/loadbalancer-custom-healthcheck''"
definition lbCustomHealthCheckMessagePrefix :: string where
  "lbCustomHealthCheckMessagePrefix = ''csccm.cloudprovider.io/loadbalancer-custom-healthcheck-msg-''"
definition lbCustomHealthCheckResponsePrefix :: string where
  "lbCustomHealthCheckResponsePrefix = ''csccm.cloudprovider.io/loadbalancer-custom-healthcheck-rsp-''"
definition removeLBsOnDeleteLabelKey :: string where
  "removeLBsOnDeleteLabelKey = ''csccm.cloudprovider.io/remove-loadbalancers-on-delete''"

section \<open>Name, client, algorithm\<close>

definition getLoadBalancerName :: "CSCloud \<Rightarrow> service \<Rightarrow> string" where
  "getLoadBalancerName cs svc =
    (let nm = str_or_empty (getLabelOrAnnotation (svc_meta svc) lbNameLabel)
     in if nm \<noteq> [] then nm
        else
          let suffix = str_or_empty (getLabelOrAnnotation (svc_meta svc) lbNameSuffix)
          in if suffix \<noteq> [] then Sprintf ''%s.%s'' [svc_Name svc, suffix]
             else Sprintf ''%s.%s'' [svc_Name svc,
               lbDomain (environmentOf cs (environmentForMeta cs (svc_meta svc)))])"

definition GetLoadBalancerName :: "CSCloud \<Rightarrow> service option \<Rightarrow> string" where
  "GetLoadBalancerName cs svc = (case svc of None \<Rightarrow> [] | Some svc \<Rightarrow> getLoadBalancerName cs svc)"

definition getClient :: "CSCloud \<Rightarrow> loadBalancer \<Rightarrow> error + client" where
  "getClient cs lb = (case env_client (environmentOf cs (lb_environment lb)) of
      None \<Rightarrow> Inl (Errorf ''unable to retrieve cloudstack client for env: '' [])
    | Some c \<Rightarrow> Inr c)"

definition getLBEnvironmentID :: "CSCloud \<Rightarrow> loadBalancer \<Rightarrow> string" where
  "getLBEnvironmentID cs lb = lbEnvironmentID (environmentOf cs (lb_environment lb))"

definition setAlgorithm :: "service \<Rightarrow> loadBalancer \<Rightarrow> error + loadBalancer" where
  "setAlgorithm svc lb =
    (if svc_SessionAffinity svc = ''None'' \<or> svc_SessionAffinity svc = [] then Inr (lb\<lparr>lb_algorithm := ''roundrobin''\<rparr>)
     else if svc_SessionAffinity svc = ''ClientIP'' then Inr (lb\<lparr>lb_algorithm := ''source''\<rparr>)
     else Inl (Errorf ''unsupported load balancer affinity: %v'' [svc_SessionAffinity svc]))"

section \<open>Removal switch\<close>

text \<open>\<open>strconv.ParseBool\<close>: \<open>None\<close> is its error.\<close>

definition ParseBool :: "string \<Rightarrow> bool option" where
  "ParseBool s =
    (if s \<in> {''1'', ''t'', ''T'', ''true'', ''TRUE'', ''True''} then Some True
     else if s \<in> {''0'', ''f'', ''F'', ''false'', ''FALSE'', ''False''} then Some False
     else None)"

definition isLBRemovalEnabled :: "CSCloud \<Rightarrow> loadBalancer \<Rightarrow> service \<Rightarrow> bool" where
  "isLBRemovalEnabled cs lb svc =
    (let dflt = removeLBs (environmentOf cs (lb_environment lb))
     in case getLabelOrAnnotation (svc_meta svc) removeLBsOnDeleteLabelKey of
          Some flag \<Rightarrow> (case ParseBool flag of Some b \<Rightarrow> b | None \<Rightarrow> dflt)
        | None \<Rightarrow> dflt)"

section \<open>Extra parameters\<close>

definition addExtra :: "string \<Rightarrow> string \<times> string \<Rightarrow> params \<Rightarrow> params" where
  "addExtra prefix kv params =
    (if HasPrefix (fst kv) prefix then SetParam (TrimPrefix (fst kv) prefix) (PStr (snd kv)) params else params)"

definition setExtraParams :: "service \<Rightarrow> string \<Rightarrow> params \<Rightarrow> params" where
  "setExtraParams svc prefix params =
    fold (addExtra prefix) (labels (svc_meta svc)) (fold (addExtra prefix) (om_Annotations (svc_meta svc)) params)"

section \<open>The label patch\<close>

text \<open>\<open>strings.NewReplacer("~", "~0", "/", "~1")\<close>\<close>

fun rfc6901_char :: "char \<Rightarrow> string" where
  "rfc6901_char c = (if c = CHR ''~'' then ''~0'' else if c = CHR ''/'' then ''~1'' else [c])"

definition rfc6901_Replace :: "string \<Rightarrow> string" where
  "rfc6901_Replace s = concat (map rfc6901_char s)"

text \<open>The format of the patch, with \<open>^\<close> for a double quote, \<open>|\<close> for a newline and \<open>_\<close> for a tab.\<close>

definition patch_char :: "char \<Rightarrow> char" where
  "patch_char c = (if c = CHR ''^'' then CHR 0x22 else if c = CHR ''|'' then CHR 0x0A
     else if c = CHR ''_'' then CHR 0x09 else c)"

definition createJSONPatchForLabel :: "string \<Rightarrow> string \<Rightarrow> string" where
  "createJSONPatchForLabel key value =
     map patch_char ''[|__{|___^op^: ^add^,|___^path^: ^/metadata/labels/'' @ rfc6901_Replace key
     @ map patch_char ''^,|___^value^: ^'' @ value @ map patch_char ''^|__}|_]''"

section \<open>Asynchronous jobs\<close>

text \<open>
  The first value of a JSON object, in the order the decoded map is ranged over; decoding \<open>null\<close> gives an
  empty map.
\<close>

definition getFirstRawValue :: "json \<Rightarrow> error + json" where
  "getFirstRawValue raw = (case raw of
      JObj ((k, v) # _) \<Rightarrow> Inr v
    | JObj [] \<Rightarrow> Inl (Errorf ''unable to extract the raw value from: %q'' [])
    | JNull \<Rightarrow> Inl (Errorf ''unable to extract the raw value from: %q'' [])
    | _ \<Rightarrow> Inl (ApiErr ''json: cannot unmarshal into Go value of type map[string]json.RawMessage''))"

text \<open>
  \<open>waitJob\<close> into a struct, with the struct's decoder: a decoder returns what it has stored and its error, and
  the second attempt starts from what the first one stored. \<open>waitJob_nil\<close> is \<open>waitJob\<close> with a nil result.
\<close>

definition waitJob ::
  "'w api \<Rightarrow> client \<Rightarrow> string \<Rightarrow> (json \<Rightarrow> 'r \<Rightarrow> 'r \<times> string option) \<Rightarrow> 'r \<Rightarrow> (('w, 'x) sys_scheme, 'r) go" where
  "waitJob api c jobID unmarshal result =
    bind (io (GetAsyncJobResult c jobID asyncJobWaitTimeout) (api_asyncJob api c jobID asyncJobWaitTimeout)) (\<lambda>data.
    bind (lift_sum (getFirstRawValue data)) (\<lambda>firstData.
      case unmarshal firstData result of
        (r, None) \<Rightarrow> ret r
      | (r, Some _) \<Rightarrow> (case unmarshal data r of (r', None) \<Rightarrow> ret r' | (_, Some e) \<Rightarrow> throw (ApiErr e))))"

definition waitJob_nil :: "'w api \<Rightarrow> client \<Rightarrow> string \<Rightarrow> (('w, 'x) sys_scheme, unit) go" where
  "waitJob_nil api c jobID =
    bind (io (GetAsyncJobResult c jobID asyncJobWaitTimeout) (api_asyncJob api c jobID asyncJobWaitTimeout)) (\<lambda>_. ret ())"

lemma keeps_waitJob [keeps_intros]: "keeps (outside_only read_only) (waitJob api c j u r)"
  by (auto simp: waitJob_def intro!: keeps_intros split: prod.splits option.splits)

lemma keeps_waitJob_nil [keeps_intros]: "keeps (outside_only read_only) (waitJob_nil api c j)"
  by (auto simp: waitJob_nil_def intro!: keeps_intros)

section \<open>Lemmas\<close>

lemma SetParam_lookup [simp]: "map_of (SetParam k v p) = (map_of p)(k \<mapsto> v)"
  by (simp add: SetParam_def update_conv')

lemma map_of_addExtra:
  "map_of (addExtra pre kv p) k = (if fst kv = pre @ k then Some (PStr (snd kv)) else map_of p k)"
  by (auto simp: addExtra_def HasPrefix_iff)

lemma fold_addExtra:
  "distinct (map fst m) \<Longrightarrow>
    map_of (fold (addExtra pre) m p) k = (case map_of m (pre @ k) of Some v \<Rightarrow> Some (PStr v) | None \<Rightarrow> map_of p k)"
proof (induction m arbitrary: p)
  case (Cons kv m)
  then show ?case
    by (cases kv) (force simp: map_of_addExtra split: option.splits dest: map_of_SomeD)
qed simp

text \<open>Decoding of an RFC 6901 token.\<close>

fun rfc6901_decode :: "string \<Rightarrow> string" where
  "rfc6901_decode [] = []"
| "rfc6901_decode [c] = [c]"
| "rfc6901_decode (c # d # s) =
     (if c = CHR ''~'' \<and> d = CHR ''1'' then CHR ''/'' # rfc6901_decode s
      else if c = CHR ''~'' \<and> d = CHR ''0'' then CHR ''~'' # rfc6901_decode s
      else c # rfc6901_decode (d # s))"

lemma rfc6901_decode_cons: "c \<noteq> CHR ''~'' \<Longrightarrow> rfc6901_decode (c # s) = c # rfc6901_decode s"
  by (cases s) auto

lemma decode_Replace: "rfc6901_decode (rfc6901_Replace s) = s"
  by (induction s) (auto simp: rfc6901_Replace_def rfc6901_decode_cons)

lemma Replace_no_slash: "CHR ''/'' \<notin> set (rfc6901_Replace s)"
  by (induction s) (auto simp: rfc6901_Replace_def)

definition sampleLB :: loadBalancer where
  "sampleLB = \<lparr>lb_projectID = ''p1'', lb_environment = ''env1'', lb_name = ''web.test.com'', lb_algorithm = ''roundrobin'',
     mainNetworkID = ''net1'', lb_ip = \<lparr>ip_id = ''ip1'', ip_address = ''10.0.0.1'', ip_networkid = ''net1''\<rparr>,
     lb_rule = None, lb_service = sampleService\<rparr>"

lemma sampleLB_service [simp]: "lb_service sampleLB = sampleService" "lb_rule sampleLB = None"
  by (simp_all add: sampleLB_def)

lemma sampleLB_client [simp]: "getClient sampleCloud sampleLB = Inr sampleClient"
  by (simp add: getClient_def sampleLB_def sampleEnv_def sampleClient_def)

section \<open>Correctness\<close>

text \<open>
  The label patch names its label. Whatever the key contains, its place in the path of the patch is a single token
  that decodes to exactly that key, and two keys give the same patch of a value only if they are the same.
\<close>

lemma labelPatch_roundtrip:
  "(\<exists>token. createJSONPatchForLabel key value = map patch_char ''[|__{|___^op^: ^add^,|___^path^: ^/metadata/labels/'' @ token
      @ map patch_char ''^,|___^value^: ^'' @ value @ map patch_char ''^|__}|_]''
      \<and> CHR ''/'' \<notin> set token \<and> rfc6901_decode token = key)
    \<and> (createJSONPatchForLabel key value = createJSONPatchForLabel key' value \<longleftrightarrow> key = key')"
proof -
  have "rfc6901_Replace key = rfc6901_Replace key' \<longleftrightarrow> key = key'" by (metis decode_Replace)
  then show ?thesis
    using decode_Replace [of key] Replace_no_slash [of key]
    by (auto simp: createJSONPatchForLabel_def simp del: list.map)
qed

end
