(* ===== verification/Ports.thy ===== *)
theory Ports
  imports LBModel "HOL-Library.Multiset"
begin

text \<open>
  The ports of a load balancer in \<open>cloudstack/loadbalancer.go\<close>: how they are computed from the ports of the
  service, written as the strings CloudStack keeps in a rule, and compared with an existing rule.
\<close>

section \<open>Definitions\<close>

record lbPortInfo =
  pi_publicPort :: int
  pi_privatePort :: int
  pi_name :: string

record lbPorts =
  ports :: "lbPortInfo list"
  protocol :: string

definition publicPort :: "lbPorts \<Rightarrow> int" where
  "publicPort p = (if length (ports p) = 0 then 0 else pi_publicPort (ports p ! 0))"

definition privatePort :: "lbPorts \<Rightarrow> int" where
  "privatePort p = (if length (ports p) = 0 then 0 else pi_privatePort (ports p ! 0))"

definition portPair :: "lbPortInfo \<Rightarrow> string" where
  "portPair port = Itoa (pi_publicPort port) @ '':'' @ Itoa (pi_privatePort port)"

text \<open>A nil slice is the empty list: the function never returns an empty slice that is not nil.\<close>

definition additionalPorts :: "lbPorts \<Rightarrow> string list" where
  "additionalPorts p = (if length (ports p) < 2 then [] else sort (map portPair (drop 1 (ports p))))"

text \<open>
  \<open>sort.Slice\<close> by port number. Ports with equal numbers keep their order here; Kubernetes allows them only with
  different protocols, which the caller rejects.
\<close>

definition sortPorts :: "servicePort list \<Rightarrow> servicePort list" where
  "sortPorts ps = sort_key sp_Port ps"

definition getTargetPort ::
  "'w api \<Rightarrow> loadBalancer \<Rightarrow> intOrString \<Rightarrow> (('w, 'x) sys_scheme, int) go" where
  "getTargetPort api lb targetPort =
    (if ios_IntValue api targetPort > 0 then ret (ios_IntValue api targetPort)
     else
       (let ns = svc_Namespace (lb_service lb); nm = svc_Name (lb_service lb) in
        bind (wrap_err (Wrapf ''error get endpoints: %v'' []) (io (GetEndpoints ns nm) (kube_getEndpoints api ns nm))) (\<lambda>endpoint.
          case ep_Subsets endpoint of
            [] \<Rightarrow> throw (Errorf ''no endpoints found for %v'' [lb_String (Some lb)])
          | sub # _ \<Rightarrow>
              (case map_of (es_Ports sub) (ios_String api targetPort) of
                 Some p \<Rightarrow> ret p
               | None \<Rightarrow> throw (Errorf ''no port name %q found for endpoint for %v''
                   [ios_String api targetPort, lb_String (Some lb)])))))"

text \<open>One iteration of the loop over the sorted ports, which appends to the result.\<close>

definition addPort ::
  "'w api \<Rightarrow> loadBalancer \<Rightarrow> string \<Rightarrow> bool \<Rightarrow> servicePort \<Rightarrow> lbPortInfo list \<Rightarrow> (('w, 'x) sys_scheme, lbPortInfo list) go" where
  "addPort api lb proto useTargetPort p acc =
    (if sp_Protocol p \<noteq> proto then
       throw (Errorf ''unsupported load balancer with multiple protocols: %q and %q'' [proto, sp_Protocol p])
     else
       bind (if useTargetPort then getTargetPort api lb (sp_TargetPort p) else ret (sp_NodePort p)) (\<lambda>targetPort.
         ret (acc @ [\<lparr>pi_publicPort = sp_Port p, pi_privatePort = targetPort, pi_name = sp_Name p\<rparr>])))"

text \<open>The slice of ports is sorted in place, so the load balancer's service comes back with sorted ports.\<close>

definition serviceToLBPorts ::
  "'w api \<Rightarrow> loadBalancer \<Rightarrow> (('w, 'x) sys_scheme, loadBalancer \<times> lbPorts) go" where
  "serviceToLBPorts api lb =
    (if length (svc_Ports (lb_service lb)) = 0 then throw (Errorf ''service ports are empty'' [])
     else
       (let ps = sortPorts (svc_Ports (lb_service lb));
            lb1 = lb\<lparr>lb_service := (lb_service lb)\<lparr>svc_Ports := ps\<rparr>\<rparr>;
            proto = sp_Protocol (ps ! 0);
            useTargetPort = getLabelOrAnnotation (svc_meta (lb_service lb)) lbUseTargetPort \<noteq> None
        in if proto \<noteq> ''TCP'' \<and> proto \<noteq> ''UDP''
           then throw (Errorf ''unsupported load balancer protocol: %v'' [proto])
           else
             bind (foldm ps (addPort api lb1 proto useTargetPort) []) (\<lambda>infos.
               ret (lb1, \<lparr>ports = infos, protocol = proto\<rparr>))))"

text \<open>The comparison sorts the rule's additional ports in place.\<close>

definition comparePorts :: "lbPorts \<Rightarrow> loadBalancerRule \<Rightarrow> bool \<times> loadBalancerRule" where
  "comparePorts ps rule =
    (let rule1 = rule\<lparr>AdditionalPortMap := sort (AdditionalPortMap rule)\<rparr>
     in (additionalPorts ps = AdditionalPortMap rule1
         \<and> rule_Privateport rule1 = Itoa (privatePort ps)
         \<and> rule_Publicport rule1 = Itoa (publicPort ps)
         \<and> rule_Protocol rule1 = protocol ps, rule1))"

record hcPortInfo =
  hc_protocol :: string
  requiresMsg :: bool

definition portToHCProtocol :: "lbPorts \<Rightarrow> lbPortInfo \<Rightarrow> hcPortInfo" where
  "portToHCProtocol ps portInfo =
    (let supportedHCProtocols = [(''HTTP'', True), (''HTTPS'', True), (''TCP'', False), (''UDP'', False)];
         svcNamePrefix = ToUpper (Split (CHR ''-'') (pi_name portInfo) ! 0)
     in case map_of supportedHCProtocols svcNamePrefix of
          Some hasMsg \<Rightarrow> \<lparr>hc_protocol = svcNamePrefix, requiresMsg = hasMsg\<rparr>
        | None \<Rightarrow> \<lparr>hc_protocol = protocol ps, requiresMsg = False\<rparr>)"

section \<open>Lemmas\<close>

lemma keeps_getTargetPort [keeps_intros]: "keeps (outside_only read_only) (getTargetPort api lb tp)"
  by (auto simp: getTargetPort_def Let_def intro!: keeps_intros split: list.splits option.splits)

lemma keeps_serviceToLBPorts [keeps_intros]: "keeps (outside_only read_only) (serviceToLBPorts api lb)"
  by (auto simp: serviceToLBPorts_def addPort_def Let_def intro!: keeps_intros)

lemma portPair_inj:
  "portPair p = portPair q \<longleftrightarrow> pi_publicPort p = pi_publicPort q \<and> pi_privatePort p = pi_privatePort q"
proof
  assume "portPair p = portPair q"
  then have "Split (CHR '':'') (portPair p) = Split (CHR '':'') (portPair q)" by simp
  then show "pi_publicPort p = pi_publicPort q \<and> pi_privatePort p = pi_privatePort q"
    by (simp add: portPair_def Itoa_no_colon)
qed (simp add: portPair_def)

lemma additionalPorts_sort: "additionalPorts p = sort (map portPair (drop 1 (ports p)))"
  by (simp add: additionalPorts_def)

lemma sort_eq_mset: "sort xs = sort ys \<longleftrightarrow> mset xs = mset ys" for xs :: "'a :: linorder list"
  by (metis mset_sort properties_for_sort sorted_sort)

text \<open>The public and private port numbers of a list of ports, without their names.\<close>

definition portNumbers :: "lbPortInfo list \<Rightarrow> (int \<times> int) list" where
  "portNumbers ps = map (\<lambda>p. (pi_publicPort p, pi_privatePort p)) ps"

lemma portPair_mset:
  "image_mset portPair (mset ps) = image_mset portPair (mset qs) \<longleftrightarrow> mset (portNumbers ps) = mset (portNumbers qs)"
proof -
  let ?f = "\<lambda>(a, b). Itoa a @ '':'' @ Itoa b"
  have f: "inj ?f"
  proof (rule injI, clarify)
    fix a b c d assume "Itoa a @ '':'' @ Itoa b = Itoa c @ '':'' @ Itoa d"
    then show "a = c \<and> b = d"
      using portPair_inj [of "\<lparr>pi_publicPort = a, pi_privatePort = b, pi_name = []\<rparr>"
          "\<lparr>pi_publicPort = c, pi_privatePort = d, pi_name = []\<rparr>"] by (simp add: portPair_def)
  qed
  have "image_mset portPair (mset xs) = image_mset ?f (mset (portNumbers xs))" for xs
    by (simp add: portNumbers_def portPair_def [abs_def] image_mset.compositionality comp_def)
  then show ?thesis using f by (simp add: inj_eq [OF multiset.inj_map])
qed

lemma foldm_addPort:
  "(\<forall>p \<in> set ps. sp_Protocol p = proto) \<Longrightarrow> foldm ps (addPort api lb proto False) acc s
    = (Ret (acc @ map (\<lambda>p. \<lparr>pi_publicPort = sp_Port p, pi_privatePort = sp_NodePort p, pi_name = sp_Name p\<rparr>) ps), s)"
  by (induction ps arbitrary: acc) (simp_all add: addPort_def ret_def bind_def)

lemma foldm_addPort_mixed:
  "p \<in> set ps \<Longrightarrow> sp_Protocol p \<noteq> proto \<Longrightarrow> \<exists>e t. foldm ps (addPort api lb proto False) acc s = (Err e, t)"
  by (induction ps arbitrary: acc s) (auto simp: addPort_def ret_def throw_def bind_def)

section \<open>Correctness\<close>

text \<open>
  C32: an existing rule that describes the ports \<open>old\<close> (its additional ports in any order) compares equal to the
  wanted ports exactly when the protocol, the first port and the collection of further port pairs are the same;
  no two different collections of ports are written the same way.
\<close>

theorem comparePorts_same:
  assumes "rule_Publicport rule = Itoa (publicPort old)" "rule_Privateport rule = Itoa (privatePort old)"
    "rule_Protocol rule = protocol old" "mset (AdditionalPortMap rule) = mset (additionalPorts old)"
  shows "fst (comparePorts ps rule) \<longleftrightarrow> protocol ps = protocol old \<and> publicPort ps = publicPort old
    \<and> privatePort ps = privatePort old
    \<and> mset (portNumbers (drop 1 (ports ps))) = mset (portNumbers (drop 1 (ports old)))"
proof -
  have "sort (AdditionalPortMap rule) = additionalPorts old"
    using assms(4) by (simp add: additionalPorts_sort sort_eq_mset)
  then show ?thesis
    using assms(1-3) by (auto simp: comparePorts_def additionalPorts_sort sort_eq_mset portPair_mset)
qed

definition samplePorts :: lbPorts where
  "samplePorts = \<lparr>ports = [\<lparr>pi_publicPort = 80, pi_privatePort = 30080, pi_name = ''http''\<rparr>,
     \<lparr>pi_publicPort = 443, pi_privatePort = 30443, pi_name = ''https''\<rparr>], protocol = ''TCP''\<rparr>"

definition sampleRule :: loadBalancerRule where
  "sampleRule = \<lparr>rule_Id = ''lbrule-1'', rule_Algorithm = ''roundrobin'', rule_Cidrlist = [], rule_Name = ''web.test.com'',
     rule_Networkid = ''net1'', rule_Privateport = ''30080'', rule_Publicport = ''80'', rule_Publicip = ''10.0.0.1'',
     rule_Publicipid = ''ip1'', rule_Zoneid = [], rule_Protocol = ''TCP'', rule_Tags = [], AdditionalPortMap = [''443:30443'']\<rparr>"

theorem comparePorts_same_witness:
  "fst (comparePorts samplePorts sampleRule) \<and> \<not> fst (comparePorts (samplePorts\<lparr>protocol := ''UDP''\<rparr>) sampleRule)"
proof -
  have i: "Itoa 80 = ''80''" "Itoa 30080 = ''30080''" "Itoa 443 = ''443''" "Itoa 30443 = ''30443''"
    by (simp_all add: Itoa_def nat_str.simps)
  have "rule_Publicport sampleRule = Itoa (publicPort samplePorts)" "rule_Privateport sampleRule = Itoa (privatePort samplePorts)"
    "rule_Protocol sampleRule = protocol samplePorts" "mset (AdditionalPortMap sampleRule) = mset (additionalPorts samplePorts)"
    by (simp_all add: sampleRule_def samplePorts_def publicPort_def privatePort_def additionalPorts_sort portPair_def i)
  note same = comparePorts_same [OF this]
  show ?thesis
    unfolding same by (simp add: samplePorts_def)
qed

text \<open>
  C33: without the target port label the ports of a load balancer are the service's ports in the order of
  their numbers with the node ports behind them; a service without ports, with an unknown protocol or with
  several protocols is refused; nothing is called and the state is unchanged.
\<close>

theorem serviceToLBPorts_nodePorts:
  assumes "getLabelOrAnnotation (svc_meta (lb_service lb)) lbUseTargetPort = None"
  shows "(let ps = sort_key sp_Port (svc_Ports (lb_service lb)) in
     if \<exists>proto \<in> {''TCP'', ''UDP''}. ps \<noteq> [] \<and> (\<forall>p \<in> set ps. sp_Protocol p = proto)
     then serviceToLBPorts api lb s = (Ret (lb\<lparr>lb_service := (lb_service lb)\<lparr>svc_Ports := ps\<rparr>\<rparr>,
        \<lparr>ports = map (\<lambda>p. \<lparr>pi_publicPort = sp_Port p, pi_privatePort = sp_NodePort p, pi_name = sp_Name p\<rparr>) ps,
         protocol = sp_Protocol (ps ! 0)\<rparr>), s)
     else \<exists>e t. serviceToLBPorts api lb s = (Err e, t))"
proof -
  let ?ps = "sort_key sp_Port (svc_Ports (lb_service lb))"
  let ?lb = "lb\<lparr>lb_service := (lb_service lb)\<lparr>svc_Ports := ?ps\<rparr>\<rparr>"
  have ne: "svc_Ports (lb_service lb) \<noteq> [] \<longleftrightarrow> ?ps \<noteq> []"
    by (metis length_0_conv length_sort)
  have unfold: "serviceToLBPorts api lb s = (if ?ps = [] then (Err (Errorf ''service ports are empty'' []), s)
      else if sp_Protocol (?ps ! 0) \<noteq> ''TCP'' \<and> sp_Protocol (?ps ! 0) \<noteq> ''UDP''
      then (Err (Errorf ''unsupported load balancer protocol: %v'' [sp_Protocol (?ps ! 0)]), s)
      else bind (foldm ?ps (addPort api ?lb (sp_Protocol (?ps ! 0)) False) [])
        (\<lambda>infos. ret (?lb, \<lparr>ports = infos, protocol = sp_Protocol (?ps ! 0)\<rparr>)) s)"
    using assms ne by (simp add: serviceToLBPorts_def sortPorts_def Let_def throw_def)
  show ?thesis
  proof (cases "\<exists>proto \<in> {''TCP'', ''UDP''}. ?ps \<noteq> [] \<and> (\<forall>p \<in> set ?ps. sp_Protocol p = proto)")
    case True
    then obtain proto where pr: "proto \<in> {''TCP'', ''UDP''}" "?ps \<noteq> []" "\<forall>p \<in> set ?ps. sp_Protocol p = proto"
      by blast
    have p0: "sp_Protocol (?ps ! 0) = proto" using pr(2,3) by (metis length_greater_0_conv nth_mem)
    have "serviceToLBPorts api lb s = (Ret (?lb,
        \<lparr>ports = map (\<lambda>p. \<lparr>pi_publicPort = sp_Port p, pi_privatePort = sp_NodePort p, pi_name = sp_Name p\<rparr>) ?ps,
         protocol = sp_Protocol (?ps ! 0)\<rparr>), s)"
      unfolding unfold p0 using pr by (simp add: bind_def foldm_addPort ret_def)
    then show ?thesis using True by (simp only: Let_def if_True)
  next
    case False
    have "\<exists>e t. bind (foldm ?ps (addPort api ?lb (sp_Protocol (?ps ! 0)) False) []) f s = (Err e, t)"
      if pr: "sp_Protocol (?ps ! 0) \<in> {''TCP'', ''UDP''}" "?ps \<noteq> []" for f :: "_ \<Rightarrow> (_, loadBalancer \<times> lbPorts) go"
    proof -
      obtain p where "p \<in> set ?ps" "sp_Protocol p \<noteq> sp_Protocol (?ps ! 0)" using False pr by blast
      from foldm_addPort_mixed [OF this, of api ?lb "[]" s] show ?thesis by (auto simp: bind_def)
    qed
    then have "\<exists>e t. serviceToLBPorts api lb s = (Err e, t)"
      unfolding unfold by auto
    then show ?thesis using False by (simp only: Let_def if_False)
  qed
qed

theorem serviceToLBPorts_nodePorts_witness:
  "serviceToLBPorts offlineAPI sampleLB \<lparr>world = (), trace = []\<rparr>
    = (Ret (sampleLB, \<lparr>ports = [\<lparr>pi_publicPort = 80, pi_privatePort = 30080, pi_name = ''http''\<rparr>],
         protocol = ''TCP''\<rparr>), \<lparr>world = (), trace = []\<rparr>)"
proof -
  have "sort_key sp_Port (svc_Ports sampleService) = svc_Ports sampleService"
    by (simp add: sampleService_def)
  moreover have "sampleLB\<lparr>lb_service := sampleService\<lparr>svc_Ports := svc_Ports sampleService\<rparr>\<rparr> = sampleLB"
    by (simp add: sampleLB_def)
  ultimately show ?thesis
    using serviceToLBPorts_nodePorts [of sampleLB offlineAPI "\<lparr>world = (), trace = []\<rparr>"]
    by (simp add: Let_def) (simp add: sampleService_def)
qed

end
