(* ===== verification/Tags.thy ===== *)
theory Tags
  imports LBModel
begin

text \<open>
  Resource tags of \<open>cloudstack/loadbalancer.go\<close>: which load balancer rules and addresses belong to a
  service, which of them the provider may change, and the tagging of resources.
\<close>

section \<open>Definitions\<close>

definition cloudProviderTag :: string where "cloudProviderTag = ''cloudprovider''"
definition serviceTag :: string where "serviceTag = ''kubernetes_service''"
definition namespaceTag :: string where "namespaceTag = ''kubernetes_namespace''"
definition cloudProviderIgnoreTag :: string where "cloudProviderIgnoreTag = ''cloudprovider-ignore''"
definition CloudstackResourceIPAdress :: string where "CloudstackResourceIPAdress = ''PublicIpAddress''"
definition CloudstackResourceLoadBalancer :: string where "CloudstackResourceLoadBalancer = ''LoadBalancer''"

lemmas tag_defs = cloudProviderTag_def serviceTag_def namespaceTag_def cloudProviderIgnoreTag_def

definition tagsForService :: "service \<Rightarrow> smap" where
  "tagsForService svc =
    [(cloudProviderTag, ProviderName), (serviceTag, svc_Name svc), (namespaceTag, svc_Namespace svc)]"

text \<open>Indexing a Go map of strings: the empty string for a missing key.\<close>

definition index0 :: "smap \<Rightarrow> string \<Rightarrow> string" where
  "index0 m k = str_or_empty (map_of m k)"

fun getTag :: "csTag list \<Rightarrow> string \<Rightarrow> string option" where
  "getTag [] k = None"
| "getTag (tag # tags) k = (if tag_Key tag = k then Some (tag_Value tag) else getTag tags k)"

fun matchAllTags_loop :: "smap \<Rightarrow> nat \<Rightarrow> csTag list \<Rightarrow> bool" where
  "matchAllTags_loop tags validCount [] = False"
| "matchAllTags_loop tags validCount (tag # csTags) =
     (if index0 tags (tag_Key tag) = tag_Value tag then
        (if validCount + 1 = length tags then True else matchAllTags_loop tags (validCount + 1) csTags)
      else matchAllTags_loop tags validCount csTags)"

definition matchAllTags :: "csTag list \<Rightarrow> smap \<Rightarrow> bool" where
  "matchAllTags csTags tags = matchAllTags_loop tags 0 csTags"

definition shouldManageIP :: "publicIpAddress \<Rightarrow> service \<Rightarrow> bool" where
  "shouldManageIP ip svc =
    list_all (\<lambda>(tagKey, wantedValue). \<not> (getTag (pip_Tags ip) tagKey = None
      \<or> wantedValue \<noteq> str_or_empty (getTag (pip_Tags ip) tagKey))) (tagsForService svc)"

text \<open>The messages for the tags of a rule that are missing or different; the namespace tag is optional.\<close>

definition missingTags :: "csTag list \<Rightarrow> service \<Rightarrow> string list" where
  "missingTags tags svc = List.map_filter (\<lambda>(tagKey, wantedValue).
     let value = getTag tags tagKey in
     if tagKey \<in> {namespaceTag} \<and> value = None then None
     else if value = None \<or> wantedValue \<noteq> str_or_empty value
     then Some (Sprintf ''tag %q: expected: %q, got: %q'' [tagKey, wantedValue, str_or_empty value])
     else None) (tagsForService svc)"

text \<open>\<open>None\<close> is a nil error: the provider manages this load balancer.\<close>

definition shouldManageLB :: "loadBalancer \<Rightarrow> error option" where
  "shouldManageLB lb = (case lb_rule lb of
      None \<Rightarrow> None
    | Some rule \<Rightarrow>
        if getTag (rule_Tags rule) cloudProviderIgnoreTag \<noteq> None then
          Some (Errorf ''should not manage %v, tag %q is set'' [lb_String (Some lb), cloudProviderIgnoreTag])
        else
          let missing = missingTags (rule_Tags rule) (lb_service lb);
              ingresses = svc_Ingress (lb_service lb);
              statusHostname = (case ingresses of [i] \<Rightarrow> ing_Hostname i | _ \<Rightarrow> [])
          in if length missing = 0 then None
             else if length ingresses = 1 \<and> statusHostname = lb_name lb then None
             else Some (Errorf ''should not manage %v - status hostname: %q - missing tags: %s''
                    [lb_String (Some lb), statusHostname, Join (sort missing) '' - '']))"

definition hasMissingTags :: "loadBalancerRule \<Rightarrow> bool" where
  "hasMissingTags rule =
    list_ex (\<lambda>t. t \<notin> tag_Key ` set (rule_Tags rule)) [cloudProviderTag, serviceTag, namespaceTag]"

section \<open>Tagging\<close>

text \<open>The loop body of \<open>setResourceTags\<close>: a tag that exists already is not an error.\<close>

definition createTag ::
  "'w api \<Rightarrow> client \<Rightarrow> string \<Rightarrow> string \<Rightarrow> smap \<Rightarrow> string \<Rightarrow> (('w, 'x) sys_scheme, unit) go" where
  "createTag api c resourceType resourceID tags k =
    (let v = index0 tags k in
     bind (attempt (io (CreateTags c [resourceID] resourceType [(k, v)])
         (api_createTags api c [resourceID] resourceType [(k, v)]))) (\<lambda>r. case r of
       Inl err \<Rightarrow>
         if \<not> Contains (Error err) ''already exist''
         then throw (Wrapf ''error adding tags to %s %s: %v'' [resourceType, resourceID] err)
         else ret ()
     | Inr _ \<Rightarrow> ret ()))"

definition setResourceTags ::
  "'w api \<Rightarrow> CSCloud \<Rightarrow> loadBalancer \<Rightarrow> string \<Rightarrow> string \<Rightarrow> smap \<Rightarrow> (('w, 'x) sys_scheme, unit) go" where
  "setResourceTags api cs lb resourceType resourceID tags =
    bind (lift_sum (getClient cs lb)) (\<lambda>c.
      foreach (sort (map fst tags)) (createTag api c resourceType resourceID tags))"

definition setDefaultTags ::
  "'w api \<Rightarrow> CSCloud \<Rightarrow> loadBalancer \<Rightarrow> string \<Rightarrow> string \<Rightarrow> service \<Rightarrow> (('w, 'x) sys_scheme, unit) go" where
  "setDefaultTags api cs lb resourceType resourceID svc =
    setResourceTags api cs lb resourceType resourceID (tagsForService svc)"

definition assignTagsToRule :: "'w api \<Rightarrow> CSCloud \<Rightarrow> loadBalancer \<Rightarrow> (('w, 'x) sys_scheme, unit) go" where
  "assignTagsToRule api cs lb = (case lb_rule lb of
      None \<Rightarrow> panic ''nil pointer dereference''
    | Some rule \<Rightarrow> setDefaultTags api cs lb CloudstackResourceLoadBalancer (rule_Id rule) (lb_service lb))"

definition assignTagsToIP ::
  "'w api \<Rightarrow> CSCloud \<Rightarrow> loadBalancer \<Rightarrow> cloudstackIP \<Rightarrow> service \<Rightarrow> (('w, 'x) sys_scheme, unit) go" where
  "assignTagsToIP api cs lb ip svc = setDefaultTags api cs lb CloudstackResourceIPAdress (ip_id ip) svc"

section \<open>Lemmas\<close>

lemma index0_tagsForService:
  "index0 (tagsForService svc) k = (if k = cloudProviderTag then ProviderName else if k = serviceTag then svc_Name svc
     else if k = namespaceTag then svc_Namespace svc else [])"
  by (auto simp: index0_def tagsForService_def tag_defs)

lemma matchAllTags_loop_count:
  "n < length tags \<Longrightarrow> matchAllTags_loop tags n cs
    \<longleftrightarrow> length tags \<le> n + length (filter (\<lambda>t. index0 tags (tag_Key t) = tag_Value t) cs)"
  by (induction tags n cs rule: matchAllTags_loop.induct) auto

lemma matchAllTags_count:
  "matchAllTags cs (tagsForService svc)
    \<longleftrightarrow> 3 \<le> length (filter (\<lambda>t. index0 (tagsForService svc) (tag_Key t) = tag_Value t) cs)"
  by (simp add: matchAllTags_def matchAllTags_loop_count tagsForService_def numeral_3_eq_3)

lemma getTag_Some_iff: "distinct (map tag_Key cs) \<Longrightarrow>
    getTag cs k = Some v \<longleftrightarrow> (\<exists>t \<in> set cs. tag_Key t = k \<and> tag_Value t = v)"
  by (induction cs) (auto simp: image_iff)

lemma getTag_None_iff: "getTag cs k = None \<longleftrightarrow> k \<notin> tag_Key ` set cs"
  by (induction cs) auto

lemma shouldManageIP_iff:
  "shouldManageIP ip svc \<longleftrightarrow> getTag (pip_Tags ip) cloudProviderTag = Some ProviderName
    \<and> getTag (pip_Tags ip) serviceTag = Some (svc_Name svc) \<and> getTag (pip_Tags ip) namespaceTag = Some (svc_Namespace svc)"
  by (auto simp: shouldManageIP_def tagsForService_def)

lemma missingTags_Nil_iff:
  "missingTags tags svc = [] \<longleftrightarrow> getTag tags cloudProviderTag = Some ProviderName
    \<and> getTag tags serviceTag = Some (svc_Name svc) \<and> getTag tags namespaceTag \<in> {None, Some (svc_Namespace svc)}"
  by (auto simp: missingTags_def tagsForService_def map_filter_def tag_defs Let_def)

lemma sorted_tag_keys: "sort (map fst (tagsForService svc)) = [cloudProviderTag, namespaceTag, serviceTag]"
proof -
  have "map fst (tagsForService svc) = [''cloudprovider'', ''kubernetes_service'', ''kubernetes_namespace'']"
    by (simp add: tagsForService_def tag_defs)
  moreover have "sort [''cloudprovider'', ''kubernetes_service'', ''kubernetes_namespace'']
      = [''cloudprovider'', ''kubernetes_namespace'', ''kubernetes_service'']"
    by code_simp
  ultimately show ?thesis by (simp only: tag_defs)
qed

text \<open>Tagging makes only tagging calls, all for the given resource.\<close>

definition tags_resource :: "string \<Rightarrow> string \<Rightarrow> call \<Rightarrow> bool" where
  "tags_resource ty rid c \<longleftrightarrow> (\<exists>cl kv. c = CreateTags cl [rid] ty kv)"

lemma keeps_setResourceTags:
  "(\<And>c. tags_resource ty rid c \<Longrightarrow> P c) \<Longrightarrow> keeps (outside_only P) (setResourceTags api cs lb ty rid tags)"
  by (auto simp: setResourceTags_def createTag_def Let_def tags_resource_def intro!: keeps_intros split: sum.splits)

lemmas setTags_defs = setDefaultTags_def assignTagsToRule_def assignTagsToIP_def

text \<open>The calls that tag one resource for a service, in the order they are made.\<close>

definition tagCalls :: "client \<Rightarrow> string \<Rightarrow> string \<Rightarrow> service \<Rightarrow> call list" where
  "tagCalls c ty rid svc = map (\<lambda>kv. CreateTags c [rid] ty [kv])
     [(cloudProviderTag, ProviderName), (namespaceTag, svc_Namespace svc), (serviceTag, svc_Name svc)]"

lemma tagCalls_index:
  "map (\<lambda>k. CreateTags c [rid] ty [(k, index0 (tagsForService svc) k)]) (sort (map fst (tagsForService svc)))
    = tagCalls c ty rid svc"
  by (simp add: sorted_tag_keys tagCalls_def index0_tagsForService tag_defs)

text \<open>A loop whose body makes one call per element makes a prefix of the calls, all of them when it returns.\<close>

lemma foreach_trace:
  assumes body: "\<And>x s r t. f x s = (r, t) \<Longrightarrow> trace t = trace s @ [g x]" and run: "foreach xs f s = (r, t)"
  shows "\<exists>n \<le> length xs. trace t = trace s @ map g (take n xs) \<and> (r = Ret () \<longrightarrow> n = length xs)"
  using run
proof (induction xs arbitrary: s)
  case Nil
  then show ?case by (simp add: ret_def)
next
  case (Cons x xs)
  obtain r1 t1 where x: "f x s = (r1, t1)" by fastforce
  show ?case
  proof (cases "\<exists>u. r1 = Ret u")
    case True
    then have "foreach xs f t1 = (r, t)" using Cons.prems x by (auto simp: bind_def)
    from Cons.IH [OF this] obtain n where "n \<le> length xs" "trace t = trace t1 @ map g (take n xs)"
      "r = Ret () \<longrightarrow> n = length xs" by blast
    then show ?thesis using body [OF x] by (intro exI [of _ "Suc n"]) simp
  next
    case False
    then have "r = r1" "t = t1" using Cons.prems x by (auto simp: bind_def split: outcome.splits)
    with False body [OF x] show ?thesis by (intro exI [of _ 1]) auto
  qed
qed

lemma createTag_trace:
  "createTag api c ty rid tags k s = (r, t) \<Longrightarrow> trace t = trace s @ [CreateTags c [rid] ty [(k, index0 tags k)]]"
  unfolding createTag_def Let_def
  by (erule attempt_io_trace) (simp add: throw_def ret_def split: sum.splits)

lemma createTag_exists:
  assumes "api_createTags api c [rid] ty [(k, index0 tags k)] (world s) = (Inl ''tag already exists'', w)"
  shows "createTag api c ty rid tags k s
    = (Ret (), s\<lparr>world := w, trace := trace s @ [CreateTags c [rid] ty [(k, index0 tags k)]]\<rparr>)"
proof -
  have "Contains ''tag already exists'' ''already exist''" by code_simp
  with assms show ?thesis
    by (simp add: createTag_def Let_def bind_def attempt_def io_def ret_def del: Contains.simps)
qed

lemma createTag_result:
  "createTag api c ty rid tags k s = (r, t) \<Longrightarrow> r = Ret () \<or> (\<exists>e. r = Err e)"
  by (auto simp: createTag_def Let_def bind_def attempt_def io_def throw_def ret_def split: prod.splits sum.splits if_splits)

lemma foreach_result:
  assumes "\<And>x s r t. f x s = (r, t) \<Longrightarrow> r = Ret () \<or> (\<exists>e. r = Err e)"
  shows "foreach xs f s = (r, t) \<Longrightarrow> r = Ret () \<or> (\<exists>e. r = Err e)"
proof (induction xs arbitrary: s)
  case (Cons x xs)
  obtain r1 t1 where x: "f x s = (r1, t1)" by fastforce
  from assms [OF x] x Cons show ?case by (auto simp: bind_def)
qed (simp add: ret_def)

lemma setTags_trace:
  assumes c: "getClient cs lb = Inr c" and run: "setDefaultTags api cs lb ty rid svc s = (r, t)"
  shows "\<exists>n \<le> 3. trace t = trace s @ take n (tagCalls c ty rid svc) \<and> (r = Ret () \<longrightarrow> n = 3)
    \<and> ((\<exists>e. r = Err e) \<or> r = Ret ())"
proof -
  let ?g = "\<lambda>k. CreateTags c [rid] ty [(k, index0 (tagsForService svc) k)]"
  let ?ks = "sort (map fst (tagsForService svc))"
  have loop: "foreach ?ks (createTag api c ty rid (tagsForService svc)) s = (r, t)"
    using run c by (simp add: setDefaultTags_def setResourceTags_def)
  have "\<exists>n \<le> length ?ks. trace t = trace s @ map ?g (take n ?ks) \<and> (r = Ret () \<longrightarrow> n = length ?ks)"
    by (rule foreach_trace [OF createTag_trace loop])
  moreover have "r = Ret () \<or> (\<exists>e. r = Err e)"
    by (rule foreach_result [OF createTag_result loop])
  ultimately show ?thesis
    by (simp add: take_map [symmetric] tagCalls_index) (auto simp: tagsForService_def numeral_3_eq_3)
qed

section \<open>Correctness\<close>

text \<open>
  C30: a rule or address whose tag keys are distinct, and none of whose tags outside the provider's three is
  empty, matches a service exactly when it carries all three tags with the service's values.
\<close>

theorem matchAllTags_exact:
  assumes keys: "distinct (map tag_Key cs)"
    and foreign: "\<And>t. t \<in> set cs \<Longrightarrow> tag_Key t \<notin> {cloudProviderTag, serviceTag, namespaceTag} \<Longrightarrow> tag_Value t \<noteq> []"
  shows "matchAllTags cs (tagsForService svc) \<longleftrightarrow> getTag cs cloudProviderTag = Some ProviderName
    \<and> getTag cs serviceTag = Some (svc_Name svc) \<and> getTag cs namespaceTag = Some (svc_Namespace svc)"
proof -
  let ?K = "{cloudProviderTag, serviceTag, namespaceTag}"
  let ?g = "filter (\<lambda>t. index0 (tagsForService svc) (tag_Key t) = tag_Value t) cs"
  have sub: "tag_Key ` set ?g \<subseteq> ?K"
    using foreign by (fastforce simp: index0_tagsForService split: if_splits)
  have len: "length ?g = card (tag_Key ` set ?g)"
    using keys by (metis distinct_card distinct_map_filter length_map list.set_map)
  have card3: "card ?K = 3" by (simp add: tag_defs)
  have "3 \<le> length ?g \<longleftrightarrow> ?K \<subseteq> tag_Key ` set ?g"
  proof
    assume "3 \<le> length ?g"
    then have "tag_Key ` set ?g = ?K"
      using len card3 by (intro card_seteq [OF _ sub]) simp_all
    then show "?K \<subseteq> tag_Key ` set ?g" by simp
  next
    assume "?K \<subseteq> tag_Key ` set ?g"
    from card_mono [OF _ this] show "3 \<le> length ?g"
      using card3 len by simp
  qed
  also have "\<dots> \<longleftrightarrow> (\<forall>k \<in> ?K. getTag cs k = Some (index0 (tagsForService svc) k))"
  proof -
    have "k \<in> tag_Key ` set ?g \<longleftrightarrow> getTag cs k = Some (index0 (tagsForService svc) k)" for k
      by (auto simp: getTag_Some_iff [OF keys] image_iff)
    then show ?thesis by blast
  qed
  finally show ?thesis
    by (simp add: matchAllTags_count index0_tagsForService tag_defs)
qed

definition sampleTags :: "csTag list" where
  "sampleTags = [\<lparr>tag_Key = ''owner'', tag_Value = ''me''\<rparr>,
     \<lparr>tag_Key = ''kubernetes_service'', tag_Value = ''web''\<rparr>,
     \<lparr>tag_Key = ''kubernetes_namespace'', tag_Value = ''ns1''\<rparr>,
     \<lparr>tag_Key = ''cloudprovider'', tag_Value = ''custom-cloudstack''\<rparr>]"

theorem matchAllTags_exact_witness: "matchAllTags sampleTags (tagsForService sampleService)"
proof -
  have "distinct (map tag_Key sampleTags)"
    "\<And>t. t \<in> set sampleTags \<Longrightarrow> tag_Key t \<notin> {cloudProviderTag, serviceTag, namespaceTag} \<Longrightarrow> tag_Value t \<noteq> []"
    by (auto simp: sampleTags_def tag_defs)
  from matchAllTags_exact [OF this, of sampleService] show ?thesis
    by (simp add: sampleTags_def tag_defs sampleService_def ProviderName_def)
qed

text \<open>
  C31: the side conditions are needed. Three tags of somebody else with empty values match every service,
  because the lookup of an unknown key in the wanted tags is the empty string too.
\<close>

theorem matchAllTags_foreign:
  "\<exists>cs. distinct (map tag_Key cs) \<and> (\<forall>svc. matchAllTags cs (tagsForService svc))
    \<and> getTag cs cloudProviderTag = None \<and> getTag cs serviceTag = None \<and> getTag cs namespaceTag = None"
proof -
  let ?cs = "map (\<lambda>k. \<lparr>tag_Key = k, tag_Value = []\<rparr>) [''a'', ''b'', ''c'']"
  have "matchAllTags ?cs (tagsForService svc)" for svc
    by (simp add: matchAllTags_count index0_tagsForService tag_defs)
  then show ?thesis by (intro exI [of _ ?cs]) (simp add: tag_defs)
qed

text \<open>
  C28: the provider manages a load balancer that has a rule exactly when the rule is not marked to be ignored and
  either carries the provider's and the service's tags (the namespace tag may be absent) or the service's only
  ingress already has the load balancer's name.
\<close>

theorem shouldManageLB_iff:
  "shouldManageLB lb = None \<longleftrightarrow> (case lb_rule lb of
      None \<Rightarrow> True
    | Some rule \<Rightarrow> getTag (rule_Tags rule) cloudProviderIgnoreTag = None
       \<and> ((getTag (rule_Tags rule) cloudProviderTag = Some ProviderName
            \<and> getTag (rule_Tags rule) serviceTag = Some (svc_Name (lb_service lb))
            \<and> getTag (rule_Tags rule) namespaceTag \<in> {None, Some (svc_Namespace (lb_service lb))})
          \<or> (\<exists>i. svc_Ingress (lb_service lb) = [i] \<and> ing_Hostname i = lb_name lb)))"
proof (cases "lb_rule lb")
  case (Some rule)
  have ing: "(length is = 1 \<and> (case is of [i] \<Rightarrow> ing_Hostname i | _ \<Rightarrow> []) = n)
      \<longleftrightarrow> (\<exists>i. is = [i] \<and> ing_Hostname i = n)" for "is" :: "ingress list" and n
    by (cases "is" rule: remdups_adj.cases) auto
  show ?thesis
    using Some missingTags_Nil_iff [of "rule_Tags rule" "lb_service lb"] ing [of "svc_Ingress (lb_service lb)" "lb_name lb"]
    by (simp add: shouldManageLB_def Let_def)
qed (simp add: shouldManageLB_def)

text \<open>
  Tagging a resource makes one call per tag in sorted order, tags only that resource, and returns without
  error only after all three tags were requested.
\<close>

lemma setDefaultTags_calls:
  assumes "getClient cs lb = Inr c" and "setDefaultTags api cs lb ty rid svc s = (r, t)"
  shows "\<exists>n \<le> 3. trace t = trace s @ take n (tagCalls c ty rid svc) \<and> (r = Ret () \<longrightarrow> n = 3)
    \<and> ((\<exists>e. r = Err e) \<or> r = Ret ())"
  by (rule setTags_trace [OF assms])

end
