(* ===== verification/LBRule.thy ===== *)
theory LBRule
  imports Ports Tags
begin

text \<open>
  Load balancer rules in \<open>cloudstack/loadbalancer.go\<close>: finding the rule of a service by name or by tags,
  checking, updating, creating and deleting it, and bringing the hosts and networks behind it in line with the
  nodes of the service. A rule pointer is an optional rule; dereferencing a nil rule panics.
\<close>

section \<open>Finding a rule\<close>

definition setProject :: "string \<Rightarrow> params \<Rightarrow> params" where
  "setProject projectID p = (if projectID \<noteq> [] then SetParam ''projectid'' (PStr projectID) p else p)"

text \<open>
  What both lookups do with the answer: a zero count is no rule; of the rules that satisfy the condition the
  last is kept and all are counted. The loop over the rules reads a field of each, and a nil one panics.
\<close>

fun rule_loop ::
  "(loadBalancerRule \<Rightarrow> bool) \<Rightarrow> loadBalancerRule option list \<Rightarrow> loadBalancerRule option \<Rightarrow> nat
    \<Rightarrow> ('s, loadBalancerRule option \<times> nat) go" where
  "rule_loop wanted [] lbResult n = ret (lbResult, n)"
| "rule_loop wanted (None # rules) lbResult n = panic nilDeref"
| "rule_loop wanted (Some lbRule # rules) lbResult n =
     (if wanted lbRule then rule_loop wanted rules (Some lbRule) (n + 1) else rule_loop wanted rules lbResult n)"

definition uniqueRule ::
  "error \<Rightarrow> (loadBalancerRule \<Rightarrow> bool) \<Rightarrow> int \<times> loadBalancerRule option list \<Rightarrow> ('s, loadBalancerRule option) go" where
  "uniqueRule tooMany wanted result =
    (if fst result = 0 then ret None
     else bind (rule_loop wanted (snd result) None 0) (\<lambda>(lbResult, n).
       if n > 1 then throw tooMany else if n = 0 then ret None else ret lbResult))"

text \<open>The parameters of the two lookups.\<close>

definition nameQuery :: "string \<Rightarrow> string \<Rightarrow> params" where
  "nameQuery lbName projectID = setProject projectID (SetParam ''listall'' (PBool True) (SetParam ''keyword'' (PStr lbName) []))"

definition tagQuery :: "service \<Rightarrow> string \<Rightarrow> params" where
  "tagQuery svc projectID = SetParam ''tags[0].value'' (PStr (index0 (tagsForService svc) serviceTag))
     (SetParam ''tags[0].key'' (PStr serviceTag) (setProject projectID (SetParam ''listall'' (PBool True) [])))"

definition getLoadBalancerRuleByName ::
  "'w api \<Rightarrow> client \<Rightarrow> string \<Rightarrow> string \<Rightarrow> (('w, 'x) sys_scheme, loadBalancerRule option) go" where
  "getLoadBalancerRuleByName api c lbName projectID =
    (let pc = nameQuery lbName projectID in
     bind (io (CustomRequest c ''listLoadBalancerRules'' pc) (req_listLoadBalancerRules api c pc)) (\<lambda>result.
       uniqueRule (Errorf ''lb %q too many rules associated: '' [lbName])
         (\<lambda>lbRule. rule_Name lbRule = lbName) result))"

definition getLoadBalancerByTags ::
  "'w api \<Rightarrow> client \<Rightarrow> service \<Rightarrow> string \<Rightarrow> (('w, 'x) sys_scheme, loadBalancerRule option) go" where
  "getLoadBalancerByTags api c svc projectID =
    (let tags = tagsForService svc;
         pc = tagQuery svc projectID in
     bind (io (CustomRequest c ''listLoadBalancerRules'' pc) (req_listLoadBalancerRules api c pc)) (\<lambda>result.
       uniqueRule (Errorf ''tags with too many rules associated: '' [])
         (\<lambda>lbRule. matchAllTags (rule_Tags lbRule) tags) result))"

definition getLoadBalancerRule ::
  "'w api \<Rightarrow> client \<Rightarrow> service \<Rightarrow> string \<Rightarrow> string \<Rightarrow> (('w, 'x) sys_scheme, loadBalancerRule option) go" where
  "getLoadBalancerRule api c svc lbName projectID =
    bind (getLoadBalancerRuleByName api c lbName projectID) (\<lambda>lb.
      if lb = None then getLoadBalancerByTags api c svc projectID else ret lb)"

definition getLoadBalancer ::
  "'w api \<Rightarrow> CSCloud \<Rightarrow> service \<Rightarrow> string \<Rightarrow> string list \<Rightarrow> (('w, 'x) sys_scheme, loadBalancer) go" where
  "getLoadBalancer api cs svc projectID networkIDs =
    (let environment = environmentForMeta cs (svc_meta svc);
         project = (if projectID = []
           then (case projectForMeta cs (svc_meta svc) environment of Inl _ \<Rightarrow> [] | Inr p \<Rightarrow> p)
           else projectID);
         lb = \<lparr>lb_projectID = project, lb_environment = environment, lb_name = getLoadBalancerName cs svc,
           lb_algorithm = [], mainNetworkID = (case networkIDs of [] \<Rightarrow> [] | n # _ \<Rightarrow> n),
           lb_ip = \<lparr>ip_id = [], ip_address = [], ip_networkid = []\<rparr>, lb_rule = None, lb_service = svc\<rparr>
     in bind (lift_sum (getClient cs lb)) (\<lambda>c.
        bind (wrap_err (Wrapf ''load balancer %s for service %v/%v get rule error: %v''
            [lb_name lb, svc_Namespace svc, svc_Name svc])
          (getLoadBalancerRule api c svc (lb_name lb) project)) (\<lambda>rule.
        ret (case rule of
            None \<Rightarrow> lb
          | Some r \<Rightarrow> lb\<lparr>lb_rule := rule,
              lb_ip := \<lparr>ip_id = rule_Publicipid r, ip_address = rule_Publicip r, ip_networkid = rule_Networkid r\<rparr>,
              mainNetworkID := rule_Networkid r\<rparr>))))"

section \<open>Changing a rule\<close>

text \<open>\<open>f\<close> applied to \<open>lb.rule\<close>.\<close>

definition withRule :: "loadBalancer \<Rightarrow> (loadBalancerRule \<Rightarrow> ('s, 'a) go) \<Rightarrow> ('s, 'a) go" where
  "withRule lb f = (case lb_rule lb of
      None \<Rightarrow> panic nilDeref
    | Some rule \<Rightarrow> f rule)"

definition deleteLoadBalancerRule ::
  "'w api \<Rightarrow> CSCloud \<Rightarrow> loadBalancer \<Rightarrow> (('w, 'x) sys_scheme, loadBalancer) go" where
  "deleteLoadBalancerRule api cs lb =
    bind (lift_sum (getClient cs lb)) (\<lambda>c.
    withRule lb (\<lambda>rule.
      let cmd = (if DeleteLBRule (Command (config cs)) = [] then ''deleteLoadBalancerRule''
            else DeleteLBRule (Command (config cs)));
          p = fold (\<lambda>(k, v). SetParam k (PStr v)) (ToMap (map_of (CommandArgs (config cs)) cmd))
            (SetParam ''id'' (PStr (rule_Id rule)) [])
      in bind (wrap_err (Wrapf ''error deleting load balancer rule %v: %v'' [lb_String (Some lb)])
            (io (CustomRequest c cmd p) (req_job api c cmd p))) (\<lambda>jobID.
         bind (if jobID \<noteq> [] then waitJob_nil api c jobID else ret ()) (\<lambda>_.
         ret (lb\<lparr>lb_rule := None\<rparr>)))))"

record checkLBResult =
  needsTags :: bool
  needsUpdate :: bool
  exists_rule :: bool

definition checkLoadBalancerRule ::
  "'w api \<Rightarrow> CSCloud \<Rightarrow> loadBalancer \<Rightarrow> (('w, 'x) sys_scheme, checkLBResult \<times> loadBalancer) go" where
  "checkLoadBalancerRule api cs lb =
    (let result = \<lparr>needsTags = False, needsUpdate = False, exists_rule = False\<rparr> in
     case lb_rule lb of
       None \<Rightarrow> ret (result, lb)
     | Some rule \<Rightarrow>
         bind (serviceToLBPorts api lb) (\<lambda>(lb1, newPorts).
           let (portsEqual, rule1) = comparePorts newPorts rule;
               lb2 = lb1\<lparr>lb_rule := Some rule1\<rparr>
           in if portsEqual \<and> lb_name lb2 = rule_Name rule1 then
                ret (\<lparr>needsTags = hasMissingTags rule1, needsUpdate = (rule_Algorithm rule1 \<noteq> lb_algorithm lb2),
                  exists_rule = True\<rparr>, lb2)
              else
                bind (deleteLoadBalancerRule api cs lb2) (\<lambda>lb3. ret (result, lb3))))"

definition updateLoadBalancerRule :: "'w api \<Rightarrow> CSCloud \<Rightarrow> loadBalancer \<Rightarrow> (('w, 'x) sys_scheme, unit) go" where
  "updateLoadBalancerRule api cs lb =
    bind (lift_sum (getClient cs lb)) (\<lambda>c.
    withRule lb (\<lambda>rule.
      wrap_err (Wrapf ''unable to update load balancer %v: %v'' [lb_String (Some lb)])
        (io (UpdateLoadBalancerRule c (rule_Id rule) (lb_algorithm lb))
          (api_updateRule api c (rule_Id rule) (lb_algorithm lb)))))"

definition createRuleParams :: "loadBalancer \<Rightarrow> lbPorts \<Rightarrow> params" where
  "createRuleParams lb ps =
    (let p1 = SetParam ''protocol'' (PStr (protocol ps))
           (SetParam ''publicipid'' (PStr (ip_id (lb_ip lb)))
           (SetParam ''networkid'' (PStr (mainNetworkID lb))
           (SetParam ''publicport'' (PInt (publicPort ps))
           (SetParam ''privateport'' (PInt (privatePort ps))
           (SetParam ''name'' (PStr (lb_name lb))
           (SetParam ''algorithm'' (PStr (lb_algorithm lb)) []))))));
         additional = additionalPorts ps;
         p2 = (if length additional > 0 then SetParam ''additionalportmap'' (PStr (Join additional '','')) p1 else p1);
         p3 = SetParam ''openfirewall'' (PBool False) p2
     in setExtraParams (lb_service lb) createLoadBalancerExtraParamPrefix p3)"

text \<open>Only the listed fields of the response are copied into the new rule.\<close>

definition createLoadBalancerRule ::
  "'w api \<Rightarrow> CSCloud \<Rightarrow> loadBalancer \<Rightarrow> (('w, 'x) sys_scheme, loadBalancerRule \<times> loadBalancer) go" where
  "createLoadBalancerRule api cs lb =
    bind (lift_sum (getClient cs lb)) (\<lambda>c.
    bind (serviceToLBPorts api lb) (\<lambda>(lb1, ps).
      let p = createRuleParams lb1 ps in
      bind (wrap_err (Wrapf ''error creating load balancer rule for %v: %v'' [lb_String (Some lb1)])
        (io (CustomRequest c ''createLoadBalancerRule'' p) (req_createRule api c p))) (\<lambda>r.
      bind (if cr_JobID r \<noteq> [] then
            wrap_err (Wrapf ''error waiting for load balancer rule job for %v: %v'' [lb_String (Some lb1)])
              (waitJob api c (cr_JobID r) (unmarshal_createRule api) r)
          else ret r) (\<lambda>r1.
      ret ((cr_Rule r1)\<lparr>rule_Tags := [], AdditionalPortMap := []\<rparr>, lb1)))))"

section \<open>Hosts and networks\<close>

fun symdiff_loop :: "string list \<Rightarrow> virtualMachine list \<Rightarrow> string list \<times> string list" where
  "symdiff_loop new [] = (new, [])"
| "symdiff_loop new (instance_vm # lbInstances) =
     (if vm_Id instance_vm \<in> set new then symdiff_loop (removeAll (vm_Id instance_vm) new) lbInstances
      else (let (assign, remove) = symdiff_loop new lbInstances in (assign, vm_Id instance_vm # remove)))"

text \<open>The IDs to assign and the IDs to remove; the former in the order the set is ranged over.\<close>

definition symmetricDifference :: "string list \<Rightarrow> virtualMachine list \<Rightarrow> string list \<times> string list" where
  "symmetricDifference hostIDs lbInstances = symdiff_loop (remdups hostIDs) lbInstances"

definition assignHostsToRule ::
  "'w api \<Rightarrow> CSCloud \<Rightarrow> loadBalancer \<Rightarrow> string list \<Rightarrow> (('w, 'x) sys_scheme, unit) go" where
  "assignHostsToRule api cs lb hostIDs =
    bind (lift_sum (getClient cs lb)) (\<lambda>c.
    withRule lb (\<lambda>rule.
      wrap_err (Wrapf ''error assigning hosts to %v: %v'' [lb_String (Some lb)])
        (io (AssignToLoadBalancerRule c (rule_Id rule) hostIDs) (api_assignHosts api c (rule_Id rule) hostIDs))))"

definition removeHostsFromRule ::
  "'w api \<Rightarrow> CSCloud \<Rightarrow> loadBalancer \<Rightarrow> string list \<Rightarrow> (('w, 'x) sys_scheme, unit) go" where
  "removeHostsFromRule api cs lb hostIDs =
    bind (lift_sum (getClient cs lb)) (\<lambda>c.
    withRule lb (\<lambda>rule.
      wrap_err (Wrapf ''error removing hosts from %v: %v'' [lb_String (Some lb)])
        (io (RemoveFromLoadBalancerRule c (rule_Id rule) hostIDs) (api_removeHosts api c (rule_Id rule) hostIDs))))"

text \<open>A job that fails because the network is mapped already is not an error.\<close>

definition assignNetworkToRule ::
  "'w api \<Rightarrow> CSCloud \<Rightarrow> loadBalancer \<Rightarrow> string \<Rightarrow> (('w, 'x) sys_scheme, unit) go" where
  "assignNetworkToRule api cs lb networkID =
    withRule lb (\<lambda>rule.
      let cmd = AssignNetworks (Command (config cs));
          p = SetParam ''networkids'' (PList [networkID]) (SetParam ''id'' (PStr (rule_Id rule))
            (setProject (lb_projectID lb) []))
      in bind (lift_sum (getClient cs lb)) (\<lambda>c.
         bind (wrap_err (Wrapf ''error assigning networks to %v using cmd %q: %v '' [lb_String (Some lb), cmd])
           (io (CustomRequest c cmd p) (req_job api c cmd p))) (\<lambda>jobID.
         if jobID = [] then ret ()
         else
           bind (attempt (waitJob_nil api c jobID)) (\<lambda>r. case r of
             Inl err \<Rightarrow> if \<not> Contains (Error err) ''is already mapped'' then throw err else ret ()
           | Inr _ \<Rightarrow> ret ()))))"

definition assignNetworksToRule ::
  "'w api \<Rightarrow> CSCloud \<Rightarrow> loadBalancer \<Rightarrow> string list \<Rightarrow> (('w, 'x) sys_scheme, unit) go" where
  "assignNetworksToRule api cs lb networkIDs =
    (if AssignNetworks (Command (config cs)) = [] then ret ()
     else foreach networkIDs (assignNetworkToRule api cs lb))"

definition syncNodes ::
  "'w api \<Rightarrow> CSCloud \<Rightarrow> loadBalancer \<Rightarrow> string list \<Rightarrow> string list \<Rightarrow> (('w, 'x) sys_scheme, unit) go" where
  "syncNodes api cs lb hostIDs networkIDs =
    bind (lift_sum (getClient cs lb)) (\<lambda>c.
    withRule lb (\<lambda>rule.
      bind (wrap_err (Wrapf ''error retrieving associated instances: %v'' [])
        (listAllLBInstancesPages api c (rule_Id rule))) (\<lambda>vms.
      let (assign, remove) = symmetricDifference hostIDs vms in
      bind (if length assign > 0 then
            bind (assignNetworksToRule api cs lb networkIDs) (\<lambda>_. assignHostsToRule api cs lb assign)
          else ret ()) (\<lambda>_.
      if length remove > 0 then removeHostsFromRule api cs lb remove else ret ()))))"

section \<open>Lemmas\<close>

lemma keeps_withRule: "(\<And>rule. lb_rule lb = Some rule \<Longrightarrow> keeps (outside_only P) (f rule)) \<Longrightarrow> keeps (outside_only P) (withRule lb f)"
  by (auto simp: withRule_def intro!: keeps_intros split: option.splits)

lemmas find_defs = getLoadBalancerRuleByName_def getLoadBalancerByTags_def getLoadBalancerRule_def

lemma uniqueRule_run:
  "uniqueRule e w (n, rs) s = (if n = 0 then Ret None else if None \<in> set rs then Panic nilDeref
     else (case filter w (map the rs) of [] \<Rightarrow> Ret None | [r] \<Rightarrow> Ret (Some r) | _ \<Rightarrow> Err e), s)"
proof -
  have loop: "rule_loop w rs res k s = (if None \<in> set rs then Panic nilDeref
      else Ret (if filter w (map the rs) = [] then res else Some (last (filter w (map the rs))), k + length (filter w (map the rs))), s)"
    for res k
    by (induction w rs res k rule: rule_loop.induct) (auto simp: go_simps)
  show ?thesis
    by (cases "filter w (map the rs)" rule: remdups_adj.cases) (auto simp: uniqueRule_def loop go_simps)
qed

lemma keeps_uniqueRule [keeps_intros]: "keeps (outside_only P) (uniqueRule e w ans)"
  by (cases ans) (simp add: keeps_def uniqueRule_run outside.R_refl)

lemma keeps_getLoadBalancerRule [keeps_intros]: "keeps (outside_only read_only) (getLoadBalancerRule api c svc n p)"
  by (auto simp: find_defs Let_def intro!: keeps_intros)

lemma keeps_getLoadBalancer [keeps_intros]: "keeps (outside_only read_only) (getLoadBalancer api cs svc p ns)"
  by (auto simp: getLoadBalancer_def Let_def intro!: keeps_intros)

lemma getLoadBalancer_Ret:
  assumes "getLoadBalancer api cs svc p ns s = (Ret lb, t)"
  shows "lb_service lb = svc \<and> lb_environment lb = environmentForMeta cs (svc_meta svc)
    \<and> lb_name lb = getLoadBalancerName cs svc \<and> (\<exists>c. getClient cs lb = Inr c)
    \<and> (\<forall>r. lb_rule lb = Some r \<longrightarrow> lb_ip lb = \<lparr>ip_id = rule_Publicipid r, ip_address = rule_Publicip r,
        ip_networkid = rule_Networkid r\<rparr> \<and> mainNetworkID lb = rule_Networkid r)"
  using assms unfolding getLoadBalancer_def Let_def
  by (elim bind_RetE) (auto simp: lift_sum_def getClient_def throw_def ret_def split: sum.splits option.splits)

subsection \<open>The unique rule of an answer\<close>

lemma whole_list: "None \<notin> set rs \<Longrightarrow> rs = map Some (map the rs)"
  by (induction rs) auto

lemma uniqueRule_Some:
  assumes "uniqueRule e w (n, rs) s = (Ret (Some r), t)"
  shows "n \<noteq> 0 \<and> t = s \<and> (\<exists>found. rs = map Some found \<and> filter w found = [r])"
  using assms whole_list [of rs] by (auto simp: uniqueRule_run simp del: map_map intro!: exI [of _ "map the rs"] split: if_splits list.splits)

lemma uniqueRule_None:
  assumes "uniqueRule e w (n, rs) s = (Ret None, t)"
  shows "t = s \<and> (n = 0 \<or> (\<exists>found. rs = map Some found \<and> filter w found = []))"
  using assms whole_list [of rs] by (auto simp: uniqueRule_run simp del: map_map intro!: exI [of _ "map the rs"] split: if_splits list.splits)

subsection \<open>Host differences\<close>

lemma symdiff_loop_sets:
  assumes "distinct new" "distinct (map vm_Id vms)" "symdiff_loop new vms = (assign, remove)"
  shows "distinct assign \<and> distinct remove \<and> set assign = set new - vm_Id ` set vms
    \<and> set remove = vm_Id ` set vms - set new"
  using assms
proof (induction new vms arbitrary: assign remove rule: symdiff_loop.induct)
  case (2 new vm vms)
  show ?case
  proof (cases "vm_Id vm \<in> set new")
    case True
    define I where "I = vm_Id ` set vms"
    have "distinct assign \<and> distinct remove \<and> set assign = set new - {vm_Id vm} - I
        \<and> set remove = I - (set new - {vm_Id vm})" "vm_Id vm \<notin> I"
      using True "2.IH"(1) [of assign remove] "2.prems" by (simp_all add: distinct_removeAll I_def)
    with True show ?thesis by (simp only: list.set image_insert I_def [symmetric]) blast
  next
    case False
    then obtain r where "symdiff_loop new vms = (assign, r)" "remove = vm_Id vm # r"
      using "2.prems"(3) by (auto split: prod.splits)
    then show ?thesis using "2.IH"(2) [of assign r] "2.prems" False by auto
  qed
qed auto

lemma symmetricDifference_sets:
  assumes "distinct (map vm_Id vms)" "symmetricDifference hosts vms = (assign, remove)"
  shows "distinct assign" "distinct remove" "set assign = set hosts - vm_Id ` set vms"
    "set remove = vm_Id ` set vms - set hosts"
  using symdiff_loop_sets [of "remdups hosts" vms assign remove] assms by (auto simp: symmetricDifference_def)

section \<open>The contract of host assignment\<close>

text \<open>
  What bringing the hosts of a rule in line relies on: listing the instances of a rule returns all of them and
  changes nothing, assigning adds and removing removes exactly the given ones, and assigning networks leaves the
  hosts alone. \<open>hosts w rid\<close> are the instances behind rule \<open>rid\<close>; \<open>ok\<close> is what the service needs of a request.
\<close>

locale host_store =
  fixes api :: "'w api" and c :: client and cs :: CSCloud
    and hosts :: "'w \<Rightarrow> string \<Rightarrow> string set" and ok :: "string list \<Rightarrow> bool"
  assumes list_hosts: "\<exists>vms t. listAllLBInstancesPages api c rid (s :: ('w, 'x) sys_scheme) = (Ret vms, t)
      \<and> hosts (world t) = hosts (world s) \<and> distinct (map vm_Id vms) \<and> vm_Id ` set vms = hosts (world s) rid"
    and assign_hosts: "ok ids \<Longrightarrow> \<exists>w'. api_assignHosts api c rid ids w = (Inr (), w')
      \<and> hosts w' = (hosts w)(rid := hosts w rid \<union> set ids)"
    and remove_hosts: "ok ids \<Longrightarrow> \<exists>w'. api_removeHosts api c rid ids w = (Inr (), w')
      \<and> hosts w' = (hosts w)(rid := hosts w rid - set ids)"
    and assign_networks: "getClient cs lb = Inr c \<Longrightarrow> lb_rule lb = Some rule \<Longrightarrow>
      \<exists>t. assignNetworksToRule api cs lb ns (s :: ('w, 'x) sys_scheme) = (Ret (), t) \<and> hosts (world t) = hosts (world s)"
    and ok_subset: "ok ids \<Longrightarrow> set ids' \<subseteq> set ids \<Longrightarrow> ok ids'"
begin

lemma assignHosts_run:
  assumes "getClient cs lb = Inr c" "lb_rule lb = Some rule" "ok ids"
  shows "\<exists>t. assignHostsToRule api cs lb ids s = (Ret (), t)
    \<and> hosts (world t) = (hosts (world s))(rule_Id rule := hosts (world s) (rule_Id rule) \<union> set ids)"
  using assign_hosts [OF assms(3), of "rule_Id rule" "world s"] assms(1,2)
  by (auto simp: assignHostsToRule_def withRule_def io_def)

lemma removeHosts_run:
  assumes "getClient cs lb = Inr c" "lb_rule lb = Some rule" "ok ids"
  shows "\<exists>t. removeHostsFromRule api cs lb ids s = (Ret (), t)
    \<and> hosts (world t) = (hosts (world s))(rule_Id rule := hosts (world s) (rule_Id rule) - set ids)"
  using remove_hosts [OF assms(3), of "rule_Id rule" "world s"] assms(1,2)
  by (auto simp: removeHostsFromRule_def withRule_def io_def)

text \<open>One run brings the hosts of the rule to exactly the wanted ones and leaves the other rules alone.\<close>

lemma syncNodes_converges:
  fixes s :: "('w, 'x) sys_scheme"
  assumes c: "getClient cs lb = Inr c" and rule: "lb_rule lb = Some rule" and okw: "ok wanted"
    and oks: "ok (sorted_list_of_set (hosts (world s) (rule_Id rule)))"
  shows "\<exists>t. syncNodes api cs lb wanted ns s = (Ret (), t)
    \<and> hosts (world t) = (hosts (world s))(rule_Id rule := set wanted)"
proof -
  let ?rid = "rule_Id rule" and ?h = "hosts (world s)"
  obtain vms t1 where l: "listAllLBInstancesPages api c ?rid s = (Ret vms, t1)" "hosts (world t1) = ?h"
    "distinct (map vm_Id vms)" "vm_Id ` set vms = ?h ?rid"
    using list_hosts by blast
  obtain assign remove where d: "symmetricDifference wanted vms = (assign, remove)" by fastforce
  note sets = symmetricDifference_sets [OF l(3) d, unfolded l(4)]
  have fin: "finite (?h ?rid)" using l(4) by (metis List.finite_set finite_imageI)
  have oka: "ok assign" using okw sets(3) by (auto intro: ok_subset)
  have okr: "ok remove" using oks sets(4) fin by (auto intro: ok_subset)
  define m1 :: "(('w, 'x) sys_scheme, unit) go" where "m1 = (if length assign > 0 then
      bind (assignNetworksToRule api cs lb ns) (\<lambda>_. assignHostsToRule api cs lb assign) else ret ())"
  have "\<exists>t2. m1 t1 = (Ret (), t2) \<and> hosts (world t2) = ?h(?rid := ?h ?rid \<union> set assign)"
  proof (cases "length assign > 0")
    case True
    obtain u where u: "assignNetworksToRule api cs lb ns t1 = (Ret (), u)" "hosts (world u) = hosts (world t1)"
      using assign_networks [OF c rule] by blast
    with assignHosts_run [OF c rule oka, of u] True l(2) show ?thesis by (auto simp: m1_def bind_def)
  qed (simp add: m1_def ret_def l(2))
  then obtain t2 where t2: "m1 t1 = (Ret (), t2)" "hosts (world t2) = ?h(?rid := ?h ?rid \<union> set assign)" by blast
  define m2 :: "(('w, 'x) sys_scheme, unit) go" where "m2 = (if length remove > 0 then removeHostsFromRule api cs lb remove else ret ())"
  have "\<exists>t3. m2 t2 = (Ret (), t3) \<and> hosts (world t3) = ?h(?rid := ?h ?rid \<union> set assign - set remove)"
    using removeHosts_run [OF c rule okr, of t2] t2(2) by (auto simp: m2_def ret_def)
  moreover have "?h ?rid \<union> set assign - set remove = set wanted" using sets(3,4) by blast
  moreover have "syncNodes api cs lb wanted ns s = m2 t2"
    using c rule l(1) d t2(1) by (simp add: syncNodes_def withRule_def go_simps m1_def m2_def)
  ultimately show ?thesis by simp
qed

text \<open>Nothing is assigned or removed when the hosts are the wanted ones already.\<close>

lemma syncNodes_idle:
  fixes s :: "('w, 'x) sys_scheme"
  assumes c: "getClient cs lb = Inr c" and rule: "lb_rule lb = Some rule"
    and eq: "hosts (world s) (rule_Id rule) = set wanted"
  shows "\<exists>t vms. syncNodes api cs lb wanted ns s = (Ret (), t)
    \<and> listAllLBInstancesPages api c (rule_Id rule) s = (Ret vms, t)"
proof -
  obtain vms t1 where l: "listAllLBInstancesPages api c (rule_Id rule) s = (Ret vms, t1)"
    "distinct (map vm_Id vms)" "vm_Id ` set vms = set wanted"
    using list_hosts [of "rule_Id rule" s] eq by auto
  obtain assign remove where d: "symmetricDifference wanted vms = (assign, remove)" by fastforce
  have "assign = []" "remove = []"
    using symmetricDifference_sets [OF l(2) d] l(3) by auto
  then show ?thesis using c rule l(1) d
    by (auto simp: syncNodes_def withRule_def go_simps)
qed

end

text \<open>The fake server keeps that contract for IDs that are not empty and have no comma.\<close>

definition plainIDs :: "string list \<Rightarrow> bool" where
  "plainIDs ids \<longleftrightarrow> (\<forall>x \<in> set ids. x \<noteq> [] \<and> CHR '','' \<notin> set x)"

lemma fake_host_store:
  assumes "AssignNetworks (Command (config cs)) = []"
  shows "host_store TYPE('x) fakeAPI c cs ruleHosts plainIDs"
proof (unfold_locales, goal_cases)
  case (1 rid s)
  then show ?case
    using fake_instances.listAllPages_all [where ID = vm_Id and s = s and c = c and rid = rid]
    by (auto simp: listAllLBInstancesPages_def ruleHosts_def fun_eq_iff dedup_ids)
next
  case (2 ids rid w)
  then show ?case by (simp add: fake_assign plainIDs_def)
next
  case (3 ids rid w)
  then show ?case by (simp add: fake_remove plainIDs_def)
next
  case (4 lb rule ns s)
  then show ?case by (simp add: assignNetworksToRule_def assms ret_def)
next
  case (5 ids ids')
  then show ?case by (auto simp: plainIDs_def)
qed

interpretation fake_hosts: host_store fakeAPI c sampleCloud ruleHosts plainIDs
  by (rule fake_host_store) (simp add: sample_defs)

section \<open>Results of the rule operations\<close>

lemma listAllLBInstancesPages_distinct:
  "listAllLBInstancesPages api c rid s = (Ret vms, t) \<Longrightarrow> distinct (map vm_Id vms)"
  by (auto simp: listAllLBInstancesPages_def listAllPagesUnsafe_def dedup_ids split: option.splits prod.splits outcome.splits)

lemma deleteLoadBalancerRule_Ret:
  "deleteLoadBalancerRule api cs lb s = (Ret lb1, t) \<Longrightarrow> lb1 = lb\<lparr>lb_rule := None\<rparr>"
  unfolding deleteLoadBalancerRule_def withRule_def Let_def
  by (auto simp: panic_def ret_def elim!: bind_RetE split: option.splits)

lemma serviceToLBPorts_Ret:
  "serviceToLBPorts api lb s = (Ret (lb1, ps), t) \<Longrightarrow>
    lb1 = lb\<lparr>lb_service := (lb_service lb)\<lparr>svc_Ports := sortPorts (svc_Ports (lb_service lb))\<rparr>\<rparr>"
  unfolding serviceToLBPorts_def Let_def
  by (auto simp: throw_def ret_def elim!: bind_RetE split: if_splits)

text \<open>
  After a check the rule exists exactly when the load balancer still has one, and nothing is left to do for a rule
  that does not exist. Of the load balancer only the rule and the order of the service's ports can have changed.
\<close>

lemma checkLoadBalancerRule_Ret:
  assumes "checkLoadBalancerRule api cs lb s = (Ret (res, lb1), t)"
  shows "(exists_rule res \<longleftrightarrow> lb_rule lb1 \<noteq> None) \<and> (needsTags res \<or> needsUpdate res \<longrightarrow> exists_rule res)
    \<and> lb1\<lparr>lb_rule := lb_rule lb, lb_service := lb_service lb\<rparr> = lb
    \<and> (lb_service lb1)\<lparr>svc_Ports := svc_Ports (lb_service lb)\<rparr> = lb_service lb"
proof (cases "lb_rule lb")
  case None
  have "res = \<lparr>needsTags = False, needsUpdate = False, exists_rule = False\<rparr>" "lb1 = lb"
    using assms None by (simp_all add: checkLoadBalancerRule_def ret_def Let_def)
  then show ?thesis using None by simp
next
  case (Some rule)
  obtain lb2 ps t1 where sp: "serviceToLBPorts api lb s = (Ret (lb2, ps), t1)"
    using assms Some by (auto simp: checkLoadBalancerRule_def elim!: bind_RetE)
  note lb2 = serviceToLBPorts_Ret [OF sp]
  obtain eq rule1 where cmp: "comparePorts ps rule = (eq, rule1)" by fastforce
  show ?thesis
  proof (cases "eq \<and> lb_name lb2 = rule_Name rule1")
    case True
    then have "lb1 = lb2\<lparr>lb_rule := Some rule1\<rparr>" "exists_rule res"
      using assms Some sp cmp by (auto simp: checkLoadBalancerRule_def bind_def ret_def)
    with lb2 show ?thesis by auto
  next
    case False
    then obtain lb3 where del: "deleteLoadBalancerRule api cs (lb2\<lparr>lb_rule := Some rule1\<rparr>) t1 = (Ret lb3, t)"
      "lb1 = lb3" "res = \<lparr>needsTags = False, needsUpdate = False, exists_rule = False\<rparr>"
      using assms Some sp cmp by (auto simp: checkLoadBalancerRule_def bind_def ret_def split: prod.splits outcome.splits)
    from deleteLoadBalancerRule_Ret [OF del(1)] del lb2 show ?thesis by auto
  qed
qed

lemma createLoadBalancerRule_Ret:
  "createLoadBalancerRule api cs lb s = (Ret (rule, lb1), t) \<Longrightarrow> rule_Tags rule = []
    \<and> lb1 = lb\<lparr>lb_service := (lb_service lb)\<lparr>svc_Ports := sortPorts (svc_Ports (lb_service lb))\<rparr>\<rparr>"
  unfolding createLoadBalancerRule_def Let_def
  by (auto simp: ret_def dest: serviceToLBPorts_Ret elim!: bind_RetE)

section \<open>Correctness\<close>

text \<open>
  The hosts to assign are the wanted hosts that are not behind the rule yet, the hosts to remove are those behind
  it that are not wanted, each once.
\<close>

lemma symmetricDifference_exact:
  assumes "distinct (map vm_Id vms)"
  shows "case symmetricDifference hostIDs vms of (assign, remove) \<Rightarrow>
      set assign = set hostIDs - vm_Id ` set vms \<and> set remove = vm_Id ` set vms - set hostIDs
      \<and> distinct assign \<and> distinct remove"
  using symmetricDifference_sets [OF assms] by (auto split: prod.splits)

text \<open>
  C22: against a server that keeps the hosts of a rule, and with no command for networks configured, one synchronisation ends without error and leaves exactly the
  wanted hosts behind the rule, whatever was there before, and leaves every other rule alone.
\<close>

theorem syncNodes_reaches_wanted:
  assumes "AssignNetworks (Command (config cs)) = []" "getClient cs lb = Inr c" "lb_rule lb = Some rule" "plainIDs wanted"
    "plainIDs (sorted_list_of_set (ruleHosts (world s) (rule_Id rule)))"
  shows "\<exists>t. syncNodes fakeAPI cs lb wanted ns s = (Ret (), t)
    \<and> ruleHosts (world t) = (ruleHosts (world s))(rule_Id rule := set wanted)"
  by (rule host_store.syncNodes_converges [OF fake_host_store [OF assms(1)] assms(2-5)])

theorem syncNodes_reaches_wanted_witness:
  "\<exists>t. syncNodes fakeAPI sampleCloud (sampleLB\<lparr>lb_rule := Some sampleRule\<rparr>) [''vm1'', ''vm2''] []
      \<lparr>world = NewCloudstackServer\<lparr>srv_vms := [(''lbrule-1'', [blankVM\<lparr>vm_Id := ''vm3''\<rparr>])]\<rparr>, trace = []\<rparr> = (Ret (), t)
    \<and> ruleHosts (world t) ''lbrule-1'' = {''vm1'', ''vm2''}"
proof -
  let ?w = "NewCloudstackServer\<lparr>srv_vms := [(''lbrule-1'', [blankVM\<lparr>vm_Id := ''vm3''\<rparr>])]\<rparr>"
  have "getClient sampleCloud (sampleLB\<lparr>lb_rule := Some sampleRule\<rparr>) = Inr sampleClient"
    using sampleLB_client by (simp add: getClient_def)
  moreover have "plainIDs (sorted_list_of_set (ruleHosts ?w ''lbrule-1''))" "plainIDs [''vm1'', ''vm2'']"
    by (simp_all add: plainIDs_def ruleHosts_def get_list_def)
  moreover have "rule_Id sampleRule = ''lbrule-1''" by (simp add: sampleRule_def)
  moreover have "AssignNetworks (Command (config sampleCloud)) = []" by (simp add: sample_defs)
  ultimately show ?thesis
    using syncNodes_reaches_wanted [where cs = sampleCloud and lb = "sampleLB\<lparr>lb_rule := Some sampleRule\<rparr>" and rule = sampleRule
        and s = "\<lparr>world = ?w, trace = []\<rparr>" and wanted = "[''vm1'', ''vm2'']" and ns = "[]"] by auto
qed

text \<open>
  A synchronisation that returns without error has requested exactly the difference: one assignment with the
  missing hosts if there are any, then one removal with the superfluous hosts if there are any, and nothing else
  (when no command for networks is configured).
\<close>

lemma syncNodes_calls:
  assumes c: "getClient cs lb = Inr c" and rule: "lb_rule lb = Some rule"
    and nets: "AssignNetworks (Command (config cs)) = []"
    and l: "listAllLBInstancesPages api c (rule_Id rule) s = (Ret vms, s1)"
    and run: "syncNodes api cs lb hostIDs networkIDs s = (Ret (), t)"
  shows "\<exists>assign remove. set assign = set hostIDs - vm_Id ` set vms \<and> set remove = vm_Id ` set vms - set hostIDs
    \<and> trace t = trace s1 @ (if assign = [] then [] else [AssignToLoadBalancerRule c (rule_Id rule) assign])
        @ (if remove = [] then [] else [RemoveFromLoadBalancerRule c (rule_Id rule) remove])"
proof -
  obtain assign remove where d: "symmetricDifference hostIDs vms = (assign, remove)" by fastforce
  note sets = symmetricDifference_sets [OF listAllLBInstancesPages_distinct [OF l] d]
  have io_tr: "trace v = trace u @ [k]" if "io k f u = (Ret x, v)" for k f x and u v :: "('a, 'b) sys_scheme"
    using that by (cases rule: io_cases [where f = f and s = u and c = k]) auto
  have "trace t = trace s1 @ (if assign = [] then [] else [AssignToLoadBalancerRule c (rule_Id rule) assign])
      @ (if remove = [] then [] else [RemoveFromLoadBalancerRule c (rule_Id rule) remove])"
    using run c rule nets l d
    by (auto simp: syncNodes_def withRule_def go_simps assignNetworksToRule_def assignHostsToRule_def
        removeHostsFromRule_def ret_def dest!: io_tr elim!: bind_RetE split: if_splits)
  then show ?thesis using sets(3,4) by blast
qed

text \<open>
  C29: a rule found for a service is unique in the answer it was taken from. The run asks once by name; when the answer
  holds rules with that name it holds exactly one, which is the result, and nothing else is asked. Otherwise, and only
  then, the run asks by the service's tag, and the result is the only rule of that second answer with all the
  service's tags. The answers are those of this run, to the queries it sent, and no rule in them is nil.
\<close>

theorem getLoadBalancerRule_unique:
  assumes run: "getLoadBalancerRule api c svc lbName projectID s = (Ret (Some rule), t)"
  shows "\<exists>n1 rules1 w1. req_listLoadBalancerRules api c (nameQuery lbName projectID) (world s) = (Inr (n1, rules1), w1)
    \<and> ((\<exists>found. n1 \<noteq> 0 \<and> rules1 = map Some found \<and> filter (\<lambda>r. rule_Name r = lbName) found = [rule]
          \<and> world t = w1 \<and> trace t = trace s @ [CustomRequest c ''listLoadBalancerRules'' (nameQuery lbName projectID)])
      \<or> ((n1 = 0 \<or> (\<exists>found. rules1 = map Some found \<and> filter (\<lambda>r. rule_Name r = lbName) found = []))
          \<and> (\<exists>n2 found w2. n2 \<noteq> 0
              \<and> req_listLoadBalancerRules api c (tagQuery svc projectID) w1 = (Inr (n2, map Some found), w2)
              \<and> filter (\<lambda>r. matchAllTags (rule_Tags r) (tagsForService svc)) found = [rule]
              \<and> world t = w2 \<and> trace t = trace s @ [CustomRequest c ''listLoadBalancerRules'' (nameQuery lbName projectID),
                  CustomRequest c ''listLoadBalancerRules'' (tagQuery svc projectID)])))"
proof -
  obtain r1 t1 where n: "getLoadBalancerRuleByName api c lbName projectID s = (Ret r1, t1)"
    and rest: "(if r1 = None then getLoadBalancerByTags api c svc projectID else ret r1) t1 = (Ret (Some rule), t)"
    using run unfolding getLoadBalancerRule_def by (rule bind_RetE)
  let ?q1 = "nameQuery lbName projectID" and ?q2 = "tagQuery svc projectID"
  obtain n1 rs1 w1 where a1: "req_listLoadBalancerRules api c ?q1 (world s) = (Inr (n1, rs1), w1)"
    and u1: "uniqueRule (Errorf ''lb %q too many rules associated: '' [lbName]) (\<lambda>r. rule_Name r = lbName) (n1, rs1)
      (s\<lparr>world := w1, trace := trace s @ [CustomRequest c ''listLoadBalancerRules'' ?q1]\<rparr>) = (Ret r1, t1)"
    using n unfolding getLoadBalancerRuleByName_def Let_def by (auto elim!: bind_RetE io_RetE)
  show ?thesis
  proof (cases r1)
    case None
    note t1 = uniqueRule_None [OF u1 [unfolded None]]
    obtain n2 rs2 w2 where a2: "req_listLoadBalancerRules api c ?q2 (world t1) = (Inr (n2, rs2), w2)"
      and u2: "uniqueRule (Errorf ''tags with too many rules associated: '' []) (\<lambda>r. matchAllTags (rule_Tags r) (tagsForService svc)) (n2, rs2)
        (t1\<lparr>world := w2, trace := trace t1 @ [CustomRequest c ''listLoadBalancerRules'' ?q2]\<rparr>) = (Ret (Some rule), t)"
      using rest None unfolding getLoadBalancerByTags_def Let_def by (auto elim!: bind_RetE io_RetE)
    from uniqueRule_Some [OF u2] t1 a1 a2 show ?thesis by auto
  next
    case (Some r)
    then have "r = rule" "t = t1" using rest by (simp_all add: ret_def)
    with uniqueRule_Some [OF u1 [unfolded Some]] a1 show ?thesis by auto
  qed
qed

definition managedRule :: loadBalancerRule where
  "managedRule = sampleRule\<lparr>rule_Tags := sampleTags, rule_Algorithm := ''source'', AdditionalPortMap := []\<rparr>"

text \<open>A service whose rule has another name: nothing is found by name, and its tags find the rule.\<close>

theorem getLoadBalancerRule_unique_witness:
  "\<exists>t. getLoadBalancerRule (offlineAPI\<lparr>req_listLoadBalancerRules := (\<lambda>_ _ w. (Inr (1, [Some managedRule]), w))\<rparr>)
      sampleClient sampleService ''new-name.test.com'' ''p1'' \<lparr>world = (), trace = []\<rparr> = (Ret (Some managedRule), t)
    \<and> trace t = [CustomRequest sampleClient ''listLoadBalancerRules'' (nameQuery ''new-name.test.com'' ''p1''),
        CustomRequest sampleClient ''listLoadBalancerRules'' (tagQuery sampleService ''p1'')]"
proof -
  let ?api = "offlineAPI\<lparr>req_listLoadBalancerRules := (\<lambda>_ _ w. (Inr (1, [Some managedRule]), w))\<rparr> :: unit api"
  have "matchAllTags (rule_Tags managedRule) (tagsForService sampleService)" "rule_Name managedRule \<noteq> ''new-name.test.com''"
    by code_simp+
  then have "\<exists>t. getLoadBalancerRule ?api sampleClient sampleService ''new-name.test.com'' ''p1'' \<lparr>world = (), trace = []\<rparr>
      = (Ret (Some managedRule), t)"
    by (simp add: find_defs Let_def bind_def io_def uniqueRule_run)
  then obtain t where t: "getLoadBalancerRule ?api sampleClient sampleService ''new-name.test.com'' ''p1'' \<lparr>world = (), trace = []\<rparr>
      = (Ret (Some managedRule), t)" ..
  from getLoadBalancerRule_unique [OF t] \<open>rule_Name managedRule \<noteq> _\<close> t show ?thesis by auto
qed

end
