(* ===== verification/Pools.thy ===== *)
theory Pools
  imports LBRule
begin

text \<open>
  Health check pools in \<open>cloudstack/loadbalancer.go\<close>: choosing the pool of a port, its health check, and the
  loop that updates the pools of a rule. The request parameters and the response struct are declared before
  the loop, so both are carried from one port to the next; the pools are pointers and are changed in place.
\<close>

section \<open>Definitions\<close>

record UpdateGloboNetworkPoolResponse =
  JobID :: string
  Jobstatus :: int

text \<open>
  \<open>json.Unmarshal\<close> into that struct: the fields of an object are stored one by one, matched without case, \<open>null\<close>
  stores nothing, and the first value of a wrong type is reported after the rest was stored.
\<close>

definition decodeField ::
  "string \<times> json \<Rightarrow> UpdateGloboNetworkPoolResponse \<times> string option \<Rightarrow> UpdateGloboNetworkPoolResponse \<times> string option" where
  "decodeField kv acc =
    (let (r, err) = acc; bad = Some (case err of Some e \<Rightarrow> e | None \<Rightarrow> ''json: cannot unmarshal'') in
     if ToUpper (fst kv) = ''JOBID'' then
       (case snd kv of JStr v \<Rightarrow> (r\<lparr>JobID := v\<rparr>, err) | JNull \<Rightarrow> acc | _ \<Rightarrow> (r, bad))
     else if ToUpper (fst kv) = ''JOBSTATUS'' then
       (case snd kv of JNum v \<Rightarrow> (r\<lparr>Jobstatus := v\<rparr>, err) | JNull \<Rightarrow> acc | _ \<Rightarrow> (r, bad))
     else acc)"

definition unmarshal_updatePool ::
  "json \<Rightarrow> UpdateGloboNetworkPoolResponse \<Rightarrow> UpdateGloboNetworkPoolResponse \<times> string option" where
  "unmarshal_updatePool j r = (case j of
      JObj kvs \<Rightarrow> fold decodeField kvs (r, None)
    | JNull \<Rightarrow> (r, None)
    | _ \<Rightarrow> (r, Some ''json: cannot unmarshal''))"

text \<open>
  The loop over the pools: the first one for the two ports whose health check differs is changed in place and
  returned. \<open>None\<close>: the loop reads a nil pool and panics.
\<close>

fun pool_loop ::
  "int \<Rightarrow> int \<Rightarrow> string \<Rightarrow> string \<Rightarrow> string \<Rightarrow> globoNetworkPool option list
    \<Rightarrow> (globoNetworkPool option \<times> globoNetworkPool option list) option" where
  "pool_loop vipPort dstPort msg rsp proto [] = Some (None, [])"
| "pool_loop vipPort dstPort msg rsp proto (None # pools) = None"
| "pool_loop vipPort dstPort msg rsp proto (Some pool # pools) =
     (if \<not> (pool_VipPort pool = vipPort \<and> pool_Port pool = dstPort)
        \<or> \<not> (pool_HealthCheck pool \<noteq> msg \<or> pool_HealthCheckExpected pool \<noteq> rsp \<or> pool_HealthCheckType pool \<noteq> proto)
      then map_option (\<lambda>(r, pools1). (r, Some pool # pools1)) (pool_loop vipPort dstPort msg rsp proto pools)
      else (let pool1 = pool\<lparr>pool_HealthCheck := msg, pool_HealthCheckExpected := rsp, pool_HealthCheckType := proto\<rparr>
            in Some (Some pool1, Some pool1 # pools)))"

definition generateGloboNetworkPool ::
  "lbPorts \<Rightarrow> lbPortInfo \<Rightarrow> service \<Rightarrow> globoNetworkPool option list
    \<Rightarrow> (globoNetworkPool option \<times> globoNetworkPool option list) option" where
  "generateGloboNetworkPool ps portInfo svc globoPools =
    (let hcProtocol = portToHCProtocol ps portInfo;
         healthCheckResponse = str_or_empty (getLabelOrAnnotation (svc_meta svc) (lbCustomHealthCheckResponsePrefix @ pi_name portInfo));
         healthCheckMessage = str_or_empty (getLabelOrAnnotation (svc_meta svc) (lbCustomHealthCheckMessagePrefix @ pi_name portInfo))
     in if requiresMsg hcProtocol \<and> healthCheckMessage = [] then Some (None, globoPools)
        else pool_loop (pi_publicPort portInfo) (pi_privatePort portInfo) healthCheckMessage healthCheckResponse
          (hc_protocol hcProtocol) globoPools)"

definition setPoolParams :: "loadBalancerRule \<Rightarrow> globoNetworkPool \<Rightarrow> params \<Rightarrow> params" where
  "setPoolParams rule pool p =
    (let p1 = SetParam ''maxconn'' (PInt 0)
           (SetParam ''zoneid'' (PStr (rule_Zoneid rule))
           (SetParam ''expectedhealthcheck'' (PStr (pool_HealthCheckExpected pool))
           (SetParam ''healthcheck'' (PStr (pool_HealthCheck pool))
           (SetParam ''healthchecktype'' (PStr (ToUpper (pool_HealthCheckType pool)))
           (SetParam ''lbruleid'' (PStr (rule_Id rule))
           (SetParam ''poolids'' (PInt (pool_Id pool)) p))))))
     in if pool_HealthCheckType pool = ''UDP''
        then SetParam ''redeploy'' (PBool True) (SetParam ''l7protocol'' (PStr ''Outros'')
          (SetParam ''l4protocol'' (PStr (ToUpper (pool_HealthCheckType pool))) p1))
        else p1)"

text \<open>One iteration of the loop over the ports.\<close>

definition updatePortPool ::
  "'w api \<Rightarrow> client \<Rightarrow> loadBalancer \<Rightarrow> loadBalancerRule \<Rightarrow> lbPorts \<Rightarrow> lbPortInfo
    \<Rightarrow> params \<times> UpdateGloboNetworkPoolResponse \<times> globoNetworkPool option list
    \<Rightarrow> (('w, 'x) sys_scheme, params \<times> UpdateGloboNetworkPoolResponse \<times> globoNetworkPool option list) go" where
  "updatePortPool api c lb rule ps portInfo acc =
    (case acc of (p, r, pools) \<Rightarrow>
     (case generateGloboNetworkPool ps portInfo (lb_service lb) pools of
        None \<Rightarrow> panic nilDeref
      | Some (None, pools1) \<Rightarrow> ret (p, r, pools1)
      | Some (Some pool, pools1) \<Rightarrow>
          (let p1 = setPoolParams rule pool p in
           bind (wrap_err (Wrapf ''error updating globo network pool for %v: %v'' [lb_String (Some lb)])
             (bind (io (CustomRequest c ''updateGloboNetworkPool'' p1) (req_updatePool api c p1)) (\<lambda>body.
                case unmarshal_updatePool body r of (r1, None) \<Rightarrow> ret r1 | (_, Some e) \<Rightarrow> throw (ApiErr e)))) (\<lambda>r1.
           bind (if JobID r1 \<noteq> [] then
                 wrap_err (Wrapf ''error waiting for globo network pool for rule for %v: %v'' [lb_String (Some lb)])
                   (waitJob api c (JobID r1) unmarshal_updatePool r1)
               else ret r1) (\<lambda>r2.
           ret (p1, r2, pools1))))))"

definition updateLoadBalancerPool :: "'w api \<Rightarrow> CSCloud \<Rightarrow> loadBalancer \<Rightarrow> (('w, 'x) sys_scheme, unit) go" where
  "updateLoadBalancerPool api cs lb =
    bind (lift_sum (getClient cs lb)) (\<lambda>c.
    withRule lb (\<lambda>rule.
      if getLabelOrAnnotation (svc_meta (lb_service lb)) lbCustomHealthCheck = None \<and> rule_Protocol rule \<noteq> ''UDP''
      then ret ()
      else
        (let lp = SetParam ''zoneid'' (PStr (rule_Zoneid rule)) (SetParam ''lbruleid'' (PStr (rule_Id rule)) []) in
         bind (wrap_err (Wrapf ''error list load balancer pools for %v: %v'' [lb_String (Some lb)])
           (io (CustomRequest c ''listGloboNetworkPools'' lp) (req_listPools api c lp))) (\<lambda>(n, pools).
         if n = 0 then throw (Errorf ''error list load balancer pools for %v: no LB pools found'' [lb_String (Some lb)])
         else
           bind (serviceToLBPorts api lb) (\<lambda>(lb1, ps).
           bind (foldm (ports ps) (updatePortPool api c lb1 rule ps) ([], \<lparr>JobID = [], Jobstatus = 0\<rparr>, pools)) (\<lambda>_.
           ret ()))))))"

section \<open>Lemmas\<close>

text \<open>The calls that updating the pools of a rule may make.\<close>

definition pool_call :: "string \<Rightarrow> call \<Rightarrow> bool" where
  "pool_call rid call \<longleftrightarrow> read_only call
     \<or> (\<exists>c p. call = CustomRequest c ''updateGloboNetworkPool'' p \<and> map_of p ''lbruleid'' = Some (PStr rid))"

lemma read_only_pool_call: "read_only call \<Longrightarrow> pool_call rid call"
  by (simp add: pool_call_def)

lemma setPoolParams_lookup:
  "map_of (setPoolParams rule pool p) k =
    (if k = ''maxconn'' then Some (PInt 0)
     else if k = ''zoneid'' then Some (PStr (rule_Zoneid rule))
     else if k = ''expectedhealthcheck'' then Some (PStr (pool_HealthCheckExpected pool))
     else if k = ''healthcheck'' then Some (PStr (pool_HealthCheck pool))
     else if k = ''healthchecktype'' then Some (PStr (ToUpper (pool_HealthCheckType pool)))
     else if k = ''lbruleid'' then Some (PStr (rule_Id rule))
     else if k = ''poolids'' then Some (PInt (pool_Id pool))
     else if pool_HealthCheckType pool = ''UDP'' \<and> k = ''redeploy'' then Some (PBool True)
     else if pool_HealthCheckType pool = ''UDP'' \<and> k = ''l7protocol'' then Some (PStr ''Outros'')
     else if pool_HealthCheckType pool = ''UDP'' \<and> k = ''l4protocol'' then Some (PStr (ToUpper (pool_HealthCheckType pool)))
     else map_of p k)"
  by (simp add: setPoolParams_def Let_def)

lemma keeps_updatePortPool: "keeps (outside_only (pool_call (rule_Id rule))) (updatePortPool api c lb rule ps portInfo acc)"
proof -
  have "pool_call (rule_Id rule) (CustomRequest c ''updateGloboNetworkPool'' (setPoolParams rule pool p))" for pool p
    by (simp add: pool_call_def setPoolParams_lookup)
  moreover have "keeps (outside_only (pool_call (rule_Id rule))) (waitJob api c j u r)" for j u and r :: "UpdateGloboNetworkPoolResponse"
    by (rule keeps_outside_mono [OF keeps_waitJob read_only_pool_call])
  ultimately show ?thesis
    by (auto simp: updatePortPool_def Let_def intro!: keeps_intros split: prod.splits option.splits)
qed

lemma keeps_updateLoadBalancerPool:
  assumes "lb_rule lb = Some rule"
  shows "keeps (outside_only (pool_call (rule_Id rule))) (updateLoadBalancerPool api cs lb)"
proof -
  have "keeps (outside_only (pool_call (rule_Id rule))) (serviceToLBPorts api lb)"
    by (rule keeps_outside_mono [OF keeps_serviceToLBPorts read_only_pool_call])
  then show ?thesis
    using assms unfolding updateLoadBalancerPool_def withRule_def
    by (auto simp: Let_def pool_call_def intro!: keeps_intros keeps_updatePortPool split: prod.splits)
qed

text \<open>
  The pools of a port, and the pools the loop passes by: those of other ports and those that have the wanted health
  check.
\<close>

definition portPool :: "lbPortInfo \<Rightarrow> globoNetworkPool \<Rightarrow> bool" where
  "portPool portInfo pool \<longleftrightarrow> pool_VipPort pool = pi_publicPort portInfo \<and> pool_Port pool = pi_privatePort portInfo"

definition hasCheck :: "string \<Rightarrow> string \<Rightarrow> string \<Rightarrow> globoNetworkPool \<Rightarrow> bool" where
  "hasCheck msg rsp proto pool \<longleftrightarrow> pool_HealthCheck pool = msg \<and> pool_HealthCheckExpected pool = rsp \<and> pool_HealthCheckType pool = proto"

definition settled :: "lbPortInfo \<Rightarrow> string \<Rightarrow> string \<Rightarrow> string \<Rightarrow> globoNetworkPool option \<Rightarrow> bool" where
  "settled portInfo msg rsp proto x \<longleftrightarrow> (\<exists>pool. x = Some pool \<and> (portPool portInfo pool \<longrightarrow> hasCheck msg rsp proto pool))"

lemma pool_loop_exact:
  "case pool_loop (pi_publicPort portInfo) (pi_privatePort portInfo) msg rsp proto pools of
      None \<Rightarrow> \<exists>i < length pools. pools ! i = None \<and> (\<forall>j < i. settled portInfo msg rsp proto (pools ! j))
    | Some (None, pools1) \<Rightarrow> pools1 = pools \<and> (\<forall>x \<in> set pools. settled portInfo msg rsp proto x)
    | Some (Some pool1, pools1) \<Rightarrow> \<exists>i pool. i < length pools \<and> pools ! i = Some pool \<and> portPool portInfo pool
        \<and> \<not> hasCheck msg rsp proto pool \<and> (\<forall>j < i. settled portInfo msg rsp proto (pools ! j))
        \<and> pool1 = pool\<lparr>pool_HealthCheck := msg, pool_HealthCheckExpected := rsp, pool_HealthCheckType := proto\<rparr>
        \<and> pools1 = pools[i := Some pool1]"
    (is "?P pools")
proof (induction pools)
  case (Cons x pools)
  show ?case
  proof (cases "settled portInfo msg rsp proto x")
    case True
    then obtain pool where x: "x = Some pool" "portPool portInfo pool \<longrightarrow> hasCheck msg rsp proto pool"
      by (auto simp: settled_def)
    then have loop: "pool_loop (pi_publicPort portInfo) (pi_privatePort portInfo) msg rsp proto (x # pools) =
        map_option (\<lambda>(r, pools1). (r, x # pools1)) (pool_loop (pi_publicPort portInfo) (pi_privatePort portInfo) msg rsp proto pools)"
      by (simp add: portPool_def hasCheck_def)
    have later: "\<forall>j < Suc i. settled portInfo msg rsp proto ((x # pools) ! j)"
      if "\<forall>j < i. settled portInfo msg rsp proto (pools ! j)" for i
      using that True by (auto simp: less_Suc_eq_0_disj)
    show ?thesis
    proof (cases "pool_loop (pi_publicPort portInfo) (pi_privatePort portInfo) msg rsp proto pools")
      case None
      with Cons.IH obtain i where "i < length pools" "pools ! i = None" "\<forall>j < i. settled portInfo msg rsp proto (pools ! j)" by auto
      with None later show ?thesis unfolding loop by (auto intro!: exI [of _ "Suc i"])
    next
      case (Some res)
      show ?thesis
      proof (cases res)
        case (Pair r pools1)
        show ?thesis
        proof (cases r)
          case None
          with Cons.IH Some Pair True show ?thesis unfolding loop by simp
        next
          case (Some pool1)
          with Cons.IH \<open>_ = Some res\<close> Pair obtain i pool where "i < length pools" "pools ! i = Some pool" "portPool portInfo pool"
            "\<not> hasCheck msg rsp proto pool" "\<forall>j < i. settled portInfo msg rsp proto (pools ! j)"
            "pool1 = pool\<lparr>pool_HealthCheck := msg, pool_HealthCheckExpected := rsp, pool_HealthCheckType := proto\<rparr>"
            "pools1 = pools[i := Some pool1]" by auto
          with \<open>_ = Some res\<close> Pair Some later show ?thesis unfolding loop
            by (auto intro!: exI [of _ "Suc i"] exI [of _ pool])
        qed
      qed
    qed
  next
    case False
    then show ?thesis
      by (cases x) (auto simp: settled_def portPool_def hasCheck_def Let_def intro!: exI [of _ 0])
  qed
qed simp

section \<open>Correctness\<close>

text \<open>
  C34: the pool chosen for a port. Nothing is chosen or changed exactly when the health check of the port needs a message
  and the service gives none, or every pool of the port has the wanted health check already. Otherwise the first pool
  of the port whose health check differs is chosen: it gets exactly the wanted one, and every other pool stays as it is. A
  nil pool that comes before it panics.
\<close>

theorem generateGloboNetworkPool_exact:
  assumes hc: "hc = portToHCProtocol ps portInfo"
    and msg: "msg = str_or_empty (getLabelOrAnnotation (svc_meta svc) (lbCustomHealthCheckMessagePrefix @ pi_name portInfo))"
    and rsp: "rsp = str_or_empty (getLabelOrAnnotation (svc_meta svc) (lbCustomHealthCheckResponsePrefix @ pi_name portInfo))"
  shows "case generateGloboNetworkPool ps portInfo svc pools of
      None \<Rightarrow> \<not> (requiresMsg hc \<and> msg = []) \<and> (\<exists>i < length pools. pools ! i = None
        \<and> (\<forall>j < i. settled portInfo msg rsp (hc_protocol hc) (pools ! j)))
    | Some (None, pools1) \<Rightarrow> pools1 = pools \<and> (requiresMsg hc \<and> msg = []
        \<or> (\<forall>x \<in> set pools. settled portInfo msg rsp (hc_protocol hc) x))
    | Some (Some pool1, pools1) \<Rightarrow> \<not> (requiresMsg hc \<and> msg = []) \<and> (\<exists>i pool. i < length pools \<and> pools ! i = Some pool
        \<and> portPool portInfo pool \<and> \<not> hasCheck msg rsp (hc_protocol hc) pool
        \<and> (\<forall>j < i. settled portInfo msg rsp (hc_protocol hc) (pools ! j))
        \<and> pool1 = pool\<lparr>pool_HealthCheck := msg, pool_HealthCheckExpected := rsp, pool_HealthCheckType := hc_protocol hc\<rparr>
        \<and> pools1 = pools[i := Some pool1])"
proof (cases "requiresMsg hc \<and> msg = []")
  case True
  then show ?thesis by (simp add: generateGloboNetworkPool_def hc msg Let_def)
next
  case False
  then have "generateGloboNetworkPool ps portInfo svc pools =
      pool_loop (pi_publicPort portInfo) (pi_privatePort portInfo) msg rsp (hc_protocol hc) pools"
    by (auto simp: generateGloboNetworkPool_def hc msg rsp Let_def)
  with pool_loop_exact show ?thesis using False by (simp only: not_False_eq_True HOL.simp_thms)
qed

definition samplePool :: globoNetworkPool where
  "samplePool = \<lparr>pool_Port = 30080, pool_VipPort = 80, pool_HealthCheckType = ''TCP'', pool_HealthCheck = [],
     pool_HealthCheckExpected = [], pool_Id = 7\<rparr>"

theorem generateGloboNetworkPool_exact_witness:
  "\<exists>pool1. generateGloboNetworkPool \<lparr>ports = [], protocol = ''UDP''\<rparr> \<lparr>pi_publicPort = 80, pi_privatePort = 30080, pi_name = ''dns''\<rparr>
      sampleService [Some samplePool, None] = Some (Some pool1, [Some pool1, None]) \<and> pool_HealthCheckType pool1 = ''UDP'' \<and> pool_Id pool1 = 7"
proof -
  let ?ps = "\<lparr>ports = [], protocol = ''UDP''\<rparr>" and ?pi = "\<lparr>pi_publicPort = 80, pi_privatePort = 30080, pi_name = ''dns''\<rparr>"
  have hc: "portToHCProtocol ?ps ?pi = \<lparr>hc_protocol = ''UDP'', requiresMsg = False\<rparr>" by code_simp
  obtain pool1 pools1 where run: "generateGloboNetworkPool ?ps ?pi sampleService [Some samplePool, None] = Some (Some pool1, pools1)"
    by (simp add: generateGloboNetworkPool_def hc samplePool_def Let_def)
  from generateGloboNetworkPool_exact [OF refl refl refl, where ps = ?ps and portInfo = ?pi and svc = sampleService and pools = "[Some samplePool, None]"] run hc show ?thesis
    by (auto simp: samplePool_def portPool_def nth_Cons' split: if_splits)
qed

text \<open>
  The parameters that are only set for a pool with a UDP health check. They are never removed: a request \<open>carries\<close> those
  of the parameters \<open>p\<close>.
\<close>

definition udpParams :: "params" where
  "udpParams = [(''l4protocol'', PStr ''UDP''), (''l7protocol'', PStr ''Outros''), (''redeploy'', PBool True)]"

definition carries :: "params \<Rightarrow> params \<Rightarrow> bool" where
  "carries p q \<longleftrightarrow> (\<forall>k \<in> fst ` set udpParams. \<forall>v. map_of p k = Some v \<longrightarrow> map_of q k = Some v)"

definition poolUpdate :: "call \<Rightarrow> params option" where
  "poolUpdate call = (case call of CustomRequest c cmd q \<Rightarrow> if cmd = ''updateGloboNetworkPool'' then Some q else None | _ \<Rightarrow> None)"

text \<open>The parameters the loop can hold: those of no UDP pool, or the constants.\<close>

definition udp_wf :: "params \<Rightarrow> bool" where
  "udp_wf p \<longleftrightarrow> (\<forall>k \<in> fst ` set udpParams. map_of p k \<in> {None, map_of udpParams k})"

lemma ToUpper_UDP: "ToUpper ''UDP'' = ''UDP''"
  by code_simp

lemma setPoolParams_udp:
  assumes "udp_wf p"
  shows "udp_wf (setPoolParams rule pool p) \<and> carries p (setPoolParams rule pool p)"
  using assms by (auto simp: udp_wf_def carries_def udpParams_def setPoolParams_lookup ToUpper_UDP)

lemma carries_refl: "carries p p"
  by (simp add: carries_def)

lemma carries_trans: "carries p q \<Longrightarrow> carries q u \<Longrightarrow> carries p u"
  by (simp add: carries_def)

lemma read_only_no_update: "read_only call \<Longrightarrow> poolUpdate call = None"
  by (cases call) (auto simp: poolUpdate_def)

text \<open>The requests of one iteration: an update with the parameters that the next iteration starts from, then reads.\<close>

lemma updatePortPool_trace:
  assumes pool: "generateGloboNetworkPool ps portInfo (lb_service lb) pools = Some (Some pool, pools1)"
    and run: "updatePortPool api c lb rule ps portInfo (p, r, pools) s = (res, t)"
  shows "\<exists>rest. trace t = trace s @ CustomRequest c ''updateGloboNetworkPool'' (setPoolParams rule pool p) # rest
    \<and> list_all read_only rest \<and> (\<forall>x. res = Ret x \<longrightarrow> fst x = setPoolParams rule pool p)"
proof -
  let ?q = "setPoolParams rule pool p" and ?call = "CustomRequest c ''updateGloboNetworkPool'' (setPoolParams rule pool p)"
  show ?thesis
  proof (cases rule: io_cases [where c = ?call and s = s and f = "req_updatePool api c ?q"])
    case (1 body w)
    let ?s = "s\<lparr>world := w, trace := trace s @ [?call]\<rparr>"
    let ?k = "\<lambda>r1. bind (if JobID r1 \<noteq> [] then
          wrap_err (Wrapf ''error waiting for globo network pool for rule for %v: %v'' [lb_String (Some lb)])
            (waitJob api c (JobID r1) unmarshal_updatePool r1) else ret r1) (\<lambda>r2. ret (?q, r2, pools1))"
    obtain r1 err where um: "unmarshal_updatePool body r = (r1, err)" by fastforce
    have k: "keeps (outside_only read_only) (?k r1)"
      by (auto intro!: keeps_intros)
    show ?thesis
    proof (cases err)
      case None
      then have rest: "?k r1 ?s = (res, t)"
        using run pool 1(2) um by (simp add: updatePortPool_def Let_def go_simps)
      have "fst x = ?q" if "res = Ret x" for x
        using rest unfolding that by (auto simp: ret_def elim!: bind_RetE)
      with keepsD [OF k rest] show ?thesis by (auto simp: outside_only_def)
    next
      case (Some e)
      then show ?thesis using run pool 1(2) um by (auto simp: updatePortPool_def Let_def go_simps)
    qed
  next
    case (2 e w)
    then show ?thesis using run pool by (auto simp: updatePortPool_def Let_def go_simps)
  qed
qed

definition leaks :: "call \<Rightarrow> call \<Rightarrow> bool" where
  "leaks call call' \<longleftrightarrow> (\<forall>q q'. poolUpdate call = Some q \<and> poolUpdate call' = Some q' \<longrightarrow> carries q q')"

lemma read_only_leaks:
  assumes "list_all read_only xs"
  shows "sorted_wrt leaks (xs @ ys) \<longleftrightarrow> sorted_wrt leaks ys" "sorted_wrt leaks (x # xs @ ys) \<longleftrightarrow> sorted_wrt leaks (x # ys)"
proof -
  have no: "poolUpdate y = None" if "y \<in> set xs" for y
    using assms that by (auto simp: list_all_iff read_only_no_update)
  then have "sorted_wrt leaks xs" by (auto simp: leaks_def sorted_wrt_iff_nth_less)
  with no show "sorted_wrt leaks (xs @ ys) \<longleftrightarrow> sorted_wrt leaks ys" "sorted_wrt leaks (x # xs @ ys) \<longleftrightarrow> sorted_wrt leaks (x # ys)"
    by (auto simp: sorted_wrt_append leaks_def)
qed

lemma pool_updates_leak:
  assumes "udp_wf p" "foldm xs (updatePortPool api c lb rule ps) (p, r, pools) s = (res, t)"
  shows "\<exists>calls. trace t = trace s @ calls \<and> sorted_wrt leaks calls
    \<and> (\<forall>call \<in> set calls. \<forall>q. poolUpdate call = Some q \<longrightarrow> carries p q)"
  using assms
proof (induction xs arbitrary: p r pools s)
  case Nil
  then show ?case by (simp add: ret_def)
next
  case (Cons x xs)
  let ?g = "generateGloboNetworkPool ps x (lb_service lb) pools"
  obtain r1 t1 where u: "updatePortPool api c lb rule ps x (p, r, pools) s = (r1, t1)" by fastforce
  consider (nil) "?g = None" | (none) pools1 where "?g = Some (None, pools1)"
    | (some) pool pools1 where "?g = Some (Some pool, pools1)" by (cases ?g) (auto, metis not_None_eq)
  then show ?case
  proof cases
    case nil
    then have "t = s" using Cons.prems(2) by (simp add: updatePortPool_def go_simps)
    then show ?thesis by simp
  next
    case none
    then have "foldm xs (updatePortPool api c lb rule ps) (p, r, pools1) s = (res, t)"
      using Cons.prems(2) by (simp add: go_simps) (simp add: updatePortPool_def [of _ _ _ _ _ x] go_simps)
    from Cons.IH [OF Cons.prems(1) this] show ?thesis .
  next
    case some
    let ?q = "setPoolParams rule pool p"
    obtain rest where tr: "trace t1 = trace s @ CustomRequest c ''updateGloboNetworkPool'' ?q # rest" "list_all read_only rest"
      and q: "\<And>y. r1 = Ret y \<Longrightarrow> fst y = ?q" using updatePortPool_trace [OF some u] by blast
    note pq = setPoolParams_udp [OF Cons.prems(1), of rule pool]
    have ro: "poolUpdate y = None" if "y \<in> set rest" for y
      using tr(2) that by (auto simp: list_all_iff read_only_no_update)
    obtain calls where calls: "trace t = trace t1 @ calls" "sorted_wrt leaks calls"
      "\<forall>call \<in> set calls. \<forall>q'. poolUpdate call = Some q' \<longrightarrow> carries ?q q'"
    proof (cases "\<exists>y. r1 = Ret y")
      case True
      then obtain r2 pools2 where r1: "r1 = Ret (?q, r2, pools2)" using q by (metis prod.collapse)
      then have "foldm xs (updatePortPool api c lb rule ps) (?q, r2, pools2) t1 = (res, t)"
        using Cons.prems(2) u by (simp add: go_simps)
      from Cons.IH [OF _ this] pq show ?thesis using that by blast
    next
      case False
      then have "t = t1" using Cons.prems(2) u by (cases r1) (auto simp: go_simps)
      then show ?thesis using that [of "[]"] by simp
    qed
    have x: "poolUpdate (CustomRequest c ''updateGloboNetworkPool'' ?q) = Some ?q" by (simp add: poolUpdate_def)
    have "sorted_wrt leaks (CustomRequest c ''updateGloboNetworkPool'' ?q # rest @ calls)"
      using calls(2,3) x ro read_only_leaks(1) [OF tr(2), of calls] by (auto simp: leaks_def [of "CustomRequest _ _ _"])
    moreover have "carries p q'" if "y \<in> set (CustomRequest c ''updateGloboNetworkPool'' ?q # rest @ calls)" "poolUpdate y = Some q'" for y q'
      using that calls(3) pq ro x by (auto intro: carries_trans)
    ultimately show ?thesis
      using tr(1) calls(1) by (intro exI [of _ "CustomRequest c ''updateGloboNetworkPool'' ?q # rest @ calls"]) simp
  qed
qed

text \<open>Reads before the loop do not matter.\<close>

definition leaky :: "('w, 'x) sys_scheme \<Rightarrow> ('w, 'x) sys_scheme \<Rightarrow> bool" where
  "leaky s t \<longleftrightarrow> (\<exists>calls. trace t = trace s @ calls \<and> sorted_wrt leaks calls)"

lemma leaky_read:
  assumes "outside_only read_only s t"
  shows "leaky s t" "leaky t u \<Longrightarrow> leaky s u"
  using assms read_only_leaks(1) [of _ "[]"] read_only_leaks(1)
  by (auto simp: leaky_def outside_only_def)

lemma leaky_bind:
  assumes m: "keeps (outside_only read_only) m" and f: "\<And>a. keeps leaky (f a)"
  shows "keeps leaky (bind m f)"
  unfolding keeps_def
proof
  fix s
  obtain r t where run: "m s = (r, t)" by fastforce
  note st = leaky_read [OF keepsD [OF m run]]
  show "leaky s (snd (bind m f s))"
  proof (cases r)
    case (Ret a)
    with run st(2) f [of a] show ?thesis by (simp add: go_simps keeps_def)
  qed (use run st(1) in \<open>simp_all add: go_simps\<close>)
qed

lemma leaky_pure: "keeps leaky (ret a)" "keeps leaky (throw e)" "keeps leaky (panic p)"
  by (simp_all add: keeps_def leaky_def go_simps)

lemma keeps_leaky_pools:
  fixes api :: "'w api"
  shows "keeps leaky (updateLoadBalancerPool api cs lb :: (('w, 'x) sys_scheme, unit) go)"
proof -
  have loop: "keeps leaky (bind (foldm xs (updatePortPool api c lb1 rule ps) ([], r, pools)) (\<lambda>_. ret () :: (('w, 'x) sys_scheme, unit) go))"
    for xs c lb1 rule ps r pools
    unfolding keeps_def
  proof
    fix s :: "('w, 'x) sys_scheme"
    obtain res t where run: "foldm xs (updatePortPool api c lb1 rule ps) ([], r, pools) s = (res, t)" by fastforce
    have "leaky s t" using pool_updates_leak [OF _ run] by (auto simp: leaky_def udp_wf_def)
    with run show "leaky s (snd (bind (foldm xs (updatePortPool api c lb1 rule ps) ([], r, pools)) (\<lambda>_. ret ()) s))"
      by (cases res) (simp_all add: go_simps)
  qed
  show ?thesis
    unfolding updateLoadBalancerPool_def withRule_def Let_def
    by (auto intro!: leaky_bind leaky_pure loop keeps_intros split: option.splits)
qed

text \<open>
  C35: parameters leak from one port to the next. In every run of the pool update, whatever its outcome: once a request for
  a pool carried one of the protocol, layer and redeployment parameters, which are set for a UDP health check, every
  later request of the run carries it too, whatever the health check of its own pool is.
\<close>

theorem updateLoadBalancerPool_params_leak:
  assumes run: "updateLoadBalancerPool api cs lb s = (r, t)" and calls: "trace t = trace s @ calls"
    and ij: "i < j" "j < length calls"
    and reqs: "calls ! i = CustomRequest c ''updateGloboNetworkPool'' q" "calls ! j = CustomRequest c' ''updateGloboNetworkPool'' q'"
    and k: "k \<in> {''l4protocol'', ''l7protocol'', ''redeploy''}" "map_of q k = Some v"
  shows "map_of q' k = Some v"
proof -
  have "sorted_wrt leaks calls"
    using keepsD [OF keeps_leaky_pools run] calls by (auto simp: leaky_def)
  then have "leaks (calls ! i) (calls ! j)" using ij by (simp add: sorted_wrt_iff_nth_less)
  then have "carries q q'" using reqs by (simp add: leaks_def poolUpdate_def)
  then show ?thesis using k by (auto simp: carries_def udpParams_def)
qed

text \<open>A service with a UDP and a TCP port: the update of the TCP pool asks for the UDP protocol and a redeployment.\<close>

definition mixedLB :: loadBalancer where
  "mixedLB = sampleLB\<lparr>lb_rule := Some (sampleRule\<lparr>rule_Protocol := ''UDP''\<rparr>), lb_service := sampleService\<lparr>svc_Ports :=
     [\<lparr>sp_Name = ''udp-dns'', sp_Protocol = ''UDP'', sp_Port = 53, sp_TargetPort = IntVal 53, sp_NodePort = 30053\<rparr>,
      \<lparr>sp_Name = ''tcp-web'', sp_Protocol = ''UDP'', sp_Port = 80, sp_TargetPort = IntVal 80, sp_NodePort = 30080\<rparr>]\<rparr>\<rparr>"

definition mixedAPI :: "unit api" where
  "mixedAPI = offlineAPI\<lparr>
     req_listPools := (\<lambda>_ _ w. (Inr (2, [Some (samplePool\<lparr>pool_Port := 30053, pool_VipPort := 53\<rparr>),
       Some (samplePool\<lparr>pool_HealthCheckType := ''HTTP'', pool_Id := 8\<rparr>)]), w)),
     req_updatePool := (\<lambda>_ _ w. (Inr (JObj []), w))\<rparr>"

lemma poolUpdate_Some: "poolUpdate call = Some q \<Longrightarrow> \<exists>c. call = CustomRequest c ''updateGloboNetworkPool'' q"
  by (cases call) (auto simp: poolUpdate_def split: if_splits)

lemma mixed_run:
  "case updateLoadBalancerPool mixedAPI sampleCloud mixedLB \<lparr>world = (), trace = []\<rparr> of (r, t) \<Rightarrow>
     length (trace t) = 3
     \<and> (case poolUpdate (trace t ! 1) of None \<Rightarrow> False | Some q \<Rightarrow> map_of q ''redeploy'' = Some (PBool True))
     \<and> (case poolUpdate (trace t ! 2) of None \<Rightarrow> False | Some q \<Rightarrow> map_of q ''healthchecktype'' = Some (PStr ''TCP''))"
  by code_simp

theorem updateLoadBalancerPool_params_leak_witness:
  "\<exists>r t c q. updateLoadBalancerPool mixedAPI sampleCloud mixedLB \<lparr>world = (), trace = []\<rparr> = (r, t)
    \<and> trace t ! 2 = CustomRequest c ''updateGloboNetworkPool'' q
    \<and> map_of q ''healthchecktype'' = Some (PStr ''TCP'') \<and> map_of q ''redeploy'' = Some (PBool True)"
proof -
  obtain r t where run: "updateLoadBalancerPool mixedAPI sampleCloud mixedLB \<lparr>world = (), trace = []\<rparr> = (r, t)" by fastforce
  then obtain q q' where q: "poolUpdate (trace t ! 1) = Some q" "poolUpdate (trace t ! 2) = Some q'" "length (trace t) = 3"
    "map_of q ''redeploy'' = Some (PBool True)" "map_of q' ''healthchecktype'' = Some (PStr ''TCP'')"
    using mixed_run by (auto split: option.splits)
  then obtain c c' where c: "trace t ! 1 = CustomRequest c ''updateGloboNetworkPool'' q"
    "trace t ! 2 = CustomRequest c' ''updateGloboNetworkPool'' q'" using poolUpdate_Some by blast
  have "map_of q' ''redeploy'' = Some (PBool True)"
    by (rule updateLoadBalancerPool_params_leak [OF run _ _ _ c]) (simp_all add: q)
  with run c q show ?thesis by blast
qed

end
