(* ===== verification/LBIP.thy ===== *)
theory LBIP
  imports LBRule
begin

text \<open>
  Public addresses in \<open>cloudstack/loadbalancer.go\<close>: finding the address of a service by tags, by address or by
  ID, allocating and releasing one, and the address a load balancer ends up with.
\<close>

section \<open>Finding an address\<close>

definition withProject :: "loadBalancer \<Rightarrow> ipQuery \<Rightarrow> ipQuery" where
  "withProject lb p = (if lb_projectID lb \<noteq> [] then p\<lparr>q_Projectid := lb_projectID lb\<rparr> else p)"

definition toCloudstackIP :: "publicIpAddress \<Rightarrow> cloudstackIP" where
  "toCloudstackIP publicIP =
    \<lparr>ip_id = pip_Id publicIP, ip_address = pip_Ipaddress publicIP, ip_networkid = pip_Networkid publicIP\<rparr>"

definition tryPublicIPAddressByTags ::
  "'w api \<Rightarrow> CSCloud \<Rightarrow> loadBalancer \<Rightarrow> service \<Rightarrow> (('w, 'x) sys_scheme, cloudstackIP option) go" where
  "tryPublicIPAddressByTags api cs lb svc =
    bind (lift_sum (getClient cs lb)) (\<lambda>c.
      let tags = tagsForService svc;
          p = withProject lb (newIPQuery\<lparr>q_Listall := True, q_Tags := [(serviceTag, index0 tags serviceTag)]\<rparr>) in
      bind (wrap_err (Wrapf ''error retrieving IP address: %v'' []) (listAllIPPages api c p)) (\<lambda>publicIPAddresses.
        let validIPs = map toCloudstackIP (filter (\<lambda>publicIP. matchAllTags (pip_Tags publicIP) tags) publicIPAddresses) in
        if length validIPs = 0 then ret None
        else if length validIPs > 1 then
          throw (Errorf ''multiple IP addresses for service %v/%v'' [svc_Namespace svc, svc_Name svc])
        else ret (Some (hd validIPs))))"

text \<open>The count of an answer is the server's; indexing an empty list panics.\<close>

definition firstIP :: "publicIpAddress list \<Rightarrow> ('s, publicIpAddress) go" where
  "firstIP ips = (case ips of [] \<Rightarrow> panic ''index out of range'' | ip # _ \<Rightarrow> ret ip)"

definition getPublicIPAddressByIP ::
  "'w api \<Rightarrow> CSCloud \<Rightarrow> loadBalancer \<Rightarrow> string \<Rightarrow> (('w, 'x) sys_scheme, cloudstackIP) go" where
  "getPublicIPAddressByIP api cs lb loadBalancerIP =
    bind (lift_sum (getClient cs lb)) (\<lambda>c.
      let p = withProject lb (newIPQuery\<lparr>q_Ipaddress := loadBalancerIP, q_Listall := True\<rparr>) in
      bind (wrap_err (Wrapf ''error retrieving IP address: %v'' [])
        (io (ListPublicIpAddresses c p) (api_listPublicIpAddresses api c p))) (\<lambda>(n, ips).
        if n = 0 then throw (IPNotFoundError loadBalancerIP)
        else if n > 1 then throw (Errorf ''multiple IP address found for %v'' [loadBalancerIP])
        else bind (firstIP ips) (\<lambda>publicIP. ret (toCloudstackIP publicIP))))"

definition getPublicIPAddressByID ::
  "'w api \<Rightarrow> CSCloud \<Rightarrow> loadBalancer \<Rightarrow> string \<Rightarrow> (('w, 'x) sys_scheme, publicIpAddress) go" where
  "getPublicIPAddressByID api cs lb ipID =
    bind (lift_sum (getClient cs lb)) (\<lambda>c.
      let p = withProject lb (newIPQuery\<lparr>q_Id := ipID, q_Listall := True\<rparr>) in
      bind (wrap_err (Wrapf ''error retrieving IP ID %v: %v'' [ipID])
        (io (ListPublicIpAddresses c p) (api_listPublicIpAddresses api c p))) (\<lambda>(n, ips).
        if n = 0 then throw (Errorf ''could not find IP ID %v'' [ipID])
        else if n > 1 then throw (Errorf ''multiple IP ID found for %v'' [ipID])
        else firstIP ips))"

section \<open>Allocating and releasing\<close>

definition associateCommand :: "CSCloud \<Rightarrow> string" where
  "associateCommand cs =
    (if AssociateIP (Command (config cs)) = [] then ''associateIpAddress'' else AssociateIP (Command (config cs)))"

definition disassociateCommand :: "CSCloud \<Rightarrow> string" where
  "disassociateCommand cs =
    (if DisassociateIP (Command (config cs)) = [] then ''disassociateIpAddress'' else DisassociateIP (Command (config cs)))"

definition associateParams :: "CSCloud \<Rightarrow> loadBalancer \<Rightarrow> service \<Rightarrow> string \<Rightarrow> network \<Rightarrow> params" where
  "associateParams cs lb svc netID net =
    (let p1 = (if net_Vpcid net \<noteq> [] then SetParam ''vpcid'' (PStr (net_Vpcid net)) []
           else SetParam ''networkid'' (PStr netID) []);
         p2 = setProject (lb_projectID lb) p1;
         p3 = (if getLBEnvironmentID cs lb \<noteq> [] then SetParam ''lbenvironmentid'' (PStr (getLBEnvironmentID cs lb)) p2 else p2)
     in setExtraParams svc associateIPAddressExtraParamPrefix p3)"

definition associatePublicIPAddress ::
  "'w api \<Rightarrow> CSCloud \<Rightarrow> loadBalancer \<Rightarrow> service \<Rightarrow> string \<Rightarrow> (('w, 'x) sys_scheme, cloudstackIP) go" where
  "associatePublicIPAddress api cs lb svc netID =
    bind (lift_sum (getClient cs lb)) (\<lambda>c.
    bind (io_count (GetNetworkByID c netID (lb_projectID lb)) (api_getNetworkByID api c netID (lb_projectID lb))) (\<lambda>(n, r).
      case r of
        Inl e \<Rightarrow> if n = 0 then throw (Errorf ''could not find network %v'' [netID])
          else throw (Wrapf ''error retrieving network: %v'' [] e)
      | Inr net \<Rightarrow>
          (let p = associateParams cs lb svc netID net in
           bind (wrap_err (Wrapf ''error associate new IP address using endpoint %q: %v'' [associateCommand cs])
             (io (CustomRequest c (associateCommand cs) p) (req_associate api c (associateCommand cs) p))) (\<lambda>result.
             let ip = \<lparr>ip_id = ar_Id result, ip_address = ar_Ipaddress result, ip_networkid = ar_Networkid result\<rparr> in
             if ar_JobID result \<noteq> [] then
               bind (waitJob api c (ar_JobID result) (unmarshal_associate api) result) (\<lambda>result1.
                 ret (ip\<lparr>ip_address := ar_Ipaddress result1\<rparr>))
             else ret ip))))"

definition releaseParams :: "loadBalancer \<Rightarrow> cloudstackIP \<Rightarrow> params" where
  "releaseParams lb ip = setProject (lb_projectID lb) (SetParam ''id'' (PStr (ip_id ip)) [])"

definition releaseLoadBalancerIP ::
  "'w api \<Rightarrow> CSCloud \<Rightarrow> loadBalancer \<Rightarrow> cloudstackIP \<Rightarrow> (('w, 'x) sys_scheme, unit) go" where
  "releaseLoadBalancerIP api cs lb ip =
    bind (lift_sum (getClient cs lb)) (\<lambda>c.
    bind (wrap_err (Wrapf ''error disassociate IP address using endpoint %q: %v'' [disassociateCommand cs])
      (io (CustomRequest c (disassociateCommand cs) (releaseParams lb ip))
        (req_job api c (disassociateCommand cs) (releaseParams lb ip)))) (\<lambda>jobID.
      if jobID \<noteq> [] then waitJob_nil api c jobID else ret ()))"

definition releaseIPIfManaged ::
  "'w api \<Rightarrow> CSCloud \<Rightarrow> loadBalancer \<Rightarrow> cloudstackIP \<Rightarrow> service \<Rightarrow> (('w, 'x) sys_scheme, unit) go" where
  "releaseIPIfManaged api cs lb ip svc =
    bind (getPublicIPAddressByID api cs lb (ip_id ip)) (\<lambda>publicIP.
      if shouldManageIP publicIP svc then releaseLoadBalancerIP api cs lb ip else ret ())"

section \<open>The address of a load balancer\<close>

text \<open>The part of \<open>getLoadBalancerIP\<close> that looks for the address of the service's status.\<close>

definition ingressIP ::
  "'w api \<Rightarrow> CSCloud \<Rightarrow> loadBalancer \<Rightarrow> service \<Rightarrow> (('w, 'x) sys_scheme, cloudstackIP option) go" where
  "ingressIP api cs lb svc = (case svc_Ingress svc of
      [] \<Rightarrow> ret None
    | i # _ \<Rightarrow>
        if ing_IP i = [] then ret None
        else bind (attempt (getPublicIPAddressByIP api cs lb (ing_IP i))) (\<lambda>r. case r of
            Inr ip \<Rightarrow> ret (Some ip)
          | Inl (IPNotFoundError _) \<Rightarrow> ret None
          | Inl err \<Rightarrow> throw err))"

text \<open>Tagging with rollback: when tagging fails the address is released.\<close>

definition tagOrRelease ::
  "'w api \<Rightarrow> CSCloud \<Rightarrow> loadBalancer \<Rightarrow> service \<Rightarrow> cloudstackIP \<Rightarrow> (('w, 'x) sys_scheme, cloudstackIP) go" where
  "tagOrRelease api cs lb svc ip =
    bind (attempt (assignTagsToIP api cs lb ip svc)) (\<lambda>r. case r of
        Inr _ \<Rightarrow> ret ip
      | Inl err \<Rightarrow>
          bind (attempt (releaseLoadBalancerIP api cs lb ip)) (\<lambda>r1. case r1 of
              Inr _ \<Rightarrow> throw err
            | Inl rollbackErr \<Rightarrow> throw (Errorf ''%v: error rolling back IP address: %v'' [Error err, Error rollbackErr])))"

definition getLoadBalancerIP ::
  "'w api \<Rightarrow> CSCloud \<Rightarrow> loadBalancer \<Rightarrow> service \<Rightarrow> string \<Rightarrow> (('w, 'x) sys_scheme, cloudstackIP) go" where
  "getLoadBalancerIP api cs lb svc netID =
    bind (tryPublicIPAddressByTags api cs lb svc) (\<lambda>tagged. case tagged of
        Some ip \<Rightarrow> ret ip
      | None \<Rightarrow>
          if svc_LoadBalancerIP svc \<noteq> [] then getPublicIPAddressByIP api cs lb (svc_LoadBalancerIP svc)
          else
            bind (ingressIP api cs lb svc) (\<lambda>found.
            bind (case found of Some ip \<Rightarrow> ret ip | None \<Rightarrow> associatePublicIPAddress api cs lb svc netID) (\<lambda>ip.
            tagOrRelease api cs lb svc ip)))"

definition loadLoadBalancerIP :: "'w api \<Rightarrow> CSCloud \<Rightarrow> loadBalancer \<Rightarrow> (('w, 'x) sys_scheme, loadBalancer) go" where
  "loadLoadBalancerIP api cs lb =
    (if isValid (lb_ip lb) then ret lb
     else bind (getLoadBalancerIP api cs lb (lb_service lb) (mainNetworkID lb)) (\<lambda>ip.
       ret (lb\<lparr>lb_ip := ip, mainNetworkID := ip_networkid ip\<rparr>)))"

definition updateLoadBalancerIP :: "'w api \<Rightarrow> CSCloud \<Rightarrow> loadBalancer \<Rightarrow> (('w, 'x) sys_scheme, loadBalancer) go" where
  "updateLoadBalancerIP api cs lb =
    bind (getPublicIPAddressByIP api cs lb (svc_LoadBalancerIP (lb_service lb))) (\<lambda>publicIP.
      let oldIP = lb_ip lb; lb1 = lb\<lparr>lb_ip := publicIP\<rparr> in
      bind (if lb_rule lb1 \<noteq> None then deleteLoadBalancerRule api cs lb1 else ret lb1) (\<lambda>lb2.
        if \<not> isValid oldIP then ret lb2
        else bind (releaseIPIfManaged api cs lb2 oldIP (lb_service lb2)) (\<lambda>_. ret lb2)))"

section \<open>Lemmas\<close>

lemma keeps_firstIP [keeps_intros]: "keeps (outside_only P) (firstIP ips)"
  by (auto simp: firstIP_def intro!: keeps_intros split: list.splits)

lemma keeps_find_ip [keeps_intros]:
  "keeps (outside_only read_only) (tryPublicIPAddressByTags api cs lb svc)"
  "keeps (outside_only read_only) (getPublicIPAddressByIP api cs lb a)"
  "keeps (outside_only read_only) (getPublicIPAddressByID api cs lb i)"
  by (auto simp: tryPublicIPAddressByTags_def getPublicIPAddressByIP_def getPublicIPAddressByID_def Let_def
      intro!: keeps_intros)

lemma keeps_ingressIP [keeps_intros]: "keeps (outside_only read_only) (ingressIP api cs lb svc)"
  by (auto simp: ingressIP_def intro!: keeps_intros split: list.splits sum.splits error.splits)

text \<open>The request that releases an address.\<close>

definition releaseCall :: "CSCloud \<Rightarrow> loadBalancer \<Rightarrow> client \<Rightarrow> cloudstackIP \<Rightarrow> call" where
  "releaseCall cs lb c ip = CustomRequest c (disassociateCommand cs) (releaseParams lb ip)"

lemma keeps_release:
  assumes "\<And>call. read_only call \<Longrightarrow> P call" "\<And>c. getClient cs lb = Inr c \<Longrightarrow> P (releaseCall cs lb c ip)"
  shows "keeps (outside_only P) (releaseLoadBalancerIP api cs lb ip)"
proof (cases "getClient cs lb")
  case (Inr c)
  have "keeps (outside_only P) (waitJob_nil api c j)" for j
    by (rule keeps_outside_mono [OF keeps_waitJob_nil assms(1)])
  with Inr assms(2) show ?thesis
    by (auto simp: releaseLoadBalancerIP_def releaseCall_def intro!: keeps_intros)
qed (auto simp: releaseLoadBalancerIP_def intro!: keeps_intros)

lemma release_calls:
  assumes "getClient cs lb = Inr c" "releaseLoadBalancerIP api cs lb ip s = (r, t)"
  shows "\<exists>cs'. trace t = trace s @ releaseCall cs lb c ip # cs' \<and> list_all read_only cs'"
proof -
  let ?m = "\<lambda>jobID. if jobID \<noteq> [] then waitJob_nil api c jobID else ret ()"
  have m: "keeps (outside_only read_only) (?m j)" for j
    by (auto intro!: keeps_intros)
  show ?thesis
  proof (cases rule: io_cases [where c = "releaseCall cs lb c ip" and s = s
        and f = "req_job api c (disassociateCommand cs) (releaseParams lb ip)"])
    case (1 j w)
    then have "?m j (s\<lparr>world := w, trace := trace s @ [releaseCall cs lb c ip]\<rparr>) = (r, t)"
      using assms by (simp add: releaseLoadBalancerIP_def releaseCall_def go_simps split: if_splits)
    from keepsD [OF m this] show ?thesis by (auto simp: outside_only_def)
  next
    case (2 e w)
    then show ?thesis
      using assms by (auto simp: releaseLoadBalancerIP_def releaseCall_def go_simps)
  qed
qed

lemma tagOrRelease_cases:
  assumes c: "getClient cs lb = Inr c" and run: "tagOrRelease api cs lb svc ip s = (r, t)"
  obtains (tagged) "r = Ret ip" "trace t = trace s @ tagCalls c CloudstackResourceIPAdress (ip_id ip) svc"
  | (released) n cs' where "\<And>x. r \<noteq> Ret x" "list_all read_only cs'"
    "trace t = trace s @ take n (tagCalls c CloudstackResourceIPAdress (ip_id ip) svc) @ releaseCall cs lb c ip # cs'"
proof -
  obtain r1 t1 where a: "assignTagsToIP api cs lb ip svc s = (r1, t1)" by fastforce
  from setTags_trace [OF c this [unfolded assignTagsToIP_def]]
  obtain n where n: "trace t1 = trace s @ take n (tagCalls c CloudstackResourceIPAdress (ip_id ip) svc)" "n \<le> 3"
    "r1 = Ret () \<longrightarrow> n = 3" and r1: "(\<exists>e. r1 = Err e) \<or> r1 = Ret ()" by blast
  from r1 show ?thesis
  proof
    assume "r1 = Ret ()"
    then show ?thesis
      using tagged a run n by (simp add: tagOrRelease_def go_simps tagCalls_def)
  next
    assume "\<exists>e. r1 = Err e"
    then obtain e where e: "r1 = Err e" by blast
    obtain r2 t2 where rel: "releaseLoadBalancerIP api cs lb ip t1 = (r2, t2)" by fastforce
    have "t = t2" "\<And>x. r \<noteq> Ret x"
      using run a e rel by (auto simp: tagOrRelease_def bind_def attempt_def throw_def split: outcome.splits)
    with release_calls [OF c rel] n(1) show ?thesis using released by force
  qed
qed

section \<open>Correctness\<close>

text \<open>What CloudStack answers to a query for an address or an ID: the single record, or that there is none.\<close>

definition addressQuery :: "loadBalancer \<Rightarrow> string \<Rightarrow> ipQuery" where
  "addressQuery lb a = withProject lb (newIPQuery\<lparr>q_Ipaddress := a, q_Listall := True\<rparr>)"

definition idQuery :: "loadBalancer \<Rightarrow> string \<Rightarrow> ipQuery" where
  "idQuery lb i = withProject lb (newIPQuery\<lparr>q_Id := i, q_Listall := True\<rparr>)"

definition knownIP :: "'w api \<Rightarrow> client \<Rightarrow> loadBalancer \<Rightarrow> string \<Rightarrow> 'w \<Rightarrow> cloudstackIP \<Rightarrow> bool" where
  "knownIP api c lb a w ip \<longleftrightarrow> (\<exists>n pip pips w'. api_listPublicIpAddresses api c (addressQuery lb a) w = (Inr (n, pip # pips), w')
     \<and> n \<noteq> 0 \<and> n \<le> 1 \<and> ip = toCloudstackIP pip)"

definition unknownIP :: "'w api \<Rightarrow> client \<Rightarrow> loadBalancer \<Rightarrow> string \<Rightarrow> 'w \<Rightarrow> bool" where
  "unknownIP api c lb a w \<longleftrightarrow> (\<exists>pips w'. api_listPublicIpAddresses api c (addressQuery lb a) w = (Inr (0, pips), w'))"

lemma getPublicIPAddressByIP_run:
  assumes c: "getClient cs lb = Inr c" and run: "getPublicIPAddressByIP api cs lb a s = (r, t)"
  shows "r = Ret ip \<Longrightarrow> knownIP api c lb a (world s) ip" "r = Err (IPNotFoundError b) \<Longrightarrow> unknownIP api c lb a (world s)"
proof -
  let ?call = "ListPublicIpAddresses c (addressQuery lb a)" and ?f = "api_listPublicIpAddresses api c (addressQuery lb a)"
  have "(r = Ret ip \<longrightarrow> knownIP api c lb a (world s) ip) \<and> (r = Err (IPNotFoundError b) \<longrightarrow> unknownIP api c lb a (world s))"
  proof (cases rule: io_cases [where c = ?call and s = s and f = ?f])
    case (1 ans w)
    obtain n pips where ans: "ans = (n, pips)" by fastforce
    have "(if n = 0 then throw (IPNotFoundError a) else if n > 1 then throw (Errorf ''multiple IP address found for %v'' [a])
        else bind (firstIP pips) (\<lambda>publicIP. ret (toCloudstackIP publicIP))) (s\<lparr>world := w, trace := trace s @ [?call]\<rparr>) = (r, t)"
      using run c 1(2) ans by (simp add: getPublicIPAddressByIP_def addressQuery_def [symmetric] Let_def go_simps)
    with 1(1) ans show ?thesis
      by (cases pips) (auto simp: knownIP_def unknownIP_def firstIP_def go_simps split: if_splits)
  next
    case (2 e w)
    then show ?thesis using run c by (auto simp: getPublicIPAddressByIP_def addressQuery_def [symmetric] Let_def go_simps)
  qed
  then show "r = Ret ip \<Longrightarrow> knownIP api c lb a (world s) ip" "r = Err (IPNotFoundError b) \<Longrightarrow> unknownIP api c lb a (world s)"
    by blast+
qed

text \<open>The first address of the service's status, empty when there is none.\<close>

definition statusAddress :: "service \<Rightarrow> string" where
  "statusAddress svc = (case svc_Ingress svc of [] \<Rightarrow> [] | i # _ \<Rightarrow> ing_IP i)"

lemma ingressIP_Ret:
  assumes c: "getClient cs lb = Inr c" and run: "ingressIP api cs lb svc s = (Ret found, t)"
  shows "case found of Some ip \<Rightarrow> statusAddress svc \<noteq> [] \<and> knownIP api c lb (statusAddress svc) (world s) ip
    | None \<Rightarrow> statusAddress svc = [] \<or> unknownIP api c lb (statusAddress svc) (world s)"
proof (cases "svc_Ingress svc = [] \<or> ing_IP (hd (svc_Ingress svc)) = []")
  case True
  then show ?thesis using run by (auto simp: ingressIP_def statusAddress_def ret_def split: list.splits)
next
  case False
  then obtain i js where i: "svc_Ingress svc = i # js" "ing_IP i \<noteq> []" by (cases "svc_Ingress svc") auto
  obtain x u where x: "attempt (getPublicIPAddressByIP api cs lb (ing_IP i)) s = (Ret x, u)"
    "(case x of Inr ip \<Rightarrow> ret (Some ip) | Inl (IPNotFoundError _) \<Rightarrow> ret None | Inl err \<Rightarrow> throw err) u = (Ret found, t)"
    using run i by (auto simp: ingressIP_def elim!: bind_RetE)
  from x(1) show ?thesis
  proof (cases rule: attempt_RetE)
    case (1 ip)
    with getPublicIPAddressByIP_run(1) [OF c 1(2) refl] x(2) i show ?thesis by (auto simp: ret_def statusAddress_def)
  next
    case (2 e)
    then obtain b where "e = IPNotFoundError b" "found = None" using x(2) by (cases e) (auto simp: ret_def throw_def)
    with getPublicIPAddressByIP_run(2) [OF c 2(2)] i show ?thesis by (auto simp: statusAddress_def)
  qed
qed

lemma associate_calls:
  assumes c: "getClient cs lb = Inr c" and run: "associatePublicIPAddress api cs lb svc netID s = (Ret ip, t)"
  shows "\<exists>net reads. trace t = trace s @ [GetNetworkByID c netID (lb_projectID lb),
      CustomRequest c (associateCommand cs) (associateParams cs lb svc netID net)] @ reads \<and> list_all read_only reads"
proof -
  let ?G = "GetNetworkByID c netID (lb_projectID lb)"
  obtain n r w where g: "api_getNetworkByID api c netID (lb_projectID lb) (world s) = ((n, r), w)" by (metis prod.collapse)
  then obtain net where net: "r = Inr net" using run c
    by (cases r) (auto simp: associatePublicIPAddress_def io_count_def go_simps split: if_splits)
  let ?p = "associateParams cs lb svc netID net" and ?s = "s\<lparr>world := w, trace := trace s @ [?G]\<rparr>"
  let ?A = "CustomRequest c (associateCommand cs) (associateParams cs lb svc netID net)"
  show ?thesis
  proof (cases rule: io_cases [where c = ?A and s = ?s and f = "req_associate api c (associateCommand cs) ?p"])
    case (1 res w1)
    let ?s1 = "s\<lparr>world := w1, trace := trace s @ [?G, ?A]\<rparr>"
    define k :: "(('a, 'b) sys_scheme, cloudstackIP) go" where
      "k = (let ip = \<lparr>ip_id = ar_Id res, ip_address = ar_Ipaddress res, ip_networkid = ar_Networkid res\<rparr> in
         if ar_JobID res \<noteq> [] then bind (waitJob api c (ar_JobID res) (unmarshal_associate api) res) (\<lambda>result1.
           ret (ip\<lparr>ip_address := ar_Ipaddress result1\<rparr>)) else ret ip)"
    have "keeps (outside_only read_only) k" unfolding k_def Let_def by (auto intro!: keeps_intros)
    moreover have "k ?s1 = (Ret ip, t)"
      using run c g net 1(2) by (simp add: associatePublicIPAddress_def io_count_def k_def go_simps Let_def)
    ultimately have "outside_only read_only ?s1 t" by (rule keepsD)
    then show ?thesis by (auto simp: outside_only_def)
  next
    case (2 e w1)
    then show ?thesis using run c g net by (auto simp: associatePublicIPAddress_def io_count_def Let_def go_simps)
  qed
qed


text \<open>A small outside world: no tagged address, every queried address known, allocation works, tagging fails.\<close>

definition sampleIPAPI :: "unit api" where
  "sampleIPAPI = offlineAPI\<lparr>
     api_listPublicIpAddresses := (\<lambda>_ q w. (Inr (if q_Ipaddress q = [] then (0, [])
       else (1, [\<lparr>pip_Id = ''ip5'', pip_Ipaddress = q_Ipaddress q, pip_Networkid = ''net1'', pip_Tags = []\<rparr>])), w)),
     api_getNetworkByID := (\<lambda>_ _ _ w. ((1, Inr \<lparr>net_Vpcid = []\<rparr>), w)),
     req_associate := (\<lambda>_ _ _ w. (Inr \<lparr>ar_Id = ''ip7'', ar_Ipaddress = ''10.0.0.7'', ar_Networkid = ''net1'', ar_JobID = []\<rparr>, w)),
     req_job := (\<lambda>_ _ _ w. (Inr [], w))\<rparr>"

abbreviation sampleState :: "unit sys" where
  "sampleState \<equiv> \<lparr>world = (), trace = []\<rparr>"

lemma sample_no_tagged:
  "\<exists>s1. tryPublicIPAddressByTags sampleIPAPI sampleCloud sampleLB svc sampleState = (Ret None, s1) \<and> world s1 = ()"
proof -
  let ?q = "withProject sampleLB (newIPQuery\<lparr>q_Listall := True, q_Tags := [(serviceTag, index0 (tagsForService svc) serviceTag)]\<rparr>)"
  have "\<exists>s1. listAllIPPages sampleIPAPI sampleClient ?q sampleState = (Ret [], s1)"
    unfolding listAllIPPages_def
    by (subst listAllPages_single) (auto simp: fetchIPs_def io_def sampleIPAPI_def withProject_def newIPQuery_def)
  then show ?thesis by (auto simp: tryPublicIPAddressByTags_def Let_def go_simps)
qed


text \<open>
  C23: an allocated address is not leaked. When no address was found and one was allocated, the lookup either
  returns it with all tags requested, or fails after having requested the release of that very address.
\<close>

theorem getLoadBalancerIP_no_leak:
  assumes c: "getClient cs lb = Inr c"
    and tags: "tryPublicIPAddressByTags api cs lb svc s = (Ret None, s1)" and spec: "svc_LoadBalancerIP svc = []"
    and ing: "ingressIP api cs lb svc s1 = (Ret None, s2)"
    and alloc: "associatePublicIPAddress api cs lb svc netID s2 = (Ret ip, s3)"
    and run: "getLoadBalancerIP api cs lb svc netID s = (r, t)"
  shows "(r = Ret ip \<and> trace t = trace s3 @ tagCalls c CloudstackResourceIPAdress (ip_id ip) svc)
    \<or> ((\<forall>x. r \<noteq> Ret x) \<and> (\<exists>cs'. trace t = trace s3 @ cs' \<and> releaseCall cs lb c ip \<in> set cs'))"
proof -
  have "tagOrRelease api cs lb svc ip s3 = (r, t)"
    using run tags spec ing alloc by (simp add: getLoadBalancerIP_def go_simps)
  then show ?thesis by (cases rule: tagOrRelease_cases [OF c]) auto
qed

theorem getLoadBalancerIP_no_leak_witness:
  "\<exists>e t. getLoadBalancerIP sampleIPAPI sampleCloud sampleLB sampleService ''net1'' sampleState = (Err e, t)
    \<and> releaseCall sampleCloud sampleLB sampleClient \<lparr>ip_id = ''ip7'', ip_address = ''10.0.0.7'', ip_networkid = ''net1''\<rparr> \<in> set (trace t)"
proof -
  let ?ip = "\<lparr>ip_id = ''ip7'', ip_address = ''10.0.0.7'', ip_networkid = ''net1''\<rparr>"
  obtain s1 where s1: "tryPublicIPAddressByTags sampleIPAPI sampleCloud sampleLB sampleService sampleState = (Ret None, s1)"
    using sample_no_tagged by blast
  have spec: "svc_LoadBalancerIP sampleService = []" and ing: "ingressIP sampleIPAPI sampleCloud sampleLB sampleService s1 = (Ret None, s1)"
    by (simp_all add: sampleService_def ingressIP_def ret_def)
  obtain s3 where alloc: "associatePublicIPAddress sampleIPAPI sampleCloud sampleLB sampleService ''net1'' s1 = (Ret ?ip, s3)"
    by (simp add: associatePublicIPAddress_def sampleIPAPI_def bind_def wrap_err_def io_def io_count_def ret_def Let_def)
  have "api_createTags sampleIPAPI = (\<lambda>_ _ _ _ w. (Inl ''offline'', w))"
    by (simp add: sampleIPAPI_def offlineAPI_def)
  moreover have "\<not> Contains ''offline'' ''already exist''" by code_simp
  ultimately have "\<exists>e t. assignTagsToIP sampleIPAPI sampleCloud sampleLB ?ip sampleService s3 = (Err e, t)"
    by (simp add: assignTagsToIP_def setDefaultTags_def setResourceTags_def sorted_tag_keys createTag_def Let_def
        bind_def attempt_def io_def throw_def ret_def del: Contains.simps)
  then obtain e1 t1 where "assignTagsToIP sampleIPAPI sampleCloud sampleLB ?ip sampleService s3 = (Err e1, t1)" by blast
  then have "\<exists>e t. tagOrRelease sampleIPAPI sampleCloud sampleLB sampleService ?ip s3 = (Err e, t)"
    by (simp add: tagOrRelease_def releaseLoadBalancerIP_def sampleIPAPI_def bind_def attempt_def wrap_err_def io_def throw_def ret_def)
  then obtain e t where t: "getLoadBalancerIP sampleIPAPI sampleCloud sampleLB sampleService ''net1'' sampleState = (Err e, t)"
    using s1 spec ing alloc by (auto simp: getLoadBalancerIP_def go_simps)
  from getLoadBalancerIP_no_leak [OF sampleLB_client s1 spec ing alloc t] t show ?thesis by auto
qed

text \<open>
  C24: the release of an address that is no longer used, when a load balancer is deleted or its address is replaced, asks
  CloudStack for the record of the address first, and requests the release only when that record carries the provider's,
  the service's and the namespace's tags; otherwise only reads are made. The rollback of a failed tagging does not go this
  way: it releases directly.
\<close>

theorem releaseIPIfManaged_only_managed:
  assumes run: "releaseIPIfManaged api cs lb ip svc s = (r, t)" and t: "trace t = trace s @ calls"
    and call: "call \<in> set calls" "\<not> read_only call"
  shows "\<exists>p s1 c. getPublicIPAddressByID api cs lb (ip_id ip) s = (Ret p, s1) \<and> getClient cs lb = Inr c
    \<and> getTag (pip_Tags p) cloudProviderTag = Some ProviderName \<and> getTag (pip_Tags p) serviceTag = Some (svc_Name svc)
    \<and> getTag (pip_Tags p) namespaceTag = Some (svc_Namespace svc) \<and> call = releaseCall cs lb c ip"
proof -
  obtain r1 s1 where g: "getPublicIPAddressByID api cs lb (ip_id ip) s = (r1, s1)" by fastforce
  have "outside_only read_only s s1" by (rule keepsD [OF keeps_find_ip(3) g])
  then obtain c1 where c1: "trace s1 = trace s @ c1" "list_all read_only c1" by (auto simp: outside_only_def)
  have no: "\<not> (t = s1)" using t c1 call by (auto simp: list_all_iff)
  then obtain p where p: "r1 = Ret p"
    using run g by (cases r1) (auto simp: releaseIPIfManaged_def go_simps)
  then have rel: "shouldManageIP p svc" "releaseLoadBalancerIP api cs lb ip s1 = (r, t)"
    using run g no by (auto simp: releaseIPIfManaged_def go_simps split: if_splits)
  obtain c where c: "getClient cs lb = Inr c"
    using rel(2) no by (cases "getClient cs lb") (auto simp: releaseLoadBalancerIP_def go_simps)
  from release_calls [OF c rel(2)] obtain c2 where
    "trace t = trace s1 @ releaseCall cs lb c ip # c2" "list_all read_only c2" by blast
  then have "call = releaseCall cs lb c ip"
    using t c1 call by (auto simp: list_all_iff)
  with g p c rel(1) show ?thesis by (auto simp: shouldManageIP_iff)
qed

theorem releaseIPIfManaged_only_managed_witness:
  "\<exists>p s1 c. getPublicIPAddressByID (sampleIPAPI\<lparr>api_listPublicIpAddresses := (\<lambda>_ q w. (Inr (1,
        [\<lparr>pip_Id = q_Id q, pip_Ipaddress = ''10.0.0.1'', pip_Networkid = ''net1'', pip_Tags = sampleTags\<rparr>]), w))\<rparr>)
      sampleCloud sampleLB ''ip1'' sampleState = (Ret p, s1) \<and> getClient sampleCloud sampleLB = Inr c
    \<and> getTag (pip_Tags p) serviceTag = Some ''web''"
proof -
  let ?api = "sampleIPAPI\<lparr>api_listPublicIpAddresses := (\<lambda>_ q w. (Inr (1,
        [\<lparr>pip_Id = q_Id q, pip_Ipaddress = ''10.0.0.1'', pip_Networkid = ''net1'', pip_Tags = sampleTags\<rparr>]), w))\<rparr>"
  have m: "shouldManageIP \<lparr>pip_Id = i, pip_Ipaddress = a, pip_Networkid = n, pip_Tags = sampleTags\<rparr> sampleService" for i a n
    by (simp add: shouldManageIP_iff sampleTags_def tag_defs ProviderName_def sampleService_def)
  have ip1: "ip_id (lb_ip sampleLB) = ''ip1''" and web: "svc_Name sampleService = ''web''"
    by (simp_all add: sampleLB_def sampleService_def)
  let ?p = "\<lparr>pip_Id = ''ip1'', pip_Ipaddress = ''10.0.0.1'', pip_Networkid = ''net1'', pip_Tags = sampleTags\<rparr>"
  obtain q where g: "getPublicIPAddressByID ?api sampleCloud sampleLB ''ip1'' sampleState = (Ret ?p, sampleState\<lparr>trace := [q]\<rparr>)"
    by (simp add: getPublicIPAddressByID_def bind_def wrap_err_def io_def ret_def firstIP_def withProject_def newIPQuery_def Let_def)
  have rel: "\<exists>t. releaseLoadBalancerIP ?api sampleCloud sampleLB (lb_ip sampleLB) u = (Ret (), t)
      \<and> trace t = trace u @ [releaseCall sampleCloud sampleLB sampleClient (lb_ip sampleLB)]" for u :: "unit sys"
    by (simp add: releaseLoadBalancerIP_def releaseCall_def sampleIPAPI_def bind_def wrap_err_def io_def ret_def)
  obtain t where t: "releaseIPIfManaged ?api sampleCloud sampleLB (lb_ip sampleLB) sampleService sampleState = (Ret (), t)"
    "trace t = trace sampleState @ [q, releaseCall sampleCloud sampleLB sampleClient (lb_ip sampleLB)]"
    using rel [of "sampleState\<lparr>trace := [q]\<rparr>"] g m by (auto simp: releaseIPIfManaged_def go_simps ip1)
  have "\<not> read_only (releaseCall sampleCloud sampleLB sampleClient (lb_ip sampleLB))"
    by (simp add: releaseCall_def disassociateCommand_def sample_defs)
  from releaseIPIfManaged_only_managed [OF t _ this] show ?thesis
    unfolding ip1 web by (simp only: list.set insert_iff simp_thms) blast
qed

lemma single_answer_panics:
  "fst (bind (wrap_err h (io call f)) (\<lambda>(n, ips). if n = 0 then throw e0 else if n > 1 then throw e1
      else bind (firstIP ips) (\<lambda>x. ret (k x))) s) = Panic p
    \<longleftrightarrow> p = ''index out of range'' \<and> (\<exists>n w. n \<noteq> (0 :: int) \<and> n \<le> 1 \<and> f (world s) = (Inr (n, []), w))"
proof (cases rule: io_cases [where c = call and f = f and s = s])
  case (1 ans w)
  obtain n ips where "ans = (n, ips)" by fastforce
  with 1 show ?thesis by (cases ips) (auto simp: firstIP_def go_simps)
next
  case (2 e w)
  then show ?thesis by (simp add: go_simps)
qed


end
