(* ===== verification/Queue.thy ===== *)
theory Queue
  imports Nodes ServiceLock Pools LBIP
begin

text \<open>
  \<open>cloudstack/service_queue.go\<close>: the queue of services whose load balancers wait for an update, its
  priority order, and the work done for one entry under the lock of its service. Instants and durations are
  integers; the clock is read once per operation. A worker is the turns of its loop, each with what woke it up; how
  long it waits in between, and the metrics, are left out.
\<close>

section \<open>State\<close>

record queueEntry =
  qe_service :: service
  qe_lb :: "loadBalancer option"
  updatePool :: bool
  start :: int
  backoffUntil :: int

text \<open>The state of the running provider: registry, queue and service locks on top of the outside world.\<close>

record 'w psys = "'w nsys" +
  queue :: "(serviceKey \<times> queueEntry) list"
  svcLock :: serviceLock

definition svcKey :: "service \<Rightarrow> serviceKey" where
  "svcKey svc = \<lparr>namespace = svc_Namespace svc, name = svc_Name svc\<rparr>"

text \<open>\<open>time.Time{}\<close>, before every instant the clock shows.\<close>

definition zeroTime :: int where
  "zeroTime = 0"

section \<open>The lock of a service around an operation\<close>

text \<open>
  \<open>Lock(service); defer Unlock(service)\<close> in one goroutine. Waiting for a lock that another goroutine holds is
  \<open>Block\<close>; unlocking a mutex that is not locked ends the process.
\<close>

definition lockService :: "serviceKey \<Rightarrow> (('w, 'x) psys_scheme, unit) go" where
  "lockService key = (\<lambda>s. case lock_enter key (svcLock s) of (m, l) \<Rightarrow>
     (case lock_acquire m l of
        None \<Rightarrow> (Block, s\<lparr>svcLock := l\<rparr>)
      | Some l1 \<Rightarrow> (Ret (), s\<lparr>svcLock := l1\<rparr>)))"

definition withLock :: "serviceKey \<Rightarrow> (('w, 'x) psys_scheme, 'a) go \<Rightarrow> (('w, 'x) psys_scheme, 'a) go" where
  "withLock key m = bind (lockService key) (\<lambda>_ s. case m s of
      (Block, t) \<Rightarrow> (Block, t)
    | (r, t) \<Rightarrow> (case Unlock key (svcLock t) of
         Some l \<Rightarrow> (r, t\<lparr>svcLock := l\<rparr>)
       | None \<Rightarrow> (Panic ''fatal error: sync: unlock of unlocked mutex'', t)))"

section \<open>Pushing\<close>

definition push :: "CSCloud \<Rightarrow> queueEntry \<Rightarrow> (('w, 'x) psys_scheme, unit) go" where
  "push cs entry =
    (let key = svcKey (qe_service entry) in
     bind (gets queue) (\<lambda>q. case map_of q key of
       Some existing \<Rightarrow>
         modify (queue_update (AList.update key (existing\<lparr>qe_service := qe_service entry, qe_lb := None\<rparr>)))
     | None \<Rightarrow>
         bind (gets registry) (\<lambda>reg.
         bind (lift_sum (nodesForService cs reg (Some (qe_service entry)))) (\<lambda>_.
         modify (queue_update (AList.update key entry))))))"

definition pushWithBackoff :: "'w api \<Rightarrow> CSCloud \<Rightarrow> queueEntry \<Rightarrow> (('w, 'x) psys_scheme, int) go" where
  "pushWithBackoff api cs entry =
    bind (local_io (limiter_When api (svcKey (qe_service entry)))) (\<lambda>backoff.
    bind (local_io (time_Now api)) (\<lambda>now1.
    bind (local_io (time_Now api)) (\<lambda>now2.
    bind (push cs (entry\<lparr>backoffUntil := now1 + backoff, start := now2, qe_lb := None\<rparr>)) (\<lambda>_.
    ret backoff))))"

section \<open>Popping\<close>

record queueEntryWithNodeRecent =
  ext_entry :: queueEntry
  topRevision :: "64 word"

definition topRevisionOf :: "nodeInfo list \<Rightarrow> 64 word" where
  "topRevisionOf ns = fold (\<lambda>node top. if ni_revision node > top then ni_revision node else top) ns 0"

definition extendEntries :: "nodeRegistry \<Rightarrow> (serviceKey \<times> queueEntry) list \<Rightarrow> queueEntryWithNodeRecent list" where
  "extendEntries reg q =
    map (\<lambda>(key, entry). \<lparr>ext_entry = entry, topRevision = topRevisionOf (nodesContainingService reg key)\<rparr>) q"

text \<open>\<open>time.Until(t) > 0\<close> at the instant \<open>now\<close> is \<open>t > now\<close>.\<close>

definition Less :: "int \<Rightarrow> queueEntryWithNodeRecent \<Rightarrow> queueEntryWithNodeRecent \<Rightarrow> bool" where
  "Less now ei ej =
    (let bi = backoffUntil (ext_entry ei); bj = backoffUntil (ext_entry ej) in
     if (bi > now \<or> bj > now) \<and> bi \<noteq> bj then bi < bj
     else if topRevision ei = topRevision ej then start (ext_entry ei) < start (ext_entry ej)
     else topRevision ei > topRevision ej)"

text \<open>
  \<open>sort.Sort\<close> as insertion by \<open>Less\<close> (what Go's sort does for up to twelve elements). What the queue needs of it is
  stated in the locale below for any sort that satisfies the contract of \<open>sort.Interface\<close>.
\<close>

fun insertBy :: "('e \<Rightarrow> 'e \<Rightarrow> bool) \<Rightarrow> 'e \<Rightarrow> 'e list \<Rightarrow> 'e list" where
  "insertBy lt x [] = [x]"
| "insertBy lt x (y # ys) = (if lt y x then y # insertBy lt x ys else x # y # ys)"

fun sortBy :: "('e \<Rightarrow> 'e \<Rightarrow> bool) \<Rightarrow> 'e list \<Rightarrow> 'e list" where
  "sortBy lt [] = []"
| "sortBy lt (x # xs) = insertBy lt x (sortBy lt xs)"

definition pop :: "'w api \<Rightarrow> (('w, 'x) psys_scheme, queueEntry option) go" where
  "pop api =
    bind (gets registry) (\<lambda>reg.
    bind (gets queue) (\<lambda>q.
      let entries = extendEntries reg q in
      if length entries = 0 then ret None
      else
        bind (local_io (time_Now api)) (\<lambda>now.
          let entry = ext_entry (sortBy (Less now) entries ! 0) in
          if backoffUntil entry > now then ret None
          else bind (modify (queue_update (AList.delete (svcKey (qe_service entry))))) (\<lambda>_. ret (Some entry)))))"

section \<open>Processing\<close>

text \<open>The work on an entry, with the lock of its service held.\<close>

definition processEntry :: "'w api \<Rightarrow> CSCloud \<Rightarrow> queueEntry \<Rightarrow> (('w, 'x) psys_scheme, unit) go" where
  "processEntry api cs entry =
    bind (gets registry) (\<lambda>reg.
    bind (lift_sum (nodesForService cs reg (Some (qe_service entry)))) (\<lambda>ns.
      let (hostIDs, networkIDs, projectID) = idsForNodes ns in
      bind (case qe_lb entry of
          Some lb \<Rightarrow> ret (Some lb)
        | None \<Rightarrow>
            bind (getLoadBalancer api cs (qe_service entry) projectID networkIDs) (\<lambda>lb.
              if lb_rule lb = None then ret None
              else if shouldManageLB lb \<noteq> None then ret None
              else ret (Some lb))) (\<lambda>found.
        case found of
          None \<Rightarrow> ret ()
        | Some lb \<Rightarrow>
            bind (syncNodes api cs lb hostIDs networkIDs) (\<lambda>_.
            if updatePool entry then updateLoadBalancerPool api cs lb else ret ()))))"

definition processQueueEntry :: "'w api \<Rightarrow> CSCloud \<Rightarrow> queueEntry \<Rightarrow> (('w, 'x) psys_scheme, unit) go" where
  "processQueueEntry api cs entry = withLock (svcKey (qe_service entry)) (processEntry api cs entry)"

text \<open>
  What a worker does with the outcome of the work on an entry: a failed entry goes back into the queue with a backoff,
  and both outcomes are reported as events of the service.
\<close>

definition finishEntry :: "'w api \<Rightarrow> CSCloud \<Rightarrow> queueEntry \<Rightarrow> error + unit \<Rightarrow> (('w, 'x) psys_scheme, bool) go" where
  "finishEntry api cs item r = (case r of
      Inl err \<Rightarrow>
        bind (attempt (pushWithBackoff api cs item)) (\<lambda>pushed.
          let retryMsg = (case pushed of
                Inl pushErr \<Rightarrow> Sprintf ''error trying to requeue: %v'' [Error pushErr]
              | Inr backoff \<Rightarrow> Sprintf ''retry in %v'' [Duration_String backoff]);
              msg = Sprintf ''Error updating load balancer with new hosts: %v - %v'' [Error err, retryMsg];
              key = svcKey (qe_service item)
          in bind (event_io (RecordEvent key ''QueuedUpdateLoadBalancerFailed'' msg)
               (kube_event api key ''QueuedUpdateLoadBalancerFailed'' msg)) (\<lambda>_. ret True))
    | Inr _ \<Rightarrow>
        (let key = svcKey (qe_service item); msg = ''Updated load balancer with new hosts'' in
         bind (local_do (limiter_Forget api key)) (\<lambda>_.
         bind (event_io (RecordEvent key ''QueuedUpdatedLoadBalancer'' msg)
           (kube_event api key ''QueuedUpdatedLoadBalancer'' msg)) (\<lambda>_. ret True))))"

text \<open>One look of a worker at the queue: whether there was an entry to work on.\<close>

definition workerStep :: "'w api \<Rightarrow> CSCloud \<Rightarrow> (('w, 'x) psys_scheme, bool) go" where
  "workerStep api cs =
    bind (pop api) (\<lambda>popped. case popped of
      None \<Rightarrow> ret False
    | Some item \<Rightarrow> bind (attempt (processQueueEntry api cs item)) (finishEntry api cs item))"

text \<open>
  The worker goroutines: as many as configured, zero means the default. The loop around their looks at the queue is in the
  theory of the life of the process.
\<close>

definition defaultUpdateLBWorkers :: int where
  "defaultUpdateLBWorkers = 5"

definition numWorkers :: "CSCloud \<Rightarrow> int" where
  "numWorkers cs = (let workers = UpdateLBWorkers (Global (config cs)) in if workers = 0 then defaultUpdateLBWorkers else workers)"

section \<open>The order of the queue\<close>

text \<open>
  The contract of \<open>sort.Interface\<close>: \<open>lt\<close> is a strict weak order. A sort by it puts an element in front that no
  other element precedes.
\<close>

locale strict_weak_order =
  fixes lt :: "'e \<Rightarrow> 'e \<Rightarrow> bool"
  assumes lt_irrefl: "\<not> lt x x"
    and lt_trans: "lt x y \<Longrightarrow> lt y z \<Longrightarrow> lt x z"
    and incomparable_trans: "\<not> lt x y \<Longrightarrow> \<not> lt y z \<Longrightarrow> \<not> lt x z"
begin

lemma set_insertBy: "set (insertBy lt x ys) = insert x (set ys)"
  by (induction ys) auto

lemma set_sortBy [simp]: "set (sortBy lt xs) = set xs"
  by (induction xs) (auto simp: set_insertBy)

lemma length_sortBy [simp]: "length (sortBy lt xs) = length xs"
proof (induction xs)
  case (Cons x xs)
  have "length (insertBy lt x ys) = Suc (length ys)" for ys by (induction ys) auto
  with Cons show ?case by simp
qed simp

lemma sorted_insertBy: "sorted_wrt (\<lambda>x y. \<not> lt y x) ys \<Longrightarrow> sorted_wrt (\<lambda>x y. \<not> lt y x) (insertBy lt x ys)"
proof (induction ys)
  case (Cons y ys)
  show ?case
  proof (cases "lt y x")
    case True
    then have "\<not> lt x y" using lt_irrefl lt_trans by blast
    with True Cons show ?thesis by (auto simp: set_insertBy)
  next
    case False
    with Cons show ?thesis using incomparable_trans by auto
  qed
qed simp

lemma sorted_sortBy: "sorted_wrt (\<lambda>x y. \<not> lt y x) (sortBy lt xs)"
  by (induction xs) (auto intro: sorted_insertBy)

lemma head_minimal: "x \<in> set xs \<Longrightarrow> \<not> lt x (sortBy lt xs ! 0)"
proof -
  assume x: "x \<in> set xs"
  have "sortBy lt xs \<noteq> []" using x set_sortBy [of xs] by (metis empty_iff set_empty)
  then obtain y ys where s: "sortBy lt xs = y # ys" by (meson list.exhaust)
  have "x = y \<or> x \<in> set ys" using x set_sortBy [of xs] unfolding s by auto
  moreover have "\<not> lt x y" if "x \<in> set ys" using that sorted_sortBy [of xs] unfolding s by simp
  ultimately show ?thesis using lt_irrefl by (auto simp: s)
qed

end

text \<open>The queue's order is lexicographic: time left to wait, then revision, then age.\<close>

definition entryKey :: "int \<Rightarrow> queueEntryWithNodeRecent \<Rightarrow> int \<times> int \<times> int" where
  "entryKey now e = (max (backoffUntil (ext_entry e)) now, - uint (topRevision e), start (ext_entry e))"

fun lex3 :: "int \<times> int \<times> int \<Rightarrow> int \<times> int \<times> int \<Rightarrow> bool" where
  "lex3 (a, b, c) (a', b', c') \<longleftrightarrow> a < a' \<or> a = a' \<and> (b < b' \<or> b = b' \<and> c < c')"

lemma Less_key: "Less now ei ej \<longleftrightarrow> lex3 (entryKey now ei) (entryKey now ej)"
  by (auto simp: Less_def entryKey_def Let_def max_def word_less_def word_uint_eq_iff)

interpretation queue_order: strict_weak_order "Less now"
proof (unfold_locales, goal_cases)
  case (1 x)
  then show ?case by (cases "entryKey now x") (auto simp: Less_key)
next
  case (2 x y z)
  then show ?case by (cases "entryKey now x"; cases "entryKey now y"; cases "entryKey now z") (auto simp: Less_key)
next
  case (3 x y z)
  then show ?case by (cases "entryKey now x"; cases "entryKey now y"; cases "entryKey now z") (auto simp: Less_key)
qed

section \<open>Lemmas\<close>

subsection \<open>What a run leaves alone\<close>

text \<open>\<open>calls_only P\<close>: whatever else changes, the calls made all satisfy \<open>P\<close>.\<close>

definition calls_only :: "(call \<Rightarrow> bool) \<Rightarrow> ('w, 'x) sys_scheme \<Rightarrow> ('w, 'x) sys_scheme \<Rightarrow> bool" where
  "calls_only P s t \<longleftrightarrow> (\<exists>cs. trace t = trace s @ cs \<and> list_all P cs)"

interpretation calls: frame_relation "calls_only P"
  by unfold_locales (auto simp: calls_only_def)

lemma outside_calls: "outside_only P s t \<Longrightarrow> calls_only P s t"
  by (auto simp: outside_only_def calls_only_def)

lemma keeps_outside_calls: "keeps (outside_only P) m \<Longrightarrow> keeps (calls_only P) m"
  by (auto simp: keeps_def intro: outside_calls)

lemma keeps_modify_calls: "(\<And>s. trace (f s) = trace s) \<Longrightarrow> keeps (calls_only P) (modify f)"
  by (auto simp: keeps_def modify_def calls_only_def)

lemma calls_only_mono: "calls_only P s t \<Longrightarrow> (\<And>c. P c \<Longrightarrow> Q c) \<Longrightarrow> calls_only Q s t"
  by (auto simp: calls_only_def list_all_iff)

lemma keeps_calls_mono: "keeps (calls_only P) m \<Longrightarrow> (\<And>c. P c \<Longrightarrow> Q c) \<Longrightarrow> keeps (calls_only Q) m"
  by (auto simp: keeps_def intro: calls_only_mono)

text \<open>\<open>work_only\<close>: registry, queue and locks are as before.\<close>

definition work_only :: "('w, 'x) psys_scheme \<Rightarrow> ('w, 'x) psys_scheme \<Rightarrow> bool" where
  "work_only s t \<longleftrightarrow> registry t = registry s \<and> queue t = queue s \<and> svcLock t = svcLock s"

interpretation work: frame_relation work_only
  by unfold_locales (auto simp: work_only_def)

lemma outside_work: "outside_only P s t \<Longrightarrow> work_only s t"
  by (cases s; cases t) (auto simp: outside_only_def work_only_def)

lemma keeps_outside_work: "keeps (outside_only P) m \<Longrightarrow> keeps work_only m"
  by (auto simp: keeps_def intro: outside_work)

subsection \<open>The service lock around an operation\<close>

lemma lockService_run:
  assumes free: "map_of (inUse (svcLock s)) key = None"
  shows "lockService key s = (Ret (), s\<lparr>svcLock := \<lparr>inUse = AList.update key (length (heap (svcLock s))) (inUse (svcLock s)),
    heap = heap (svcLock s) @ [\<lparr>counter = 1, locked = True\<rparr>]\<rparr>\<rparr>)"
  using free by (simp add: lockService_def lock_enter_def getLocker_def lock_acquire_def Let_def nth_append list_update_append)

lemma Unlock_run:
  assumes "inUse l = AList.update key (length h) u" "heap l = h @ [\<lparr>counter = 1, locked = True\<rparr>]"
  shows "Unlock key l = Some (l\<lparr>inUse := AList.delete key (inUse l), heap := h @ [\<lparr>counter = 0, locked = False\<rparr>]\<rparr>)"
  using assms by (simp add: Unlock_def getLocker_def update_conv' Let_def nth_append list_update_append)

text \<open>
  When nobody refers to the service, an operation that leaves the lock alone runs to its own outcome and the lock
  is free again; only an operation that never ends keeps it.
\<close>

lemma withLock_free:
  assumes free: "map_of (inUse (svcLock s)) key = None" and m: "keeps R m" "\<And>s t. R s t \<Longrightarrow> svcLock t = svcLock s"
    and run: "withLock key m s = (r, t)" and ends: "r \<noteq> Block"
  shows "\<exists>s1 t1. world s1 = world s \<and> trace s1 = trace s \<and> registry s1 = registry s \<and> queue s1 = queue s \<and> psys.more s1 = psys.more s
    \<and> m s1 = (r, t1) \<and> t = t1\<lparr>svcLock := svcLock t\<rparr> \<and> map_of (inUse (svcLock t)) = map_of (inUse (svcLock s))"
proof -
  let ?l = "\<lparr>inUse = AList.update key (length (heap (svcLock s))) (inUse (svcLock s)),
    heap = heap (svcLock s) @ [\<lparr>counter = 1, locked = True\<rparr>]\<rparr>"
  obtain r1 t1 where m1: "m (s\<lparr>svcLock := ?l\<rparr>) = (r1, t1)" by fastforce
  have l: "svcLock t1 = ?l" using m(2) [OF keepsD [OF m(1) m1]] by simp
  have u: "Unlock key (svcLock t1) = Some ((svcLock t1)\<lparr>inUse := AList.delete key (inUse (svcLock t1)),
      heap := heap (svcLock s) @ [\<lparr>counter = 0, locked = False\<rparr>]\<rparr>)"
    by (rule Unlock_run) (simp_all add: l)
  have "withLock key m s = (case m (s\<lparr>svcLock := ?l\<rparr>) of (Block, t) \<Rightarrow> (Block, t)
    | (r, t) \<Rightarrow> (case Unlock key (svcLock t) of Some l \<Rightarrow> (r, t\<lparr>svcLock := l\<rparr>)
       | None \<Rightarrow> (Panic ''fatal error: sync: unlock of unlocked mutex'', t)))"
    using lockService_run [OF free] by (simp add: withLock_def go_simps)
  with run ends m1 u have "r1 = r" "t = t1\<lparr>svcLock := (svcLock t1)\<lparr>inUse := AList.delete key (inUse (svcLock t1)),
      heap := heap (svcLock s) @ [\<lparr>counter = 0, locked = False\<rparr>]\<rparr>\<rparr>"
    by (auto split: outcome.splits)
  then show ?thesis
    using m1 l free by (intro exI [of _ "s\<lparr>svcLock := ?l\<rparr>"] exI [of _ t1]) (auto simp: delete_conv' update_conv' fun_eq_iff)
qed

lemma lockService_trace: "trace (snd (lockService key s)) = trace s"
  by (simp add: lockService_def split: prod.splits option.splits)

lemma keeps_withLock_calls:
  assumes m: "keeps (calls_only P) m"
  shows "keeps (calls_only P) (withLock key m)"
  unfolding withLock_def
proof (rule calls.keeps_bind)
  show "keeps (calls_only P) (lockService key)"
    by (simp add: keeps_def calls_only_def lockService_trace)
next
  fix u :: unit
  have "calls_only P s (snd (case m s of (Block, t) \<Rightarrow> (Block, t)
    | (r, t) \<Rightarrow> (case Unlock key (svcLock t) of Some l \<Rightarrow> (r, t\<lparr>svcLock := l\<rparr>)
       | None \<Rightarrow> (Panic ''fatal error: sync: unlock of unlocked mutex'', t))))" for s
  proof -
    obtain r t where mt: "m s = (r, t)" by fastforce
    from keepsD [OF m mt] show ?thesis
      by (simp add: mt calls_only_def split: outcome.split option.split)
  qed
  then show "keeps (calls_only P) (\<lambda>s. case m s of (Block, t) \<Rightarrow> (Block, t)
    | (r, t) \<Rightarrow> (case Unlock key (svcLock t) of Some l \<Rightarrow> (r, t\<lparr>svcLock := l\<rparr>)
       | None \<Rightarrow> (Panic ''fatal error: sync: unlock of unlocked mutex'', t)))"
    unfolding keeps_def by blast
qed

subsection \<open>Processing an entry\<close>

text \<open>The calls that bring the hosts and networks of a rule in line.\<close>

definition sync_call :: "CSCloud \<Rightarrow> string \<Rightarrow> call \<Rightarrow> bool" where
  "sync_call cs rid call \<longleftrightarrow> read_only call
     \<or> (\<exists>c ids. call = AssignToLoadBalancerRule c rid ids) \<or> (\<exists>c ids. call = RemoveFromLoadBalancerRule c rid ids)
     \<or> (\<exists>c p. call = CustomRequest c (AssignNetworks (Command (config cs))) p \<and> map_of p ''id'' = Some (PStr rid))"

lemma keeps_assignNetworks:
  assumes "lb_rule lb = Some rule"
  shows "keeps (outside_only (sync_call cs (rule_Id rule))) (assignNetworksToRule api cs lb ns)"
proof -
  have "keeps (outside_only (sync_call cs (rule_Id rule))) (waitJob_nil api c j)" for c j
    by (rule keeps_outside_mono [OF keeps_waitJob_nil]) (simp add: sync_call_def)
  then show ?thesis
    using assms unfolding assignNetworksToRule_def assignNetworkToRule_def withRule_def Let_def
    by (auto simp: sync_call_def intro!: keeps_intros split: sum.splits)
qed

lemma keeps_syncNodes:
  assumes "lb_rule lb = Some rule"
  shows "keeps (outside_only (sync_call cs (rule_Id rule))) (syncNodes api cs lb hosts ns)"
proof -
  have "keeps (outside_only (sync_call cs (rule_Id rule))) (listAllLBInstancesPages api c rid)" for c rid
    by (rule keeps_outside_mono [OF keeps_listAll(1)]) (simp add: sync_call_def)
  then show ?thesis
    using assms keeps_assignNetworks [OF assms]
    unfolding syncNodes_def assignHostsToRule_def removeHostsFromRule_def withRule_def Let_def
    by (auto simp: sync_call_def intro!: keeps_intros split: prod.splits)
qed

lemma keeps_work_rule_ops:
  "keeps work_only (syncNodes api cs lb hosts ns)" "keeps work_only (updateLoadBalancerPool api cs lb)"
proof -
  have none: "keeps (outside_only (\<lambda>_. True)) (syncNodes api cs lb hosts ns)"
    "keeps (outside_only (\<lambda>_. True)) (updateLoadBalancerPool api cs lb)" if "lb_rule lb = None"
    using that by (auto simp: syncNodes_def updateLoadBalancerPool_def withRule_def intro!: keeps_intros)
  show "keeps work_only (syncNodes api cs lb hosts ns)"
    by (cases "lb_rule lb") (auto intro: keeps_outside_work none keeps_syncNodes)
  show "keeps work_only (updateLoadBalancerPool api cs lb)"
    by (cases "lb_rule lb") (auto intro: keeps_outside_work none keeps_updateLoadBalancerPool)
qed

lemma keeps_work_lift: "keeps work_only (lift_sum r)"
  by (rule keeps_outside_work [OF keeps_lift_sum])

lemma keeps_processEntry: "keeps work_only (processEntry api cs entry)"
  unfolding processEntry_def Let_def
  by (auto intro!: work.keeps_rules keeps_work_lift keeps_work_rule_ops keeps_outside_work [OF keeps_getLoadBalancer]
      split: option.splits prod.splits)

lemma work_only_lock: "work_only s t \<Longrightarrow> svcLock t = svcLock s"
  by (simp add: work_only_def)

lemma processQueueEntry_free:
  assumes free: "map_of (inUse (svcLock s)) (svcKey (qe_service entry)) = None"
    and run: "processQueueEntry api cs entry s = (r, t)" and ends: "r \<noteq> Block"
  shows "registry t = registry s \<and> queue t = queue s \<and> map_of (inUse (svcLock t)) = map_of (inUse (svcLock s))"
proof -
  obtain s1 t1 where s1: "registry s1 = registry s" "queue s1 = queue s" "processEntry api cs entry s1 = (r, t1)"
    "t = t1\<lparr>svcLock := svcLock t\<rparr>" "map_of (inUse (svcLock t)) = map_of (inUse (svcLock s))"
    using withLock_free [OF free keeps_processEntry work_only_lock run [unfolded processQueueEntry_def] ends] by blast
  have "work_only s1 t1" by (rule keepsD [OF keeps_processEntry s1(3)])
  moreover have "registry t = registry t1" "queue t = queue t1" by (subst s1(4), simp)+
  ultimately show ?thesis using s1 by (simp add: work_only_def)
qed

subsection \<open>The contents of the queue\<close>

text \<open>
  Every entry is stored under the key of its service, once, and a load balancer kept in an entry has a rule, so
  that a worker never follows a nil rule.
\<close>

definition entry_wf :: "serviceKey \<Rightarrow> queueEntry \<Rightarrow> bool" where
  "entry_wf k e \<longleftrightarrow> svcKey (qe_service e) = k \<and> (\<forall>lb. qe_lb e = Some lb \<longrightarrow> lb_rule lb \<noteq> None)"

definition queue_wf :: "(serviceKey \<times> queueEntry) list \<Rightarrow> bool" where
  "queue_wf q \<longleftrightarrow> distinct (map fst q) \<and> (\<forall>k e. map_of q k = Some e \<longrightarrow> entry_wf k e)"

lemma queue_wf_update: "queue_wf q \<Longrightarrow> entry_wf k e \<Longrightarrow> queue_wf (AList.update k e q)"
  by (auto simp: queue_wf_def distinct_update update_conv')

lemma queue_wf_delete: "queue_wf q \<Longrightarrow> queue_wf (AList.delete k q)"
  by (auto simp: queue_wf_def distinct_delete delete_conv' split: if_splits)

text \<open>What a push does to the queue, on each branch.\<close>

definition mergeEntry :: "queueEntry option \<Rightarrow> queueEntry \<Rightarrow> queueEntry" where
  "mergeEntry old e = (case old of None \<Rightarrow> e | Some x \<Rightarrow> x\<lparr>qe_service := qe_service e, qe_lb := None\<rparr>)"

lemma push_run:
  "push cs e s = (let key = svcKey (qe_service e) in
     if map_of (queue s) key = None \<and> (\<exists>x. nodesForService cs (registry s) (Some (qe_service e)) = Inl x)
     then (Err (projl (nodesForService cs (registry s) (Some (qe_service e)))), s)
     else (Ret (), s\<lparr>queue := AList.update key (mergeEntry (map_of (queue s) key) e) (queue s)\<rparr>))"
  by (auto simp: push_def mergeEntry_def Let_def bind_def gets_def modify_def lift_sum_def throw_def ret_def
      split: option.splits sum.splits)

lemma entry_wf_merge:
  assumes "queue_wf q" "entry_wf (svcKey (qe_service e)) e"
  shows "entry_wf (svcKey (qe_service e)) (mergeEntry (map_of q (svcKey (qe_service e))) e)"
  using assms by (auto simp: mergeEntry_def entry_wf_def split: option.splits)

lemma push_wf:
  assumes "push cs e s = (r, t)" "queue_wf (queue s)" "entry_wf (svcKey (qe_service e)) e"
  shows "queue_wf (queue t) \<and> registry t = registry s \<and> svcLock t = svcLock s"
  using assms entry_wf_merge [OF assms(2,3)]
  by (auto simp: push_run Let_def split: if_splits intro: queue_wf_update)

lemma pushWithBackoff_run:
  assumes "limiter_When api (svcKey (qe_service e)) (world s) = (b, w1)" "time_Now api w1 = (now1, w2)" "time_Now api w2 = (now2, w3)"
  shows "pushWithBackoff api cs e s = (case push cs (e\<lparr>backoffUntil := now1 + b, start := now2, qe_lb := None\<rparr>) (s\<lparr>world := w3\<rparr>) of
      (Ret _, t) \<Rightarrow> (Ret b, t) | (Err x, t) \<Rightarrow> (Err x, t) | (Panic p, t) \<Rightarrow> (Panic p, t) | (Block, t) \<Rightarrow> (Block, t))"
  using assms by (simp add: pushWithBackoff_def bind_def local_io_def ret_def split: prod.splits outcome.splits)

subsection \<open>Popping\<close>

definition revisionOf :: "nodeRegistry \<Rightarrow> serviceKey \<Rightarrow> 64 word" where
  "revisionOf reg k = topRevisionOf (nodesContainingService reg k)"

lemma extendEntries_mem:
  "x \<in> set (extendEntries reg q) \<longleftrightarrow> (\<exists>k e. (k, e) \<in> set q \<and> x = \<lparr>ext_entry = e, topRevision = revisionOf reg k\<rparr>)"
  by (force simp: extendEntries_def revisionOf_def)

lemma sortBy_hd_mem: "xs \<noteq> [] \<Longrightarrow> sortBy (Less now) xs ! 0 \<in> set xs"
  by (metis length_greater_0_conv nth_mem queue_order.length_sortBy queue_order.set_sortBy)

text \<open>
  The entry at the head: whether it is ready decides whether any is, and among the ready ones none has a newer node
  revision, nor the same revision and an earlier start.
\<close>

lemma head_ready:
  assumes mem: "(k', e') \<in> set q" and head: "sortBy (Less now) (extendEntries reg q) ! 0 = \<lparr>ext_entry = e, topRevision = revisionOf reg k\<rparr>"
    and ready: "backoffUntil e' \<le> now"
  shows "backoffUntil e \<le> now \<and> \<not> revisionOf reg k' > revisionOf reg k
    \<and> (revisionOf reg k' = revisionOf reg k \<longrightarrow> start e \<le> start e')"
proof -
  have "\<not> Less now \<lparr>ext_entry = e', topRevision = revisionOf reg k'\<rparr> \<lparr>ext_entry = e, topRevision = revisionOf reg k\<rparr>"
    using queue_order.head_minimal [of _ "extendEntries reg q" now] mem head by (auto simp: extendEntries_mem)
  then show ?thesis using ready by (auto simp: Less_def Let_def split: if_splits)
qed

lemma pop_cases:
  assumes wf: "queue_wf (queue s)" and now: "time_Now api (world s) = (now, w)" and run: "pop api s = (r, t)"
  obtains (none) "r = Ret None" "queue t = queue s" "registry t = registry s" "svcLock t = svcLock s"
      "\<And>k e. map_of (queue s) k = Some e \<Longrightarrow> backoffUntil e > now"
  | (some) k e where "r = Ret (Some e)" "map_of (queue s) k = Some e" "svcKey (qe_service e) = k" "backoffUntil e \<le> now"
      "queue t = AList.delete k (queue s)" "registry t = registry s" "svcLock t = svcLock s"
      "\<And>k' e'. map_of (queue s) k' = Some e' \<Longrightarrow> backoffUntil e' \<le> now \<Longrightarrow>
        \<not> revisionOf (registry s) k' > revisionOf (registry s) k
        \<and> (revisionOf (registry s) k' = revisionOf (registry s) k \<longrightarrow> start e \<le> start e')"
proof (cases "queue s = []")
  case True
  then show ?thesis using run none by (simp add: pop_def extendEntries_def bind_def gets_def ret_def Let_def)
next
  case False
  let ?es = "extendEntries (registry s) (queue s)"
  have ne: "?es \<noteq> []" using False by (simp add: extendEntries_def)
  from sortBy_hd_mem [OF ne, of now] obtain k e where ke: "(k, e) \<in> set (queue s)"
    and hd: "sortBy (Less now) ?es ! 0 = \<lparr>ext_entry = e, topRevision = revisionOf (registry s) k\<rparr>"
    by (auto simp: extendEntries_mem)
  have look: "map_of (queue s) k = Some e" and key: "svcKey (qe_service e) = k"
    using wf ke by (auto simp: queue_wf_def entry_wf_def intro: map_of_is_SomeI)
  have eq: "pop api s = (if backoffUntil e > now then (Ret None, s\<lparr>world := w\<rparr>)
      else (Ret (Some e), s\<lparr>world := w, queue := AList.delete (svcKey (qe_service e)) (queue s)\<rparr>))"
    using ne now hd by (simp add: pop_def bind_def gets_def local_io_def modify_def ret_def Let_def)
  show ?thesis
  proof (cases "backoffUntil e > now")
    case True
    have "backoffUntil e' > now" if "map_of (queue s) k' = Some e'" for k' e'
      using head_ready [OF map_of_SomeD [OF that] hd] True by linarith
    with True show ?thesis using none run eq by auto
  next
    case False
    note rd = head_ready [OF map_of_SomeD hd, THEN conjunct2]
    from False show ?thesis
      using some [OF _ look key] run eq key rd by auto
  qed
qed

lemma finishEntry_True: "finishEntry api cs e r s = (Ret ok, t) \<Longrightarrow> ok"
  by (auto simp: finishEntry_def Let_def ret_def elim!: bind_RetE split: sum.splits)

section \<open>Correctness\<close>

text \<open>
  C10: the queue refines a map from services to pending updates with a priority. A pop answers that nothing is
  ready only when every pending entry still backs off; otherwise it removes exactly one ready entry, one whose
  service was touched by the newest node revision, the oldest of those.
\<close>

theorem pop_refines:
  assumes "queue_wf (queue s)" and "time_Now api (world s) = (now, w)" and "pop api s = (r, t)"
  shows "(r = Ret None \<and> map_of (queue t) = map_of (queue s)
      \<and> (\<forall>k e. map_of (queue s) k = Some e \<longrightarrow> backoffUntil e > now))
    \<or> (\<exists>k e. r = Ret (Some e) \<and> map_of (queue s) k = Some e \<and> backoffUntil e \<le> now
      \<and> map_of (queue t) = (map_of (queue s))(k := None)
      \<and> (\<forall>k' e'. map_of (queue s) k' = Some e' \<and> backoffUntil e' \<le> now \<longrightarrow>
          \<not> revisionOf (registry s) k' > revisionOf (registry s) k
          \<and> (revisionOf (registry s) k' = revisionOf (registry s) k \<longrightarrow> start e \<le> start e')))"
  using assms by (cases rule: pop_cases) (auto simp: delete_conv')

definition sampleEntry :: queueEntry where
  "sampleEntry = \<lparr>qe_service = sampleService, qe_lb = None, updatePool = False, start = 5, backoffUntil = 0\<rparr>"

definition sampleKey :: serviceKey where
  "sampleKey = \<lparr>namespace = ''ns1'', name = ''web''\<rparr>"

definition samplePsys :: "unit psys" where
  "samplePsys = \<lparr>world = (), trace = [], registry = \<lparr>nodes = [(''n1'', sampleNode)], svcNodes = [], revision = 1\<rparr>,
     queue = [(sampleKey, sampleEntry)], svcLock = newServiceLock\<rparr>"

lemma sample_key [simp]: "svcKey sampleService = sampleKey"
  by (simp add: svcKey_def sampleService_def sampleKey_def)

lemma sample_queue_wf: "queue_wf (queue samplePsys)"
  by (auto simp: samplePsys_def queue_wf_def entry_wf_def sampleEntry_def)

theorem pop_refines_witness:
  "\<exists>r t. pop offlineAPI samplePsys = (r, t) \<and> r = Ret (Some sampleEntry) \<and> map_of (queue t) sampleKey = None"
proof -
  obtain r t where run: "pop offlineAPI samplePsys = (r, t)" by fastforce
  have "time_Now offlineAPI (world samplePsys) = (0, ())"
    by (simp add: offlineAPI_def)
  from pop_refines [OF sample_queue_wf this run] run show ?thesis
    by (auto simp: samplePsys_def sampleEntry_def split: if_splits)
qed

text \<open>
  C14: pushing a service that is pending already only replaces its service object; in particular the request to
  update the health check pools that comes with an ensured load balancer is dropped, and so is the load balancer
  found by it.
\<close>

theorem push_pending:
  assumes "map_of (queue s) (svcKey (qe_service e)) = Some old"
  shows "\<exists>t. push cs e s = (Ret (), t)
    \<and> map_of (queue t) = (map_of (queue s))(svcKey (qe_service e) \<mapsto> old\<lparr>qe_service := qe_service e, qe_lb := None\<rparr>)"
  using assms by (auto simp: push_run mergeEntry_def Let_def update_conv')

theorem push_pending_witness:
  "\<exists>t. push sampleCloud (sampleEntry\<lparr>updatePool := True\<rparr>) samplePsys = (Ret (), t)
    \<and> map_of (queue t) sampleKey = Some (sampleEntry\<lparr>updatePool := False\<rparr>)"
proof -
  have key: "svcKey (qe_service (sampleEntry\<lparr>updatePool := True\<rparr>)) = sampleKey"
    by (simp add: sampleEntry_def sampleKey_def svcKey_def sampleService_def)
  have "map_of (queue samplePsys) sampleKey = Some sampleEntry" by (simp add: samplePsys_def)
  with push_pending [of samplePsys "sampleEntry\<lparr>updatePool := True\<rparr>" sampleEntry sampleCloud, unfolded key] show ?thesis
    by (auto simp: sampleEntry_def)
qed

text \<open>
  C13: no update is lost. When the work on a popped entry fails and the service still has nodes, the worker puts the entry
  back: with the same service and pool flag, without the stale load balancer, not to be taken before the delay that the
  rate limiter gives for the service has passed since then, and started anew. Every other pending entry stays.
\<close>

theorem workerStep_requeues:
  assumes wf: "queue_wf (queue s)" and idle: "inUse (svcLock s) = []"
    and pop: "pop api s = (Ret (Some e), s1)" and fail: "processQueueEntry api cs e s1 = (Err err, s2)"
    and nodes: "nodesForService cs (registry s) (Some (qe_service e)) = Inr ns"
    and limit: "limiter_When api (svcKey (qe_service e)) (world s2) = (delay, w1)"
    and now: "time_Now api w1 = (now1, w2)" "time_Now api w2 = (now2, w3)"
  shows "\<exists>t. workerStep api cs s = (Ret True, t) \<and> map_of (queue t) = (map_of (queue s))
    (svcKey (qe_service e) \<mapsto> e\<lparr>qe_lb := None, start := now2, backoffUntil := now1 + delay\<rparr>)"
proof -
  obtain now w where n0: "time_Now api (world s) = (now, w)" by fastforce
  let ?k = "svcKey (qe_service e)" and ?e = "e\<lparr>backoffUntil := now1 + delay, start := now2, qe_lb := None\<rparr>"
  have s1: "queue s1 = AList.delete ?k (queue s)" "registry s1 = registry s" "svcLock s1 = svcLock s"
    using pop by (cases rule: pop_cases [OF wf n0 pop]; simp)+
  have s2: "queue s2 = AList.delete ?k (queue s)" "registry s2 = registry s"
    using processQueueEntry_free [OF _ fail] s1 idle by auto
  have "pushWithBackoff api cs e s2 = (Ret delay, s2\<lparr>world := w3, queue := AList.update ?k ?e (queue s2)\<rparr>)"
    using pushWithBackoff_run [OF limit now] s2 nodes by (simp add: push_run mergeEntry_def delete_conv' Let_def)
  then show ?thesis
    using pop fail s2
    by (intro exI [of _ "snd (workerStep api cs s)"])
      (auto simp: workerStep_def finishEntry_def go_simps event_io_def Let_def update_conv' delete_conv' fun_eq_iff)
qed

text \<open>A limiter that asks for fifteen seconds, at time seven.\<close>

definition delayAPI :: "unit api" where
  "delayAPI = offlineAPI\<lparr>limiter_When := (\<lambda>_ w. (15000000000, w)), time_Now := (\<lambda>w. (7, w))\<rparr>"

theorem workerStep_requeues_witness:
  "\<exists>t. workerStep delayAPI sampleCloud samplePsys = (Ret True, t)
    \<and> map_of (queue t) sampleKey = Some (sampleEntry\<lparr>start := 7, backoffUntil := 15000000007\<rparr>)"
proof -
  obtain s1 where pop: "pop delayAPI samplePsys = (Ret (Some sampleEntry), s1)"
    and s1: "s1 = samplePsys\<lparr>queue := []\<rparr>"
    by (simp add: pop_def samplePsys_def sampleEntry_def extendEntries_def bind_def gets_def modify_def local_io_def
        delayAPI_def offlineAPI_def ret_def Let_def)
  have "(case fst (processQueueEntry delayAPI sampleCloud sampleEntry (samplePsys\<lparr>queue := []\<rparr>)) of Err _ \<Rightarrow> True | _ \<Rightarrow> False)"
    by code_simp
  then obtain err s2 where fail: "processQueueEntry delayAPI sampleCloud sampleEntry s1 = (Err err, s2)"
    unfolding s1 by (cases "processQueueEntry delayAPI sampleCloud sampleEntry (samplePsys\<lparr>queue := []\<rparr>)")
      (auto split: outcome.splits)
  have nodes: "nodesForService sampleCloud (registry samplePsys) (Some (qe_service sampleEntry)) = Inr [sampleNode]"
    by (simp add: nodesForService_def serves_def samplePsys_def sampleNode_def sampleEntry_def Let_def)
  have idle: "inUse (svcLock samplePsys) = []"
    by (simp add: samplePsys_def newServiceLock_def)
  have "limiter_When delayAPI (svcKey (qe_service sampleEntry)) (world s2) = (15000000000, ())"
    "time_Now delayAPI () = (7, ())" by (simp_all add: delayAPI_def)
  from workerStep_requeues [OF sample_queue_wf idle pop fail nodes this(1) this(2,2)] show ?thesis by (auto simp: sampleEntry_def)
qed

end
