(* ===== verification/Provider.thy ===== *)
theory Provider
  imports Queue "HOL-Library.Code_Target_Nat"
begin

text \<open>
  The load balancer interface the controller manager calls (\<open>cloudstack/loadbalancer.go\<close>):
  \<open>GetLoadBalancer\<close>, \<open>EnsureLoadBalancer\<close>, \<open>UpdateLoadBalancer\<close> and \<open>EnsureLoadBalancerDeleted\<close>, composed from the
  registry, the queue, the service lock and the operations on rules and addresses. A nil service is \<open>None\<close>.
\<close>

section \<open>Definitions\<close>

type_synonym status = "ingress list"

definition lbStatus :: "loadBalancer \<Rightarrow> status" where
  "lbStatus lb = [\<lparr>ing_IP = ip_address (lb_ip lb), ing_Hostname = lb_name lb\<rparr>]"

text \<open>A load balancer that does not exist is \<open>None\<close>.\<close>

definition getLocked :: "'w api \<Rightarrow> CSCloud \<Rightarrow> service \<Rightarrow> (('w, 'x) psys_scheme, status option) go" where
  "getLocked api cs svc =
    bind (getLoadBalancer api cs svc [] []) (\<lambda>lb.
      if lb_rule lb = None then ret None else ret (Some (lbStatus lb)))"

definition GetLoadBalancer :: "'w api \<Rightarrow> CSCloud \<Rightarrow> service option \<Rightarrow> (('w, 'x) psys_scheme, status option) go" where
  "GetLoadBalancer api cs svc = (case svc of
      None \<Rightarrow> throw (Errorf ''GetLoadBalancer: service cannot be nil'' [])
    | Some svc \<Rightarrow> withLock (svcKey svc) (getLocked api cs svc))"

text \<open>The project label is written into the service object, which panics when it has no label map, and patched.\<close>

definition setProjectLabel :: "'w api \<Rightarrow> CSCloud \<Rightarrow> loadBalancer \<Rightarrow> (('w, 'x) sys_scheme, loadBalancer) go" where
  "setProjectLabel api cs lb =
    (let label = ProjectIDLabel (Global (config cs)); svc = lb_service lb; project = lb_projectID lb in
     if project \<noteq> [] \<and> label \<noteq> [] \<and> str_or_empty (map_of (labels (svc_meta svc)) label) = [] then
       (case om_Labels (svc_meta svc) of
          None \<Rightarrow> panic ''assignment to entry in nil map''
        | Some ls \<Rightarrow>
            (let svc1 = svc\<lparr>svc_meta := (svc_meta svc)\<lparr>om_Labels := Some (AList.update label project ls)\<rparr>\<rparr>;
                 patch = createJSONPatchForLabel label project in
             bind (wrap_err (Wrapf ''unable to patch service with project-id label: %v'' [])
               (io (PatchService (svc_Namespace svc) (svc_Name svc) patch)
                 (kube_patchService api (svc_Namespace svc) (svc_Name svc) patch))) (\<lambda>_.
             ret (lb\<lparr>lb_service := svc1\<rparr>))))
     else ret lb)"

text \<open>Up to the decision whether the provider manages the load balancer.\<close>

definition findForEnsure ::
  "'w api \<Rightarrow> CSCloud \<Rightarrow> service \<Rightarrow> kubeNode list \<Rightarrow> (('w, 'x) psys_scheme, loadBalancer) go" where
  "findForEnsure api cs svc ns =
    (if length (svc_Ports svc) = 0 then throw (Errorf ''requested load balancer with no ports'' [])
     else
       bind (updateNodes api cs ns) (\<lambda>_.
       bind (gets registry) (\<lambda>reg.
       bind (lift_sum (idsForService cs reg (Some svc))) (\<lambda>(_, networkIDs, projectID).
       bind (getLoadBalancer api cs svc projectID networkIDs) (\<lambda>lb.
       bind (setProjectLabel api cs lb) (\<lambda>lb1.
       lift_sum (setAlgorithm (lb_service lb1) lb1)))))))"

definition ensureIP :: "'w api \<Rightarrow> CSCloud \<Rightarrow> loadBalancer \<Rightarrow> (('w, 'x) sys_scheme, loadBalancer) go" where
  "ensureIP api cs lb =
    bind (loadLoadBalancerIP api cs lb) (\<lambda>lb1.
      if svc_LoadBalancerIP (lb_service lb1) \<noteq> [] \<and> ip_address (lb_ip lb1) \<noteq> svc_LoadBalancerIP (lb_service lb1)
      then updateLoadBalancerIP api cs lb1 else ret lb1)"

definition ensureRule :: "'w api \<Rightarrow> CSCloud \<Rightarrow> loadBalancer \<Rightarrow> (('w, 'x) sys_scheme, loadBalancer) go" where
  "ensureRule api cs lb =
    bind (checkLoadBalancerRule api cs lb) (\<lambda>(result, lb1).
    bind (if needsUpdate result then updateLoadBalancerRule api cs lb1 else ret ()) (\<lambda>_.
    bind (if needsTags result then assignTagsToRule api cs lb1 else ret ()) (\<lambda>_.
    if \<not> exists_rule result then
      bind (createLoadBalancerRule api cs lb1) (\<lambda>(rule, lb2).
        let lb3 = lb2\<lparr>lb_rule := Some rule\<rparr> in
        bind (assignTagsToRule api cs lb3) (\<lambda>_. ret lb3))
    else ret lb1)))"

definition ensureLocked ::
  "'w api \<Rightarrow> CSCloud \<Rightarrow> service \<Rightarrow> kubeNode list \<Rightarrow> (('w, 'x) psys_scheme, status) go" where
  "ensureLocked api cs svc ns =
    bind (findForEnsure api cs svc ns) (\<lambda>lb.
      case shouldManageLB lb of
        Some err \<Rightarrow> throw err
      | None \<Rightarrow>
          bind (ensureIP api cs lb) (\<lambda>lb1.
          bind (ensureRule api cs lb1) (\<lambda>lb2.
          bind (local_io (time_Now api)) (\<lambda>now.
          bind (push cs \<lparr>qe_service = lb_service lb2, qe_lb = Some lb2, updatePool = True, start = now,
            backoffUntil = zeroTime\<rparr>) (\<lambda>_.
          ret (lbStatus lb1))))))"

definition EnsureLoadBalancer ::
  "'w api \<Rightarrow> CSCloud \<Rightarrow> service option \<Rightarrow> kubeNode list \<Rightarrow> (('w, 'x) psys_scheme, status) go" where
  "EnsureLoadBalancer api cs svc ns = (case svc of
      None \<Rightarrow> throw (Errorf ''EnsureLoadBalancer: service cannot be nil'' [])
    | Some svc \<Rightarrow> withLock (svcKey svc) (ensureLocked api cs svc ns))"

definition UpdateLoadBalancer ::
  "'w api \<Rightarrow> CSCloud \<Rightarrow> service option \<Rightarrow> kubeNode list \<Rightarrow> (('w, 'x) psys_scheme, unit) go" where
  "UpdateLoadBalancer api cs svc ns = (case svc of
      None \<Rightarrow> throw (Errorf ''UpdateLoadBalancer: service cannot be nil'' [])
    | Some svc \<Rightarrow>
        bind (updateNodes api cs ns) (\<lambda>_.
        bind (local_io (time_Now api)) (\<lambda>now.
        push cs \<lparr>qe_service = svc, qe_lb = None, updatePool = False, start = now, backoffUntil = zeroTime\<rparr>)))"

definition deleteLocked :: "'w api \<Rightarrow> CSCloud \<Rightarrow> service \<Rightarrow> (('w, 'x) psys_scheme, unit) go" where
  "deleteLocked api cs svc =
    bind (getLoadBalancer api cs svc [] []) (\<lambda>lb.
      if lb_rule lb = None then ret ()
      else if \<not> isLBRemovalEnabled cs lb svc then ret ()
      else if shouldManageLB lb \<noteq> None then ret ()
      else
        bind (deleteLoadBalancerRule api cs lb) (\<lambda>lb1.
        if ip_id (lb_ip lb1) \<noteq> [] then releaseIPIfManaged api cs lb1 (lb_ip lb1) svc else ret ()))"

definition EnsureLoadBalancerDeleted :: "'w api \<Rightarrow> CSCloud \<Rightarrow> service option \<Rightarrow> (('w, 'x) psys_scheme, unit) go" where
  "EnsureLoadBalancerDeleted api cs svc = (case svc of
      None \<Rightarrow> throw (Errorf ''EnsureLoadBalancerDeleted: service cannot be nil'' [])
    | Some svc \<Rightarrow> withLock (svcKey svc) (deleteLocked api cs svc))"

section \<open>Lemmas\<close>

subsection \<open>Calls before the decision\<close>

text \<open>Looking for the load balancer reads only, apart from the label patch of the service itself.\<close>

definition prepare_call :: "call \<Rightarrow> bool" where
  "prepare_call call \<longleftrightarrow> read_only call \<or> (\<exists>ns nm p. call = PatchService ns nm p)"

lemma keeps_setProjectLabel: "keeps (outside_only prepare_call) (setProjectLabel api cs lb)"
  by (auto simp: setProjectLabel_def Let_def prepare_call_def intro!: keeps_intros split: option.splits)

lemma keeps_updateNode_calls: "keeps (calls_only read_only) (updateNode api cs n)"
  unfolding updateNode_def Let_def
  by (auto intro!: calls.keeps_rules keeps_modify_calls keeps_outside_calls [OF keeps_newNodeInfo]
      split: option.splits prod.splits)

lemma keeps_updateNodes_calls: "keeps (calls_only read_only) (updateNodes api cs ns)"
  unfolding updateNodes_def
  by (auto intro!: calls.keeps_rules keeps_modify_calls keeps_updateNode_calls)

lemma keeps_lift_calls: "keeps (calls_only P) (lift_sum r)"
  by (rule keeps_outside_calls [OF keeps_lift_sum])

lemma keeps_findForEnsure: "keeps (calls_only prepare_call) (findForEnsure api cs svc ns)"
proof -
  have "keeps (calls_only prepare_call) (updateNodes api cs ns)"
    by (rule keeps_calls_mono [OF keeps_updateNodes_calls]) (simp add: prepare_call_def)
  moreover have "keeps (calls_only prepare_call) (getLoadBalancer api cs svc p n)" for p n
    by (rule keeps_calls_mono [OF keeps_outside_calls [OF keeps_getLoadBalancer]]) (simp add: prepare_call_def)
  ultimately show ?thesis
    unfolding findForEnsure_def
    by (auto intro!: calls.keeps_rules keeps_lift_calls keeps_outside_calls [OF keeps_setProjectLabel])
qed

lemma calls_prefix:
  assumes "calls_only P s t" "trace t = trace s @ cs" "c \<in> set cs"
  shows "P c"
  using assms by (auto simp: calls_only_def list_all_iff)

subsection \<open>What stays of the load balancer\<close>

lemma loadLoadBalancerIP_Ret:
  "loadLoadBalancerIP api cs lb s = (Ret lb1, t) \<Longrightarrow>
    lb1\<lparr>lb_ip := lb_ip lb, mainNetworkID := mainNetworkID lb\<rparr> = lb"
  by (auto simp: loadLoadBalancerIP_def ret_def elim!: bind_RetE split: if_splits)

lemma updateLoadBalancerIP_Ret:
  "updateLoadBalancerIP api cs lb s = (Ret lb1, t) \<Longrightarrow> lb_rule lb1 = None \<and> lb1\<lparr>lb_ip := lb_ip lb, lb_rule := lb_rule lb\<rparr> = lb"
  by (auto simp: updateLoadBalancerIP_def Let_def ret_def dest!: deleteLoadBalancerRule_Ret elim!: bind_RetE split: if_splits)

lemma ensureIP_Ret:
  assumes "ensureIP api cs lb s = (Ret lb1, t)"
  shows "lb_service lb1 = lb_service lb \<and> lb_name lb1 = lb_name lb \<and> lb_environment lb1 = lb_environment lb
    \<and> lb_projectID lb1 = lb_projectID lb"
proof -
  obtain lb2 t2 where l: "loadLoadBalancerIP api cs lb s = (Ret lb2, t2)"
    and rest: "(if svc_LoadBalancerIP (lb_service lb2) \<noteq> [] \<and> ip_address (lb_ip lb2) \<noteq> svc_LoadBalancerIP (lb_service lb2)
      then updateLoadBalancerIP api cs lb2 else ret lb2) t2 = (Ret lb1, t)"
    using assms unfolding ensureIP_def by (rule bind_RetE)
  have "lb_service lb2 = lb_service lb \<and> lb_name lb2 = lb_name lb \<and> lb_environment lb2 = lb_environment lb
    \<and> lb_projectID lb2 = lb_projectID lb"
    using loadLoadBalancerIP_Ret [OF l] by (metis (no_types) loadBalancer.ext_inject loadBalancer.surjective
        loadBalancer.update_convs(5,6))
  moreover have "lb_service lb1 = lb_service lb2 \<and> lb_name lb1 = lb_name lb2 \<and> lb_environment lb1 = lb_environment lb2
    \<and> lb_projectID lb1 = lb_projectID lb2"
    using rest by (cases lb1; cases lb2) (auto simp: ret_def dest!: updateLoadBalancerIP_Ret split: if_splits)
  ultimately show ?thesis by simp
qed

text \<open>A load balancer that has been ensured has a rule, and the ports of its service may have been sorted.\<close>

lemma ensureRule_Ret:
  fixes s :: "('w, 'x) sys_scheme"
  assumes "ensureRule api cs lb s = (Ret lb1, t)"
  shows "lb_rule lb1 \<noteq> None \<and> lb_name lb1 = lb_name lb \<and> lb_ip lb1 = lb_ip lb
    \<and> svc_meta (lb_service lb1) = svc_meta (lb_service lb)"
proof -
  obtain res lb2 t2 where c: "checkLoadBalancerRule api cs lb s = (Ret (res, lb2), t2)"
    and rest: "bind (if needsUpdate res then updateLoadBalancerRule api cs lb2 else ret ()) (\<lambda>_.
      bind (if needsTags res then assignTagsToRule api cs lb2 else ret ()) (\<lambda>_.
      if \<not> exists_rule res then
        bind (createLoadBalancerRule api cs lb2) (\<lambda>(rule, lb2).
          let lb3 = lb2\<lparr>lb_rule := Some rule\<rparr> in bind (assignTagsToRule api cs lb3) (\<lambda>_. ret lb3))
      else ret lb2)) t2 = (Ret lb1, t)"
    using assms unfolding ensureRule_def by (elim bind_RetE) auto
  have same: "lb_name lb2 = lb_name lb \<and> lb_ip lb2 = lb_ip lb \<and> svc_meta (lb_service lb2) = svc_meta (lb_service lb)"
    using checkLoadBalancerRule_Ret [OF c]
    by (metis (no_types) loadBalancer.select_convs loadBalancer.surjective loadBalancer.update_convs(7,8)
        service.select_convs(1) service.surjective service.update_convs(2))
  show ?thesis
  proof (cases "exists_rule res")
    case True
    then have "lb1 = lb2" using rest by (auto simp: ret_def elim!: bind_RetE)
    with True same checkLoadBalancerRule_Ret [OF c] show ?thesis by simp
  next
    case False
    with rest obtain rule lb3 and s3 t3 :: "('w, 'x) sys_scheme" where "createLoadBalancerRule api cs lb2 s3 = (Ret (rule, lb3), t3)"
      "lb1 = lb3\<lparr>lb_rule := Some rule\<rparr>"
      by (auto simp: ret_def Let_def elim!: bind_RetE)
    with createLoadBalancerRule_Ret same show ?thesis by fastforce
  qed
qed

lemma setProjectLabel_Ret:
  "setProjectLabel api cs lb s = (Ret lb1, t) \<Longrightarrow> lb_rule lb1 = lb_rule lb \<and> lb_name lb1 = lb_name lb
    \<and> svcKey (lb_service lb1) = svcKey (lb_service lb) \<and> svc_Ingress (lb_service lb1) = svc_Ingress (lb_service lb)"
  by (auto simp: setProjectLabel_def Let_def ret_def panic_def svcKey_def elim!: bind_RetE split: if_splits option.splits)

lemma setAlgorithm_Inr:
  "setAlgorithm svc lb = Inr lb1 \<Longrightarrow> lb_rule lb1 = lb_rule lb \<and> lb_name lb1 = lb_name lb \<and> lb_service lb1 = lb_service lb"
  by (auto simp: setAlgorithm_def split: if_splits)

text \<open>The decision only depends on the rule, the name of the load balancer and the identity and status of the service.\<close>

lemma shouldManageLB_cong:
  assumes "lb_rule lb1 = lb_rule lb" "lb_name lb1 = lb_name lb" "svcKey (lb_service lb1) = svcKey (lb_service lb)"
    "svc_Ingress (lb_service lb1) = svc_Ingress (lb_service lb)"
  shows "shouldManageLB lb1 = None \<longleftrightarrow> shouldManageLB lb = None"
proof -
  have tags: "tagsForService (lb_service lb1) = tagsForService (lb_service lb)"
    using assms(3) by (simp add: tagsForService_def svcKey_def)
  show ?thesis using assms(1,2,4) by (auto simp: shouldManageLB_def missingTags_def tags Let_def split: option.splits)
qed

lemma findForEnsure_Ret:
  fixes s :: "('w, 'x) psys_scheme"
  assumes "findForEnsure api cs svc ns s = (Ret lb, t)"
  shows "\<exists>lb0 p n (s0 :: ('w, 'x) psys_scheme) t0. getLoadBalancer api cs svc p n s0 = (Ret lb0, t0) \<and> lb_rule lb = lb_rule lb0
    \<and> lb_name lb = getLoadBalancerName cs svc \<and> svcKey (lb_service lb) = svcKey svc
    \<and> (shouldManageLB lb = None \<longleftrightarrow> shouldManageLB lb0 = None)"
proof -
  obtain p n lb0 lb1 and s0 t0 t1 t2 :: "('w, 'x) psys_scheme" where g: "getLoadBalancer api cs svc p n s0 = (Ret lb0, t0)"
    and l: "setProjectLabel api cs lb0 t0 = (Ret lb1, t1)"
    and a: "lift_sum (setAlgorithm (lb_service lb1) lb1) t1 = (Ret lb, t2)"
    using assms unfolding findForEnsure_def
    by (auto simp: throw_def elim!: bind_RetE split: if_splits)
  have "setAlgorithm (lb_service lb1) lb1 = Inr lb"
    using a by (auto simp: lift_sum_def throw_def ret_def split: sum.splits)
  note al = setAlgorithm_Inr [OF this] and pl = setProjectLabel_Ret [OF l] and gl = getLoadBalancer_Ret [OF g]
  have "shouldManageLB lb = None \<longleftrightarrow> shouldManageLB lb0 = None"
    by (rule shouldManageLB_cong) (simp_all add: al pl)
  moreover have "lb_rule lb = lb_rule lb0" "lb_name lb = getLoadBalancerName cs svc" "svcKey (lb_service lb) = svcKey svc"
    by (simp_all add: al pl gl)
  ultimately show ?thesis using g by (intro exI conjI)
qed

subsection \<open>Queue and lock\<close>

text \<open>\<open>same_work\<close>: the queue and the locks are as before, whatever happened to the registry.\<close>

definition same_work :: "('w, 'x) psys_scheme \<Rightarrow> ('w, 'x) psys_scheme \<Rightarrow> bool" where
  "same_work s t \<longleftrightarrow> svcLock t = svcLock s \<and> queue t = queue s"

definition same_lock :: "('w, 'x) psys_scheme \<Rightarrow> ('w, 'x) psys_scheme \<Rightarrow> bool" where
  "same_lock s t \<longleftrightarrow> svcLock t = svcLock s"

interpretation work_kept: frame_relation same_work
  by unfold_locales (auto simp: same_work_def)

interpretation lock_kept: frame_relation same_lock
  by unfold_locales (auto simp: same_lock_def)

lemma same_lockD: "same_lock s t \<Longrightarrow> svcLock t = svcLock s"
  by (simp add: same_lock_def)

lemma keeps_work_lock: "keeps same_work m \<Longrightarrow> keeps same_lock m"
  by (auto simp: keeps_def same_work_def same_lock_def)

lemma keeps_outside_same: "keeps (outside_only P) m \<Longrightarrow> keeps same_work m"
  unfolding keeps_def same_work_def using outside_work work_only_def by blast

lemma keeps_modify_same: "(\<And>s. svcLock (f s) = svcLock s) \<Longrightarrow> (\<And>s. queue (f s) = queue s) \<Longrightarrow> keeps same_work (modify f)"
  by (auto simp: keeps_def modify_def same_work_def)

lemma keeps_updateNodes_same: "keeps same_work (updateNodes api cs ns)"
  unfolding updateNodes_def updateNode_def Let_def
  by (auto intro!: work_kept.keeps_rules keeps_modify_same keeps_outside_same [OF keeps_newNodeInfo]
      split: option.splits prod.splits)

lemma keeps_findForEnsure_same: "keeps same_work (findForEnsure api cs svc ns)"
  unfolding findForEnsure_def
  by (auto intro!: work_kept.keeps_rules keeps_outside_same [OF keeps_lift_sum] keeps_updateNodes_same
      keeps_outside_same [OF keeps_getLoadBalancer] keeps_outside_same [OF keeps_setProjectLabel])

lemma keeps_push_lock: "keeps same_lock (push cs e)"
  by (auto simp: keeps_def same_lock_def push_run Let_def)

text \<open>Operations on rules and addresses change only the outside world.\<close>

lemma keeps_outside_all:
  "keeps (outside_only (\<lambda>_. True)) (deleteLoadBalancerRule api cs lb)"
  "keeps (outside_only (\<lambda>_. True)) (releaseIPIfManaged api cs lb ip svc)"
  "keeps (outside_only (\<lambda>_. True)) (ensureIP api cs lb)"
  "keeps (outside_only (\<lambda>_. True)) (ensureRule api cs lb)"
proof -
  note any = keeps_outside_mono [where P = read_only and Q = "\<lambda>_. True", OF _ TrueI]
  have del: "keeps (outside_only (\<lambda>_. True)) (deleteLoadBalancerRule api cs lb)" for lb
    unfolding deleteLoadBalancerRule_def Let_def
    by (auto intro!: keeps_intros keeps_withRule any [OF keeps_waitJob_nil])
  have rel: "keeps (outside_only (\<lambda>_. True)) (releaseLoadBalancerIP api cs lb ip)" for lb ip
    by (rule keeps_release) simp_all
  have relm: "keeps (outside_only (\<lambda>_. True)) (releaseIPIfManaged api cs lb ip svc)" for lb ip svc
    unfolding releaseIPIfManaged_def by (auto intro!: keeps_intros any [OF keeps_find_ip(3)] rel)
  have tags: "keeps (outside_only (\<lambda>_. True)) (setResourceTags api cs lb ty rid ts)" for lb ty rid ts
    by (rule keeps_setResourceTags) simp
  have assoc: "keeps (outside_only (\<lambda>_. True)) (associatePublicIPAddress api cs lb svc n)" for lb svc n
    unfolding associatePublicIPAddress_def Let_def
    by (auto intro!: keeps_intros any [OF keeps_waitJob] split: sum.splits)
  have tor: "keeps (outside_only (\<lambda>_. True)) (tagOrRelease api cs lb svc ip)" for lb svc ip
    unfolding tagOrRelease_def setTags_defs by (auto intro!: keeps_intros tags rel split: sum.splits)
  have get: "keeps (outside_only (\<lambda>_. True)) (getLoadBalancerIP api cs lb svc n)" for lb svc n
    unfolding getLoadBalancerIP_def
    by (auto intro!: keeps_intros any [OF keeps_find_ip(1)] any [OF keeps_find_ip(2)] any [OF keeps_ingressIP] assoc tor
        split: option.splits)
  show "keeps (outside_only (\<lambda>_. True)) (deleteLoadBalancerRule api cs lb)"
    "keeps (outside_only (\<lambda>_. True)) (releaseIPIfManaged api cs lb ip svc)" by (fact del relm)+
  show "keeps (outside_only (\<lambda>_. True)) (ensureIP api cs lb)"
    unfolding ensureIP_def loadLoadBalancerIP_def updateLoadBalancerIP_def Let_def
    by (auto intro!: keeps_intros get del relm any [OF keeps_find_ip(2)])
  have chk: "keeps (outside_only (\<lambda>_. True)) (checkLoadBalancerRule api cs lb)"
    unfolding checkLoadBalancerRule_def Let_def
    by (auto intro!: keeps_intros del any [OF keeps_serviceToLBPorts] split: option.splits prod.splits)
  have ups: "keeps (outside_only (\<lambda>_. True)) (updateLoadBalancerRule api cs lb)"
    "keeps (outside_only (\<lambda>_. True)) (assignTagsToRule api cs lb)"
    "keeps (outside_only (\<lambda>_. True)) (createLoadBalancerRule api cs lb)" for lb
    unfolding updateLoadBalancerRule_def createLoadBalancerRule_def setTags_defs Let_def
    by (auto intro!: keeps_intros keeps_withRule tags any [OF keeps_serviceToLBPorts] any [OF keeps_waitJob] split: option.splits)
  show "keeps (outside_only (\<lambda>_. True)) (ensureRule api cs lb)"
    unfolding ensureRule_def Let_def by (auto intro!: keeps_intros chk ups)
qed

lemma keeps_locked_ops:
  "keeps same_lock (getLocked api cs svc)" "keeps same_lock (ensureLocked api cs svc ns)" "keeps same_lock (deleteLocked api cs svc)"
proof -
  note out = keeps_work_lock [OF keeps_outside_same]
  show "keeps same_lock (getLocked api cs svc)"
    unfolding getLocked_def by (auto intro!: lock_kept.keeps_rules out [OF keeps_getLoadBalancer])
  show "keeps same_lock (ensureLocked api cs svc ns)"
    unfolding ensureLocked_def
    by (auto intro!: lock_kept.keeps_rules keeps_work_lock [OF keeps_findForEnsure_same] keeps_push_lock
        out [OF keeps_local_io] out [OF keeps_outside_all(3)] out [OF keeps_outside_all(4)] split: option.splits)
  show "keeps same_lock (deleteLocked api cs svc)"
    unfolding deleteLocked_def
    by (auto intro!: lock_kept.keeps_rules out [OF keeps_getLoadBalancer] out [OF keeps_outside_all(1)]
        out [OF keeps_outside_all(2)])
qed

lemma withLock_cases:
  fixes s :: "('w, 'x) psys_scheme"
  assumes run: "withLock key m s = (r, t)"
  obtains (waiting) "r = Block" "t = s\<lparr>svcLock := svcLock t\<rparr>"
  | (entered) l r1 t1 where "m (s\<lparr>svcLock := l\<rparr>) = (r1, t1)" "t = t1\<lparr>svcLock := svcLock t\<rparr>"
      "r = r1 \<or> (\<exists>p. r = Panic p)"
proof -
  obtain l o1 where l: "lockService key s = (o1, s\<lparr>svcLock := l\<rparr>)" "o1 = Ret () \<or> o1 = Block"
    by (cases "lock_enter key (svcLock s)"; cases "lock_acquire (fst (lock_enter key (svcLock s))) (snd (lock_enter key (svcLock s)))")
      (auto simp: lockService_def)
  show ?thesis
  proof (cases "o1 = Block")
    case True
    then show ?thesis using waiting run l by (auto simp: withLock_def go_simps)
  next
    case False
    obtain r1 t1 where m: "m (s\<lparr>svcLock := l\<rparr>) = (r1, t1)" by fastforce
    then show ?thesis using entered [OF m] run l False
      by (auto simp: withLock_def go_simps split: outcome.splits option.splits)
  qed
qed

lemma unlocked:
  assumes "map_of (inUse (svcLock s)) key = None" "keeps same_lock m" "withLock key m s = (r, t)" "r \<noteq> Block"
  shows "map_of (inUse (svcLock t)) = map_of (inUse (svcLock s))"
  using withLock_free [OF assms(1,2) same_lockD assms(3,4)] by blast

text \<open>The calls of a locked operation are those of the operation, from the state the caller left.\<close>

lemma withLock_calls:
  fixes s :: "('w, 'x) psys_scheme"
  assumes run: "withLock key m s = (r, t)" and t: "trace t = trace s @ calls" and call: "call \<in> set calls"
  obtains l r1 t1 where "m (s\<lparr>svcLock := l\<rparr>) = (r1, t1)" "trace t1 = trace (s\<lparr>svcLock := l\<rparr>) @ calls"
proof (cases rule: withLock_cases [OF run])
  case 1
  have "trace t = trace s" by (subst 1(2)) simp
  with t call show ?thesis by simp
next
  case (2 l r1 t1)
  have "trace t = trace t1" by (subst 2(2)) simp
  with 2(1) t that show ?thesis by simp
qed

subsection \<open>Calls of a deletion\<close>

text \<open>The request that deletes a rule.\<close>

definition deleteCall :: "CSCloud \<Rightarrow> client \<Rightarrow> loadBalancerRule \<Rightarrow> call" where
  "deleteCall cs c rule =
    (let cmd = (if DeleteLBRule (Command (config cs)) = [] then ''deleteLoadBalancerRule''
           else DeleteLBRule (Command (config cs)))
     in CustomRequest c cmd (fold (\<lambda>(k, v). SetParam k (PStr v)) (ToMap (map_of (CommandArgs (config cs)) cmd))
          (SetParam ''id'' (PStr (rule_Id rule)) [])))"

definition removal_call :: "CSCloud \<Rightarrow> loadBalancer \<Rightarrow> loadBalancerRule \<Rightarrow> call \<Rightarrow> bool" where
  "removal_call cs lb rule call \<longleftrightarrow> read_only call
     \<or> (\<exists>c. getClient cs lb = Inr c \<and> (call = deleteCall cs c rule \<or> call = releaseCall cs lb c (lb_ip lb)))"

lemma read_only_removal: "read_only call \<Longrightarrow> removal_call cs lb rule call"
  by (simp add: removal_call_def)

lemma keeps_delete_rule:
  assumes "lb_rule lb = Some rule"
  shows "keeps (outside_only (removal_call cs lb rule)) (deleteLoadBalancerRule api cs lb)"
proof (cases "getClient cs lb")
  case (Inr c)
  have "keeps (outside_only (removal_call cs lb rule)) (waitJob_nil api c j)" for j
    by (rule keeps_outside_mono [OF keeps_waitJob_nil read_only_removal])
  with Inr assms show ?thesis
    by (auto simp: deleteLoadBalancerRule_def withRule_def removal_call_def deleteCall_def Let_def intro!: keeps_intros)
qed (auto simp: deleteLoadBalancerRule_def intro!: keeps_intros)

lemma keeps_release_ip:
  "keeps (outside_only (removal_call cs lb rule)) (releaseIPIfManaged api cs (lb\<lparr>lb_rule := None\<rparr>) (lb_ip lb) svc)"
proof -
  have "keeps (outside_only (removal_call cs lb rule)) (releaseLoadBalancerIP api cs (lb\<lparr>lb_rule := None\<rparr>) (lb_ip lb))"
    by (rule keeps_release) (auto simp: removal_call_def releaseCall_def releaseParams_def getClient_def)
  moreover have "keeps (outside_only (removal_call cs lb rule)) (getPublicIPAddressByID api cs (lb\<lparr>lb_rule := None\<rparr>) i)" for i
    by (rule keeps_outside_mono [OF keeps_find_ip(3) read_only_removal])
  ultimately show ?thesis
    unfolding releaseIPIfManaged_def by (auto intro!: keeps_intros)
qed

section \<open>Correctness\<close>

text \<open>
  A small outside world: one machine, and one rule for the sample service with the provider's tags but another
  algorithm than the service asks for.
\<close>

definition sampleVM :: virtualMachine where
  "sampleVM = \<lparr>vm_Id = ''vm1'', vm_Name = ''n1'', vm_Nic = [\<lparr>nic_Networkid = ''net1'', nic_Ipaddress = ''10.0.0.1''\<rparr>],
     vm_Hostname = [], vm_Publicip = [], vm_State = ''Running'', vm_Serviceofferingid = [], vm_Serviceofferingname = [],
     vm_Zonename = []\<rparr>"

definition sampleAPI :: "unit api" where
  "sampleAPI = offlineAPI\<lparr>api_listVirtualMachines := (\<lambda>_ _ _ w. (Inr [sampleVM], w)),
     req_listLoadBalancerRules := (\<lambda>_ _ w. (Inr (1, [Some managedRule]), w)), req_job := (\<lambda>_ _ _ w. (Inr [], w)),
     api_updateRule := (\<lambda>_ _ _ w. (Inr (), w)), kube_patchService := (\<lambda>_ _ _ w. (Inr (), w))\<rparr>"

definition freshSys :: "unit psys" where
  "freshSys = \<lparr>world = (), trace = [], registry = newNodeRegistry, queue = [], svcLock = newServiceLock\<rparr>"

definition sampleKubeNode :: kubeNode where
  "sampleKubeNode = \<lparr>kn_meta = \<lparr>om_Name = ''n1'', om_Namespace = [], om_Labels = None, om_Annotations = []\<rparr>, kn_ProviderID = []\<rparr>"

abbreviation sampleEnsure :: "status outcome \<times> unit psys" where
  "sampleEnsure \<equiv> EnsureLoadBalancer sampleAPI sampleCloud (Some sampleService) [sampleKubeNode] freshSys"

lemma sampleEnsure_calls: "UpdateLoadBalancerRule sampleClient ''lbrule-1'' ''roundrobin'' \<in> set (trace (snd sampleEnsure))"
  by code_simp

lemma sampleEnsure_ok: "fst sampleEnsure = Ret [\<lparr>ing_IP = ''10.0.0.1'', ing_Hostname = ''web.test.com''\<rparr>]"
  by code_simp

lemma freshSys_trace [simp]: "trace freshSys = []" "queue freshSys = []" "inUse (svcLock freshSys) = []"
  by (simp_all add: freshSys_def newServiceLock_def)

text \<open>
  C1: nothing that belongs to somebody else is changed. Ensuring a load balancer sends a changing request to
  CloudStack only after the lookup at the start of this very run found a load balancer that the provider manages.
\<close>

theorem EnsureLoadBalancer_only_managed:
  assumes run: "EnsureLoadBalancer api cs (Some svc) ns s = (r, t)" and t: "trace t = trace s @ calls"
    and call: "call \<in> set calls" "\<not> read_only call" "\<And>k n p. call \<noteq> PatchService k n p"
  shows "\<exists>l lb t1. findForEnsure api cs svc ns (s\<lparr>svcLock := l\<rparr>) = (Ret lb, t1) \<and> shouldManageLB lb = None"
proof -
  have other: "\<not> prepare_call call" using call by (simp add: prepare_call_def)
  obtain l r1 t1 where e: "ensureLocked api cs svc ns (s\<lparr>svcLock := l\<rparr>) = (r1, t1)"
    "trace t1 = trace (s\<lparr>svcLock := l\<rparr>) @ calls"
    using withLock_calls [OF _ t call(1)] run unfolding EnsureLoadBalancer_def option.case by blast
  obtain r2 t2 where f: "findForEnsure api cs svc ns (s\<lparr>svcLock := l\<rparr>) = (r2, t2)" by fastforce
  have "calls_only prepare_call (s\<lparr>svcLock := l\<rparr>) t2" by (rule keepsD [OF keeps_findForEnsure f])
  then have "t1 \<noteq> t2" using e(2) call(1) other by (auto simp: calls_only_def list_all_iff)
  then show ?thesis using e(1) f
    by (cases r2) (auto simp: ensureLocked_def go_simps split: option.splits)
qed

theorem EnsureLoadBalancer_only_managed_witness:
  "\<exists>l lb t1. findForEnsure sampleAPI sampleCloud sampleService [sampleKubeNode] (freshSys\<lparr>svcLock := l\<rparr>) = (Ret lb, t1)
    \<and> shouldManageLB lb = None"
proof -
  obtain r t where run: "sampleEnsure = (r, t)" by fastforce
  show ?thesis
    by (rule EnsureLoadBalancer_only_managed [OF run, of "trace t"]) (use sampleEnsure_calls run in auto)
qed

lemma ensure_queued:
  fixes s :: "('w, 'x) psys_scheme"
  assumes free: "map_of (inUse (svcLock s)) (svcKey svc) = None"
    and run: "EnsureLoadBalancer api cs (Some svc) ns s = (Ret st, t)"
  obtains lb now where "st = [\<lparr>ing_IP = ip_address (lb_ip lb), ing_Hostname = getLoadBalancerName cs svc\<rparr>]"
    "lb_rule lb \<noteq> None" "svcKey (lb_service lb) = svcKey svc"
    "queue t = AList.update (svcKey svc) (mergeEntry (map_of (queue s) (svcKey svc)) \<lparr>qe_service = lb_service lb, qe_lb = Some lb,
      updatePool = True, start = now, backoffUntil = zeroTime\<rparr>) (queue s)"
    "map_of (queue s) (svcKey svc) = None \<Longrightarrow> \<exists>nodes. nodesForService cs (registry t) (Some (lb_service lb)) = Inr nodes"
    "map_of (inUse (svcLock t)) = map_of (inUse (svcLock s))"
proof -
  obtain s1 t1 :: "('w, 'x) psys_scheme" where s1: "queue s1 = queue s" "ensureLocked api cs svc ns s1 = (Ret st, t1)"
    "t = t1\<lparr>svcLock := svcLock t\<rparr>" "map_of (inUse (svcLock t)) = map_of (inUse (svcLock s))"
    using withLock_free [OF free keeps_locked_ops(2) same_lockD] run
    unfolding EnsureLoadBalancer_def option.case by blast
  obtain lb lb1 lb2 now and u1 u2 u3 u4 :: "('w, 'x) psys_scheme" where
    f: "findForEnsure api cs svc ns s1 = (Ret lb, u1)" and ip: "ensureIP api cs lb u1 = (Ret lb1, u2)"
    and rule: "ensureRule api cs lb1 u2 = (Ret lb2, u3)" and now: "local_io (time_Now api) u3 = (Ret now, u4)"
    and push: "push cs \<lparr>qe_service = lb_service lb2, qe_lb = Some lb2, updatePool = True, start = now,
      backoffUntil = zeroTime\<rparr> u4 = (Ret (), t1)" and st: "st = lbStatus lb1"
    using s1(2) unfolding ensureLocked_def
    by (auto simp: throw_def ret_def elim!: bind_RetE split: option.splits)
  have q: "queue u4 = queue s"
    using keepsD [OF keeps_findForEnsure_same f] keepsD [OF keeps_outside_same [OF keeps_outside_all(3)] ip]
      keepsD [OF keeps_outside_same [OF keeps_outside_all(4)] rule] keepsD [OF keeps_outside_same [OF keeps_local_io] now] s1(1)
    by (simp add: same_work_def)
  note names = findForEnsure_Ret [OF f] ensureIP_Ret [OF ip] ensureRule_Ret [OF rule]
  have key: "svcKey (lb_service lb2) = svcKey svc" and nm: "lb_name lb1 = getLoadBalancerName cs svc"
    using names by (auto simp: svcKey_def)
  have same: "queue t = queue t1" "registry t = registry t1" by (subst s1(3), simp)+
  have "queue t1 = AList.update (svcKey svc) (mergeEntry (map_of (queue s) (svcKey svc)) \<lparr>qe_service = lb_service lb2, qe_lb = Some lb2,
      updatePool = True, start = now, backoffUntil = zeroTime\<rparr>) (queue s)" and reg: "registry t1 = registry u4"
    using push q key by (auto simp: push_run Let_def split: if_splits)
  moreover have "\<exists>nodes. nodesForService cs (registry u4) (Some (lb_service lb2)) = Inr nodes" if "map_of (queue s) (svcKey svc) = None"
    using push q key that by (cases "nodesForService cs (registry u4) (Some (lb_service lb2))") (auto simp: push_run Let_def)
  ultimately show ?thesis
    using key same nm names(3) st s1(4) by (intro that [of lb2 now]) (simp_all add: lbStatus_def)
qed

text \<open>
  C11: a load balancer that was ensured has a rule, is reported under its address and name, and its service waits in the
  queue for its hosts; every other pending service is as before and the service is unlocked again. A service that
  was pending already loses the request for its health check pools.
\<close>

theorem EnsureLoadBalancer_queues:
  fixes s :: "('w, 'x) psys_scheme"
  assumes free: "map_of (inUse (svcLock s)) (svcKey svc) = None"
    and run: "EnsureLoadBalancer api cs (Some svc) ns s = (Ret st, t)"
  shows "\<exists>lb e. st = [\<lparr>ing_IP = ip_address (lb_ip lb), ing_Hostname = getLoadBalancerName cs svc\<rparr>] \<and> lb_rule lb \<noteq> None
    \<and> map_of (queue t) = (map_of (queue s))(svcKey svc \<mapsto> e) \<and> svcKey (qe_service e) = svcKey svc
    \<and> (case map_of (queue s) (svcKey svc) of
         None \<Rightarrow> qe_lb e = Some lb \<and> updatePool e
       | Some old \<Rightarrow> qe_lb e = None \<and> updatePool e = updatePool old)
    \<and> map_of (inUse (svcLock t)) = map_of (inUse (svcLock s))"
proof -
  obtain lb now where lb: "st = [\<lparr>ing_IP = ip_address (lb_ip lb), ing_Hostname = getLoadBalancerName cs svc\<rparr>]"
    "lb_rule lb \<noteq> None" "svcKey (lb_service lb) = svcKey svc"
    "queue t = AList.update (svcKey svc) (mergeEntry (map_of (queue s) (svcKey svc)) \<lparr>qe_service = lb_service lb, qe_lb = Some lb,
      updatePool = True, start = now, backoffUntil = zeroTime\<rparr>) (queue s)"
    "map_of (inUse (svcLock t)) = map_of (inUse (svcLock s))"
    using ensure_queued [OF free run] by metis
  then show ?thesis
    by (intro exI [of _ lb] exI [of _ "mergeEntry (map_of (queue s) (svcKey svc)) \<lparr>qe_service = lb_service lb,
        qe_lb = Some lb, updatePool = True, start = now, backoffUntil = zeroTime\<rparr>"])
      (auto simp: mergeEntry_def update_conv' split: option.splits)
qed

theorem EnsureLoadBalancer_queues_witness:
  "\<exists>e. map_of (queue (snd sampleEnsure)) sampleKey = Some e \<and> updatePool e"
proof -
  obtain t where run: "sampleEnsure = (Ret [\<lparr>ing_IP = ''10.0.0.1'', ing_Hostname = ''web.test.com''\<rparr>], t)"
    using sampleEnsure_ok by (metis fst_conv surj_pair)
  show ?thesis
    using EnsureLoadBalancer_queues [OF _ run] unfolding run by auto
qed

text \<open>
  C2: deletion touches only what may go. A changing request is sent only when the lookup of this run found a rule, its
  removal is enabled and the provider manages it, and the request deletes that rule or releases its address.
\<close>

theorem EnsureLoadBalancerDeleted_only_managed:
  assumes run: "EnsureLoadBalancerDeleted api cs (Some svc) s = (r, t)" and t: "trace t = trace s @ calls"
    and call: "call \<in> set calls" "\<not> read_only call"
  shows "\<exists>l lb rule c t1. getLoadBalancer api cs svc [] [] (s\<lparr>svcLock := l\<rparr>) = (Ret lb, t1) \<and> lb_rule lb = Some rule
    \<and> isLBRemovalEnabled cs lb svc \<and> shouldManageLB lb = None \<and> getClient cs lb = Inr c
    \<and> (call = deleteCall cs c rule \<or> call = releaseCall cs lb c (lb_ip lb))"
proof -
  obtain l r1 t1 where e: "deleteLocked api cs svc (s\<lparr>svcLock := l\<rparr>) = (r1, t1)"
    "trace t1 = trace (s\<lparr>svcLock := l\<rparr>) @ calls"
    using withLock_calls [OF _ t call(1)] run unfolding EnsureLoadBalancerDeleted_def option.case by blast
  obtain r2 t2 where g: "getLoadBalancer api cs svc [] [] (s\<lparr>svcLock := l\<rparr>) = (r2, t2)" by fastforce
  have "outside_only read_only (s\<lparr>svcLock := l\<rparr>) t2" by (rule keepsD [OF keeps_getLoadBalancer g])
  then obtain c1 where c1: "trace t2 = trace (s\<lparr>svcLock := l\<rparr>) @ c1" "list_all read_only c1" by (auto simp: outside_only_def)
  have no: "t1 \<noteq> t2" using e(2) c1 call by (auto simp: list_all_iff)
  then obtain lb where lb: "r2 = Ret lb" using e(1) g by (cases r2) (auto simp: deleteLocked_def go_simps)
  with no e(1) g obtain rule where rule: "lb_rule lb = Some rule" "isLBRemovalEnabled cs lb svc" "shouldManageLB lb = None"
    and rest: "bind (deleteLoadBalancerRule api cs lb) (\<lambda>lb1.
        if ip_id (lb_ip lb1) \<noteq> [] then releaseIPIfManaged api cs lb1 (lb_ip lb1) svc else ret ()) t2 = (r1, t1)"
    by (auto simp: deleteLocked_def go_simps split: if_splits)
  obtain r3 t3 where d: "deleteLoadBalancerRule api cs lb t2 = (r3, t3)" by fastforce
  have "outside_only (removal_call cs lb rule) t2 t1"
  proof (rule outside.R_trans)
    show "outside_only (removal_call cs lb rule) t2 t3" by (rule keepsD [OF keeps_delete_rule [OF rule(1)] d])
    show "outside_only (removal_call cs lb rule) t3 t1"
    proof (cases r3)
      case (Ret lb1)
      note lb1 = deleteLoadBalancerRule_Ret [OF d [unfolded Ret]]
      show ?thesis using rest d Ret keepsD [OF keeps_release_ip] outside.R_refl
        by (auto simp: go_simps lb1 split: if_splits)
    qed (use rest d outside.R_refl in \<open>auto simp: go_simps\<close>)
  qed
  then obtain c2 where "trace t1 = trace t2 @ c2" "list_all (removal_call cs lb rule) c2" by (auto simp: outside_only_def)
  with e(2) c1 call have "removal_call cs lb rule call" by (auto simp: list_all_iff)
  with call(2) g lb rule show ?thesis by (auto simp: removal_call_def)
qed

theorem EnsureLoadBalancerDeleted_only_managed_witness:
  "\<exists>l lb rule c t1. getLoadBalancer sampleAPI sampleCloud sampleService [] [] (freshSys\<lparr>svcLock := l\<rparr>) = (Ret lb, t1)
    \<and> lb_rule lb = Some rule \<and> shouldManageLB lb = None \<and> getClient sampleCloud lb = Inr c"
proof -
  let ?run = "EnsureLoadBalancerDeleted sampleAPI sampleCloud (Some sampleService) freshSys"
  obtain r t where run: "?run = (r, t)" by fastforce
  have call: "CustomRequest sampleClient ''deleteLoadBalancerRule'' [(''id'', PStr ''lbrule-1'')] \<in> set (trace (snd ?run))"
    by code_simp
  have "trace t = trace freshSys @ trace t" by simp
  from EnsureLoadBalancerDeleted_only_managed [OF run this, of "CustomRequest sampleClient ''deleteLoadBalancerRule'' [(''id'', PStr ''lbrule-1'')]"]
  show ?thesis using call run by auto
qed

text \<open>
  Looking a load balancer up changes nothing: only reads are sent, and the answer is the address and name of the
  rule found, or that there is none.
\<close>

lemma GetLoadBalancer_reads:
  fixes s :: "('w, 'x) psys_scheme"
  assumes free: "map_of (inUse (svcLock s)) (svcKey svc) = None"
    and run: "GetLoadBalancer api cs (Some svc) s = (Ret st, t)"
  shows "registry t = registry s \<and> queue t = queue s \<and> map_of (inUse (svcLock t)) = map_of (inUse (svcLock s))
    \<and> (\<exists>calls. trace t = trace s @ calls \<and> list_all read_only calls)
    \<and> (\<exists>l lb t1. getLoadBalancer api cs svc [] [] (s\<lparr>svcLock := l\<rparr>) = (Ret lb, t1)
        \<and> st = (case lb_rule lb of None \<Rightarrow> None
            | Some rule \<Rightarrow> Some [\<lparr>ing_IP = rule_Publicip rule, ing_Hostname = getLoadBalancerName cs svc\<rparr>]))"
proof -
  obtain s1 t1 :: "('w, 'x) psys_scheme" where s1: "world s1 = world s" "trace s1 = trace s" "registry s1 = registry s"
    "queue s1 = queue s" "psys.more s1 = psys.more s" "getLocked api cs svc s1 = (Ret st, t1)"
    "t = t1\<lparr>svcLock := svcLock t\<rparr>" "map_of (inUse (svcLock t)) = map_of (inUse (svcLock s))"
    using withLock_free [OF free keeps_locked_ops(1) same_lockD] run unfolding GetLoadBalancer_def option.case by blast
  have eq: "s1 = s\<lparr>svcLock := svcLock s1\<rparr>" using s1(1-5) by simp
  obtain lb t2 where g: "getLoadBalancer api cs svc [] [] s1 = (Ret lb, t2)" "t1 = t2"
    "st = (if lb_rule lb = None then None else Some (lbStatus lb))"
    using s1(6) by (auto simp: getLocked_def ret_def elim!: bind_RetE split: if_splits)
  have o: "outside_only read_only s1 t1" using keepsD [OF keeps_getLoadBalancer g(1)] g(2) by simp
  have "registry t = registry t1" "queue t = queue t1" "trace t = trace t1" by (subst s1(7), simp)+
  moreover have "registry t1 = registry s1 \<and> queue t1 = queue s1" using outside_work [OF o] by (simp add: work_only_def)
  moreover have "\<exists>calls. trace t1 = trace s1 @ calls \<and> list_all read_only calls" using o by (simp add: outside_only_def)
  moreover have "st = (case lb_rule lb of None \<Rightarrow> None
      | Some rule \<Rightarrow> Some [\<lparr>ing_IP = rule_Publicip rule, ing_Hostname = getLoadBalancerName cs svc\<rparr>])"
    using g(3) getLoadBalancer_Ret [OF g(1)] by (auto simp: lbStatus_def split: option.splits)
  moreover have "getLoadBalancer api cs svc [] [] (s\<lparr>svcLock := svcLock s1\<rparr>) = (Ret lb, t2)" using g(1) eq by simp
  ultimately show ?thesis using s1 by auto
qed

text \<open>
  However an operation on a service ends, by success, error or panic, nobody is left holding the lock of the
  service; only an operation that never ends keeps it.
\<close>

lemma handlers_release_lock:
  assumes free: "map_of (inUse (svcLock s)) (svcKey svc) = None"
  shows "(\<forall>r t. GetLoadBalancer api cs (Some svc) s = (r, t) \<and> r \<noteq> Block \<longrightarrow>
        map_of (inUse (svcLock t)) = map_of (inUse (svcLock s)))
    \<and> (\<forall>r t. EnsureLoadBalancer api cs (Some svc) ns s = (r, t) \<and> r \<noteq> Block \<longrightarrow>
        map_of (inUse (svcLock t)) = map_of (inUse (svcLock s)))
    \<and> (\<forall>r t. EnsureLoadBalancerDeleted api cs (Some svc) s = (r, t) \<and> r \<noteq> Block \<longrightarrow>
        map_of (inUse (svcLock t)) = map_of (inUse (svcLock s)))
    \<and> (\<forall>r t entry. qe_service entry = svc \<and> processQueueEntry api cs entry s = (r, t) \<and> r \<noteq> Block \<longrightarrow>
        map_of (inUse (svcLock t)) = map_of (inUse (svcLock s)))"
  unfolding GetLoadBalancer_def EnsureLoadBalancer_def EnsureLoadBalancerDeleted_def option.case
proof (intro conjI allI impI; elim conjE)
  fix r t entry
  assume "qe_service entry = svc" "processQueueEntry api cs entry s = (r, t)" "r \<noteq> Block"
  with processQueueEntry_free [of s entry api cs r t] free
  show "map_of (inUse (svcLock t)) = map_of (inUse (svcLock s))" by simp
qed (auto dest: unlocked [OF free keeps_locked_ops(1)] unlocked [OF free keeps_locked_ops(2)]
    unlocked [OF free keeps_locked_ops(3)])

text \<open>
  C17: an ensured service without labels takes the controller down. When a project was found, a project label is
  configured and the service has no label map at all, the handler writes to a nil map and panics, before any
  request that changes something was sent.
\<close>

theorem EnsureLoadBalancer_nil_labels:
  assumes svc: "om_Labels (svc_meta svc) = None" "svc_Ports svc \<noteq> []" and label: "ProjectIDLabel (Global (config cs)) \<noteq> []"
    and nodes: "updateNodes api cs ns s = (Ret (), s1)" "idsForService cs (registry s1) (Some svc) = Inr (h, n, p)"
    and found: "getLoadBalancer api cs svc p n s1 = (Ret lb, s2)" "lb_projectID lb \<noteq> []"
  shows "ensureLocked api cs svc ns s = (Panic ''assignment to entry in nil map'', s2)"
proof -
  have "lb_service lb = svc" using getLoadBalancer_Ret [OF found(1)] by simp
  then have "setProjectLabel api cs lb s2 = (Panic ''assignment to entry in nil map'', s2)"
    using svc(1) label found(2) by (simp add: setProjectLabel_def labels_def panic_def Let_def)
  with nodes found svc(2) show ?thesis
    by (simp add: ensureLocked_def findForEnsure_def go_simps)
qed

theorem EnsureLoadBalancer_nil_labels_witness:
  "\<exists>t. ensureLocked sampleAPI sampleCloud (sampleService\<lparr>svc_meta := (svc_meta sampleService)\<lparr>om_Labels := None\<rparr>\<rparr>) [sampleKubeNode]
      freshSys = (Panic ''assignment to entry in nil map'', t)"
proof -
  let ?svc = "sampleService\<lparr>svc_meta := (svc_meta sampleService)\<lparr>om_Labels := None\<rparr>\<rparr>"
  obtain s1 where u: "updateNodes sampleAPI sampleCloud [sampleKubeNode] freshSys = (Ret (), s1)"
    "idsForService sampleCloud (registry s1) (Some ?svc) = Inr ([''vm1''], [''net1''], ''p1'')"
  proof -
    have "fst (updateNodes sampleAPI sampleCloud [sampleKubeNode] freshSys) = Ret ()"
      "idsForService sampleCloud (registry (snd (updateNodes sampleAPI sampleCloud [sampleKubeNode] freshSys))) (Some ?svc)
        = Inr ([''vm1''], [''net1''], ''p1'')" by code_simp+
    then show ?thesis using that by (metis prod.collapse)
  qed
  have "\<exists>lb s2. getLoadBalancer sampleAPI sampleCloud ?svc ''p1'' [''net1''] s1 = (Ret lb, s2) \<and> lb_projectID lb = ''p1''"
    by (simp add: getLoadBalancer_def getClient_def environmentForMeta_def environmentOf_def getLabelOrAnnotation_def labels_def
        sampleCloud_def sampleConfig_def sampleService_def emptyConfig_def newEnvironment_def
        getLoadBalancerRule_def getLoadBalancerRuleByName_def getLoadBalancerByTags_def uniqueRule_run lift_sum_def io_def
        bind_def wrap_err_def ret_def throw_def Let_def sampleAPI_def split: sum.splits option.splits)
  then obtain lb s2 where "getLoadBalancer sampleAPI sampleCloud ?svc ''p1'' [''net1''] s1 = (Ret lb, s2)" "lb_projectID lb \<noteq> []"
    by auto
  from EnsureLoadBalancer_nil_labels [OF _ _ _ u this]
  have "ensureLocked sampleAPI sampleCloud ?svc [sampleKubeNode] freshSys = (Panic ''assignment to entry in nil map'', s2)"
    by (simp add: sample_defs)
  then show ?thesis ..
qed

end
