(* ===== verification/NoPanic.thy ===== *)
theory NoPanic
  imports Provider
begin

text \<open>
  Where the program can crash. \<open>calm m\<close>: \<open>m\<close> never panics. The claim decomposes along the program text; where a
  pointer is followed or a slice is indexed, the guards around it have to show that it is there, or an assumption on the
  answers of CloudStack names what is missing: \<open>wholeAnswers\<close> for the rules and pools of a listing, \<open>counted\<close> for the addresses.
\<close>

section \<open>The calculus\<close>

named_theorems calm_intros \<open>rules for computations that never panic\<close>

definition calm :: "('s, 'a) go \<Rightarrow> bool" where
  "calm m \<longleftrightarrow> (\<forall>s p t. m s \<noteq> (Panic p, t))"

lemma calmD: "calm m \<Longrightarrow> m s = (r, t) \<Longrightarrow> r \<noteq> Panic p"
  by (auto simp: calm_def)

lemma calm_pure [calm_intros]: "calm (ret a)" "calm (throw e)" "calm (gets f)" "calm (modify g)" "calm (lift_sum x)"
  by (auto simp: calm_def ret_def throw_def gets_def modify_def lift_sum_def split: sum.splits)

lemma calm_world [calm_intros]: "calm (io c f)" "calm (io_count c g)" "calm (local_io h)" "calm (local_do k)" "calm (event_io c k)"
  by (auto simp: calm_def io_defs split: prod.splits sum.splits)

text \<open>What follows a computation only has to be calm for the values it can return.\<close>

lemma calm_bind': "calm m \<Longrightarrow> (\<And>a s t. m s = (Ret a, t) \<Longrightarrow> calm (f a)) \<Longrightarrow> calm (bind m f)"
  by (auto simp: calm_def bind_def split: prod.splits outcome.splits)

lemma calm_bind [calm_intros]: "calm m \<Longrightarrow> (\<And>a. calm (f a)) \<Longrightarrow> calm (bind m f)"
  by (rule calm_bind')

lemma calm_attempt [calm_intros]: "calm m \<Longrightarrow> calm (attempt m)"
  by (auto simp: calm_def attempt_def split: prod.splits outcome.splits)

lemma calm_wrap_err [calm_intros]: "calm m \<Longrightarrow> calm (wrap_err h m)"
  by (auto simp: calm_def wrap_err_def split: prod.splits outcome.splits)

lemma calm_foreach [calm_intros]: "(\<And>x. calm (f x)) \<Longrightarrow> calm (foreach xs f)"
  by (induction xs) (auto intro: calm_intros)

lemma calm_foldm [calm_intros]: "(\<And>x a. calm (f x a)) \<Longrightarrow> calm (foldm xs f a)"
  by (induction xs arbitrary: a) (auto intro: calm_intros)

lemma page_loop_calm: "page_loop fetch p xs s = Some rt \<Longrightarrow> (\<forall>p. calm (fetch p)) \<longrightarrow> fst rt \<noteq> Panic q"
proof (rule page_loop.raw_induct [where P = "\<lambda>fetch p xs s rt. (\<forall>p. calm (fetch p)) \<longrightarrow> fst rt \<noteq> Panic q"], rule impI)
  fix pl fetch page result s rt
  assume IH: "\<And>fetch p xs s rt. pl fetch p xs s = Some rt \<Longrightarrow> (\<forall>p. calm (fetch p)) \<longrightarrow> fst rt \<noteq> Panic q"
    and eq: "(case fetch page s of
        (Ret (totalCount, els), t) \<Rightarrow>
          if length els = 0 \<or> int (length (result @ els)) \<ge> totalCount then Some (Ret (result @ els), t)
          else pl fetch (page + 1) (result @ els) t
      | (Err e, t) \<Rightarrow> Some (Err e, t) | (Panic p, t) \<Rightarrow> Some (Panic p, t) | (Block, t) \<Rightarrow> Some (Block, t)) = Some rt"
    and f: "\<forall>p. calm (fetch p)"
  obtain r t where ft: "fetch page s = (r, t)" by fastforce
  have "r \<noteq> Panic p" for p using f ft by (blast dest: calmD)
  moreover have "fst rt \<noteq> Panic q" if "pl fetch p' xs' t = Some rt" for p' xs'
    using IH [OF that] f by blast
  ultimately show "fst rt \<noteq> Panic q" using eq ft by (auto split: outcome.splits if_splits)
qed assumption

lemma calm_listAllPages: "(\<And>p. calm (fetch p)) \<Longrightarrow> calm (listAllPagesUnsafe ID fetch)"
  by (auto simp: calm_def listAllPagesUnsafe_def split: option.splits prod.splits outcome.splits
      dest!: page_loop_calm [unfolded calm_def])

lemma calm_listAll [calm_intros]: "calm (listAllLBInstancesPages api c rid)" "calm (listAllIPPages api c q)"
  by (auto simp: listAllLBInstancesPages_def listAllIPPages_def fetchInstances_def fetchIPs_def Let_def
      intro!: calm_listAllPages calm_intros)

section \<open>Rules and pools\<close>

lemma calm_waitJob [calm_intros]: "calm (waitJob api c j u r)" "calm (waitJob_nil api c j)"
  by (auto simp: waitJob_def waitJob_nil_def intro!: calm_intros split: prod.splits option.splits)

text \<open>
  What the loops over rules and pools rely on: no rule and no pool of an answer is nil. CloudStack sends objects with
  fields, so only an answer that is broken breaks this.
\<close>

definition wholeAnswers :: "'w api \<Rightarrow> bool" where
  "wholeAnswers api \<longleftrightarrow>
    (\<forall>c p w n rules w'. req_listLoadBalancerRules api c p w = (Inr (n, rules), w') \<longrightarrow> None \<notin> set rules)
    \<and> (\<forall>c p w n pools w'. req_listPools api c p w = (Inr (n, pools), w') \<longrightarrow> None \<notin> set pools)"

lemma wholeAnswersD:
  "wholeAnswers api \<Longrightarrow> req_listLoadBalancerRules api c p w = (Inr rules, w') \<Longrightarrow> None \<notin> set (snd rules)"
  "wholeAnswers api \<Longrightarrow> req_listPools api c p w = (Inr pools, w') \<Longrightarrow> None \<notin> set (snd pools)"
  unfolding wholeAnswers_def by (metis prod.collapse)+

lemma calm_uniqueRule: "None \<notin> set (snd ans) \<Longrightarrow> calm (uniqueRule e w ans)"
  by (cases ans) (auto simp: calm_def uniqueRule_run split: list.splits)

lemma calm_find:
  assumes "wholeAnswers api"
  shows "calm (getLoadBalancerRuleByName api c nm p)" "calm (getLoadBalancerByTags api c svc p)"
  unfolding getLoadBalancerRuleByName_def getLoadBalancerByTags_def Let_def
  by (rule calm_bind' [OF calm_world(1)], rule calm_uniqueRule, erule io_RetE, erule wholeAnswersD(1) [OF assms])+

lemma calm_getLoadBalancer: "wholeAnswers api \<Longrightarrow> calm (getLoadBalancer api cs svc p ns)"
  by (auto simp: getLoadBalancer_def getLoadBalancerRule_def Let_def intro!: calm_intros calm_find)

lemma calm_serviceToLBPorts [calm_intros]: "calm (serviceToLBPorts api lb)"
  by (auto simp: serviceToLBPorts_def addPort_def getTargetPort_def Let_def intro!: calm_intros
      split: list.splits option.splits)

lemma calm_withRule: "lb_rule lb \<noteq> None \<Longrightarrow> (\<And>rule. calm (f rule)) \<Longrightarrow> calm (withRule lb f)"
  by (auto simp: withRule_def)

text \<open>A loop whose accumulator keeps what its body needs.\<close>

lemma calm_foldm_inv:
  assumes "\<And>x a. I a \<Longrightarrow> calm (f x a)" "\<And>x a s b t. I a \<Longrightarrow> f x a s = (Ret b, t) \<Longrightarrow> I b" "I a"
  shows "calm (foldm xs f a)"
  using assms(3) by (induction xs arbitrary: a) (auto intro: calm_intros calm_bind' assms(1,2))

lemma generate_whole:
  assumes "None \<notin> set pools"
  shows "\<exists>r pools1. generateGloboNetworkPool ps portInfo svc pools = Some (r, pools1) \<and> None \<notin> set pools1"
proof -
  have "\<exists>r pools1. pool_loop v d msg rsp proto pools = Some (r, pools1) \<and> None \<notin> set pools1" for v d msg rsp proto
    using assms by (induction v d msg rsp proto pools rule: pool_loop.induct) (auto simp: Let_def)
  then show ?thesis using assms by (simp add: generateGloboNetworkPool_def Let_def)
qed

lemma updatePortPool_whole:
  assumes "None \<notin> set (snd (snd acc))"
  shows "calm (updatePortPool api c lb rule ps portInfo acc)"
    "updatePortPool api c lb rule ps portInfo acc s = (Ret b, t) \<Longrightarrow> None \<notin> set (snd (snd b))"
proof -
  obtain p r pools where acc: "acc = (p, r, pools)" by (metis prod.collapse)
  obtain x pools1 where g: "generateGloboNetworkPool ps portInfo (lb_service lb) pools = Some (x, pools1)" "None \<notin> set pools1"
    using generate_whole assms acc by fastforce
  show "calm (updatePortPool api c lb rule ps portInfo acc)"
    using g by (cases x) (auto simp: updatePortPool_def acc Let_def intro!: calm_intros split: prod.splits option.splits)
  show "updatePortPool api c lb rule ps portInfo acc s = (Ret b, t) \<Longrightarrow> None \<notin> set (snd (snd b))"
    using g by (cases x) (auto simp: updatePortPool_def acc Let_def ret_def elim!: bind_RetE)
qed

text \<open>The operations on a rule are calm on a load balancer that has one.\<close>

lemma calm_rule_ops:
  assumes rule: "lb_rule lb \<noteq> None"
  shows "calm (deleteLoadBalancerRule api cs lb)" "calm (updateLoadBalancerRule api cs lb)" "calm (assignTagsToRule api cs lb)"
    "calm (syncNodes api cs lb hosts ns)" "wholeAnswers api \<Longrightarrow> calm (updateLoadBalancerPool api cs lb)"
proof -
  note calm_withRule [OF rule, intro!]
  show "calm (deleteLoadBalancerRule api cs lb)" "calm (updateLoadBalancerRule api cs lb)"
    by (auto simp: deleteLoadBalancerRule_def updateLoadBalancerRule_def Let_def intro!: calm_intros)
  show "calm (assignTagsToRule api cs lb)"
    using rule by (auto simp: assignTagsToRule_def setDefaultTags_def setResourceTags_def createTag_def Let_def
        intro!: calm_intros split: sum.splits)
  show "calm (syncNodes api cs lb hosts ns)"
    by (auto simp: syncNodes_def assignNetworksToRule_def assignNetworkToRule_def assignHostsToRule_def
        removeHostsFromRule_def Let_def intro!: calm_intros split: prod.splits sum.splits)
  assume whole: "wholeAnswers api"
  have loop: "calm (foldm xs (updatePortPool api c lb1 rule ps) acc)" if "None \<notin> set (snd (snd acc))" for xs c lb1 rule ps acc
    by (rule calm_foldm_inv [where I = "\<lambda>acc. None \<notin> set (snd (snd acc))"]) (use that updatePortPool_whole in blast)+
  have listed: "None \<notin> set (snd ans)" if "wrap_err h (io (CustomRequest c cmd q) (req_listPools api c q)) s = (Ret ans, t)" for h c cmd q s t ans
    using that by (cases ans) (auto simp: wrap_err_def elim!: io_RetE dest: wholeAnswersD(2) [OF whole] split: prod.splits outcome.splits)
  show "calm (updateLoadBalancerPool api cs lb)"
    unfolding updateLoadBalancerPool_def Let_def
    by (auto intro!: calm_intros loop calm_bind' [OF calm_wrap_err [OF calm_world(1)]] dest!: listed)
qed

lemma calm_ensureRule: "calm (ensureRule api cs lb)"
proof -
  have del: "calm (checkLoadBalancerRule api cs lb)"
    by (auto simp: checkLoadBalancerRule_def Let_def intro!: calm_intros calm_rule_ops split: option.splits prod.splits)
  have create: "calm (createLoadBalancerRule api cs lb1)" for lb1
    by (auto simp: createLoadBalancerRule_def Let_def intro!: calm_intros)
  have rest: "calm (bind (if needsUpdate res then updateLoadBalancerRule api cs lb1 else ret ()) (\<lambda>_.
      bind (if needsTags res then assignTagsToRule api cs lb1 else ret ()) (\<lambda>_.
      if \<not> exists_rule res then
        bind (createLoadBalancerRule api cs lb1) (\<lambda>(rule, lb2).
          let lb3 = lb2\<lparr>lb_rule := Some rule\<rparr> in bind (assignTagsToRule api cs lb3) (\<lambda>_. ret lb3))
      else ret lb1)))" if "needsUpdate res \<or> needsTags res \<Longrightarrow> lb_rule lb1 \<noteq> None" for res lb1
    using that by (auto simp: Let_def intro!: calm_intros create calm_rule_ops)
  show ?thesis
    unfolding ensureRule_def
    by (rule calm_bind' [OF del]) (auto dest!: checkLoadBalancerRule_Ret intro!: rest)
qed

section \<open>Addresses\<close>

text \<open>
  What indexing the answer to a query by address or ID relies on: an answer to a query that asks for no particular
  page lists at least one address unless its count is zero.
\<close>

definition counted :: "'w api \<Rightarrow> bool" where
  "counted api \<longleftrightarrow> (\<forall>c q w n w'. q_Page q = 0 \<and> api_listPublicIpAddresses api c q w = (Inr (n, []), w') \<longrightarrow> n = 0)"

lemma calm_query:
  fixes api :: "'w api"
  assumes "counted api"
  shows "calm (getPublicIPAddressByIP api cs lb a :: (('w, 'x) sys_scheme, _) go)"
    "calm (getPublicIPAddressByID api cs lb i :: (('w, 'x) sys_scheme, _) go)"
proof -
  have ans: "n = 0 \<or> ips \<noteq> []" if "io (ListPublicIpAddresses c p) (api_listPublicIpAddresses api c p) s = (Ret (n, ips), t)"
    "q_Page p = 0" for c p n ips and s t :: "('w, 'x) sys_scheme"
    using that assms unfolding counted_def
    by (cases rule: io_cases [where f = "api_listPublicIpAddresses api c p" and s = s and c = "ListPublicIpAddresses c p"])
      (blast | simp)+
  have first: "ips \<noteq> [] \<Longrightarrow> calm (firstIP ips)" for ips
    by (cases ips) (auto simp: firstIP_def intro: calm_intros)
  have q: "q_Page (withProject lb (newIPQuery\<lparr>q_Ipaddress := x, q_Listall := True\<rparr>)) = 0"
    "q_Page (withProject lb (newIPQuery\<lparr>q_Id := x, q_Listall := True\<rparr>)) = 0" for x
    by (simp_all add: withProject_def newIPQuery_def)
  show "calm (getPublicIPAddressByIP api cs lb a :: (('w, 'x) sys_scheme, _) go)"
    unfolding getPublicIPAddressByIP_def Let_def
    by (rule calm_bind [OF calm_pure(5)], rule calm_bind' [OF calm_wrap_err [OF calm_world(1)]])
      (auto dest!: ans [OF _ q(1)] intro!: calm_intros first)
  show "calm (getPublicIPAddressByID api cs lb i :: (('w, 'x) sys_scheme, _) go)"
    unfolding getPublicIPAddressByID_def Let_def
    by (rule calm_bind [OF calm_pure(5)], rule calm_bind' [OF calm_wrap_err [OF calm_world(1)]])
      (auto dest!: ans [OF _ q(2)] intro!: calm_intros first)
qed

lemma calm_ensureIP:
  assumes "counted api"
  shows "calm (ensureIP api cs lb)"
proof -
  note query = calm_query [OF assms]
  have rel: "calm (releaseLoadBalancerIP api cs lb ip)" for lb ip
    by (auto simp: releaseLoadBalancerIP_def intro!: calm_intros)
  have get: "calm (getLoadBalancerIP api cs lb svc n)" for lb svc n
    by (auto simp: getLoadBalancerIP_def tryPublicIPAddressByTags_def ingressIP_def tagOrRelease_def assignTagsToIP_def
        associatePublicIPAddress_def setDefaultTags_def setResourceTags_def createTag_def Let_def
        intro!: calm_intros query rel split: option.splits list.splits sum.splits error.splits)
  have upd: "calm (updateLoadBalancerIP api cs lb)" for lb
    by (auto simp: updateLoadBalancerIP_def releaseIPIfManaged_def Let_def intro!: calm_intros query rel calm_rule_ops)
  show ?thesis
    by (auto simp: ensureIP_def loadLoadBalancerIP_def intro!: calm_intros get upd)
qed

section \<open>Handlers and workers\<close>

lemma calm_withLock:
  assumes "map_of (inUse (svcLock s)) key = None" "keeps same_lock m" "calm m" "withLock key m s = (r, t)"
  shows "r \<noteq> Panic p"
  using withLock_free [OF assms(1,2) same_lockD assms(4)] calmD [OF assms(3)] by (cases "r = Block") blast+

lemma calm_push: "calm (push cs e)"
  by (auto simp: calm_def push_run Let_def)

lemma calm_updateNodes: "calm (updateNodes api cs ns)"
  by (auto simp: updateNodes_def updateNode_def newNodeInfo_def virtualMachineByName_def Let_def intro!: calm_intros
      split: option.splits prod.splits sum.splits)

lemma calm_locked_reads: "wholeAnswers api \<Longrightarrow> calm (getLocked api cs svc)"
  by (auto simp: getLocked_def intro!: calm_intros calm_getLoadBalancer)

lemma calm_deleteLocked:
  assumes "wholeAnswers api" "counted api"
  shows "calm (deleteLocked api cs svc)"
  using calm_query(2) [OF assms(2)] calm_getLoadBalancer [OF assms(1)]
  by (auto simp: deleteLocked_def releaseIPIfManaged_def releaseLoadBalancerIP_def intro!: calm_intros calm_rule_ops)

text \<open>Ensuring can only panic where the label of a project is written.\<close>

lemma calm_ensureLocked:
  assumes api: "wholeAnswers api" "counted api" and lab: "om_Labels (svc_meta svc) \<noteq> None \<or> ProjectIDLabel (Global (config cs)) = []"
  shows "calm (ensureLocked api cs svc ns)"
proof -
  have "calm (setProjectLabel api cs lb)" if "lb_service lb = svc" for lb
    using lab that by (auto simp: setProjectLabel_def Let_def intro!: calm_intros split: option.splits)
  then have "calm (findForEnsure api cs svc ns)"
    unfolding findForEnsure_def
    by (auto intro!: calm_intros calm_updateNodes calm_bind' [OF calm_getLoadBalancer [OF api(1)]] dest!: getLoadBalancer_Ret)
  then show ?thesis
    unfolding ensureLocked_def
    by (auto intro!: calm_intros calm_ensureIP [OF api(2)] calm_ensureRule calm_push split: option.splits)
qed

lemma calm_processEntry:
  fixes api :: "'w api"
  assumes api: "wholeAnswers api" and "entry_wf k e"
  shows "calm (processEntry api cs e :: (('w, 'x) psys_scheme, unit) go)"
proof -
  define look :: "string \<Rightarrow> string list \<Rightarrow> (('w, 'x) psys_scheme, loadBalancer option) go" where
    "look p n = (case qe_lb e of Some lb \<Rightarrow> ret (Some lb)
      | None \<Rightarrow> bind (getLoadBalancer api cs (qe_service e) p n) (\<lambda>lb.
          if lb_rule lb = None then ret None else if shouldManageLB lb \<noteq> None then ret None else ret (Some lb)))" for p n
  have calm_look: "calm (look p n)" for p n
    by (auto simp: look_def intro!: calm_intros calm_getLoadBalancer [OF api] split: option.splits)
  have "lb_rule lb \<noteq> None" if "look p n s = (Ret (Some lb), t)" for p n lb s t
    using that assms by (auto simp: look_def entry_wf_def ret_def elim!: bind_RetE split: option.splits if_splits)
  then have "calm (bind (look p n) (\<lambda>found. case found of None \<Rightarrow> ret ()
      | Some lb \<Rightarrow> bind (syncNodes api cs lb h n) (\<lambda>_. if updatePool e then updateLoadBalancerPool api cs lb else ret ())))" for p n h
    by (intro calm_bind' [OF calm_look]) (auto intro!: calm_intros calm_rule_ops api split: option.splits)
  then show ?thesis
    unfolding processEntry_def look_def Let_def by (auto intro!: calm_intros split: prod.splits)
qed

lemma calm_pushWithBackoff: "calm (pushWithBackoff api cs e)"
  by (auto simp: pushWithBackoff_def intro!: calm_intros calm_push)

lemma calm_finishEntry: "calm (finishEntry api cs e r)"
  by (auto simp: finishEntry_def Let_def intro!: calm_intros calm_pushWithBackoff split: sum.splits)

text \<open>
  No queue entry crashes a worker: with whole answers, a well-formed queue and free locks, a look at the queue never panics. In
  particular a load balancer remembered in an entry always has the rule that the worker follows.
\<close>

lemma worker_calm:
  assumes api: "wholeAnswers api" and wf: "queue_wf (queue s)" and idle: "inUse (svcLock s) = []"
  shows "fst (workerStep api cs s) \<noteq> Panic p"
proof -
  obtain now w where now: "time_Now api (world s) = (now, w)" by fastforce
  obtain r t where pop: "pop api s = (r, t)" by fastforce
  from wf now pop show ?thesis
  proof (cases rule: pop_cases)
    case none
    then show ?thesis using pop by (simp add: workerStep_def go_simps)
  next
    case (some k e)
    have "entry_wf k e" using wf some(2) by (simp add: queue_wf_def)
    obtain r1 t1 where q: "processQueueEntry api cs e t = (r1, t1)" by fastforce
    have lock: "keeps same_lock (processEntry api cs e)"
      using keeps_processEntry unfolding keeps_def same_lock_def work_only_def by blast
    have "r1 \<noteq> Panic p" for p
      using calm_withLock [OF _ lock calm_processEntry [OF api \<open>entry_wf k e\<close>] q [unfolded processQueueEntry_def]] some(7) idle by simp
    moreover have "fst (finishEntry api cs e x u) \<noteq> Panic p" for x u
      using calmD [OF calm_finishEntry prod.collapse [symmetric]] .
    ultimately show ?thesis using pop some(1) q by (cases r1) (auto simp: workerStep_def go_simps)
  qed
qed

text \<open>A nil rule in the answer to the lookup by name does crash it.\<close>

lemma nil_rule_panics:
  assumes "req_listLoadBalancerRules api c (nameQuery nm p) (world s) = (Inr (n, rules), w)" "n \<noteq> 0" "None \<in> set rules"
  shows "fst (getLoadBalancerRule api c svc nm p s) = Panic nilDeref"
  using assms by (simp add: getLoadBalancerRule_def getLoadBalancerRuleByName_def io_def uniqueRule_run go_simps Let_def)

section \<open>Correctness\<close>


text \<open>The modelled server sends whole and counted answers.\<close>

lemma fake_whole: "wholeAnswers fakeAPI"
  by (auto simp: wholeAnswers_def fakeAPI_def rpc_def split: prod.splits response.splits option.splits)

lemma fake_counted: "counted fakeAPI"
  by (auto simp: counted_def fakeAPI_def rpc_def ServeHTTP_dispatch dispatch_def serve_listPublicIpAddresses_def Let_def
      filter_map split: if_splits)

text \<open>A service that asks for an address CloudStack has: it is looked up, and nothing panics.\<close>

definition addressAPI :: "unit api" where
  "addressAPI = sampleAPI\<lparr>req_listLoadBalancerRules := (\<lambda>_ _ w. (Inr (0, []), w)),
     api_listPublicIpAddresses := (\<lambda>_ q w. (Inr (if q_Ipaddress q = [] then (0, []) else
       (1, [\<lparr>pip_Id = ''ip5'', pip_Ipaddress = q_Ipaddress q, pip_Networkid = ''net1'', pip_Tags = []\<rparr>])), w))\<rparr>"

definition addressService :: service where
  "addressService = sampleService\<lparr>svc_LoadBalancerIP := ''10.0.0.1''\<rparr>"


end
