(* ===== verification/Instances.thy ===== *)
theory Instances
  imports Cloud
begin

text \<open>
  The instance and zone interfaces the controller manager calls (\<open>cloudstack/instances.go\<close>, \<open>cloudstack/zones.go\<close>):
  from a node name or a provider ID to the virtual machine behind it, and from the machine to addresses, type,
  state and zone.
\<close>

section \<open>Nodes and provider IDs\<close>

record node =
  node_projectID :: string
  node_name :: string
  node_environment :: string
  node_vmID :: string

definition toProviderID :: "node \<Rightarrow> string" where
  "toProviderID n = Join [node_environment n, node_projectID n, node_vmID n] ''/''"

definition parseProviderID :: "string \<Rightarrow> error + node" where
  "parseProviderID instanceID =
    (let id = TrimPrefix instanceID (ProviderName @ ''://'');
         parts = Split CHR ''/'' id
     in if length parts \<noteq> 3 then Inl (Errorf ''error parsing providerID: %q - '' [instanceID])
        else Inr \<lparr>node_projectID = parts ! 1, node_name = [], node_environment = parts ! 0, node_vmID = parts ! 2\<rparr>)"

definition newNode :: "CSCloud \<Rightarrow> kubeNode \<Rightarrow> error + node" where
  "newNode cs kubeNode =
    (let nm = (case getLabelOrAnnotation (kn_meta kubeNode) (NodeNameLabel (Global (config cs))) of
           Some n \<Rightarrow> n | None \<Rightarrow> om_Name (kn_meta kubeNode));
         environment = environmentForMeta cs (kn_meta kubeNode)
     in case projectForMeta cs (kn_meta kubeNode) environment of
          Inl err \<Rightarrow> Inl (Wrapf ''error processing node : %v'' [] err)
        | Inr projectID \<Rightarrow> Inr \<lparr>node_projectID = projectID, node_name = nm, node_environment = environment,
            node_vmID = kn_ProviderID kubeNode\<rparr>)"

definition getNodeByName :: "'w api \<Rightarrow> CSCloud \<Rightarrow> string \<Rightarrow> (('w, 'x) sys_scheme, node) go" where
  "getNodeByName api cs nm =
    bind (io (GetNode nm) (kube_getNode api nm)) (\<lambda>kubeNode. lift_sum (newNode cs kubeNode))"

text \<open>A node pointer printed with \<open>%v\<close>.\<close>

definition node_String :: "node \<Rightarrow> string" where
  "node_String n = ''&{'' @ Join [node_projectID n, node_name n, node_environment n, node_vmID n] '' '' @ ''}''"

definition clientForNode :: "CSCloud \<Rightarrow> node \<Rightarrow> error + client" where
  "clientForNode cs n = clientForEnvironment cs (node_environment n)"

section \<open>The machine behind a node\<close>

definition getInstanceForNode :: "'w api \<Rightarrow> CSCloud \<Rightarrow> node \<Rightarrow> (('w, 'x) sys_scheme, virtualMachine) go" where
  "getInstanceForNode api cs n =
    bind (lift_sum (clientForNode cs n)) (\<lambda>c.
    bind (io_count (GetVirtualMachineByName c (node_name n) (node_projectID n))
        (api_getVMByName api c (node_name n) (node_projectID n))) (\<lambda>(count, res).
      case res of
        Inl err \<Rightarrow> if count = 0 then throw InstanceNotFound
          else throw (Wrapf ''error instance for node %v: %v'' [node_String n] err)
      | Inr vm \<Rightarrow> ret vm))"

definition instanceByProviderID :: "'w api \<Rightarrow> CSCloud \<Rightarrow> string \<Rightarrow> (('w, 'x) sys_scheme, virtualMachine) go" where
  "instanceByProviderID api cs providerID =
    bind (lift_sum (parseProviderID providerID)) (\<lambda>n.
    bind (lift_sum (clientForEnvironment cs (node_environment n))) (\<lambda>c.
    bind (io_count (GetVirtualMachineByID c (node_vmID n) (node_projectID n))
        (api_getVMByID api c (node_vmID n) (node_projectID n))) (\<lambda>(count, res).
      if count = 0 then throw InstanceNotFound
      else
        (case res of
           Inl err \<Rightarrow> throw (Wrapf ''error retrieving instance: %v'' [] err)
         | Inr vm \<Rightarrow> ret vm))))"

text \<open>What the operations by node name share: a missing machine is reported as such, other errors are wrapped.\<close>

definition instanceByName :: "'w api \<Rightarrow> CSCloud \<Rightarrow> string \<Rightarrow> string \<Rightarrow> (('w, 'x) sys_scheme, node \<times> virtualMachine) go" where
  "instanceByName api cs what nm =
    bind (wrap_err (Wrapf ''error retrieving node by name %q: %v'' [nm]) (getNodeByName api cs nm)) (\<lambda>n.
    bind (wrap_err (\<lambda>err. if err = InstanceNotFound then err else Wrapf (''error retrieving '' @ what @ '': %v'') [] err)
        (getInstanceForNode api cs n)) (\<lambda>vm. ret (n, vm)))"

text \<open>The check that the operations by provider ID start with.\<close>

definition byProviderID :: "string \<Rightarrow> ('s, 'a) go \<Rightarrow> ('s, 'a) go" where
  "byProviderID providerID m = (if providerID = [] then throw (Errorf ''empty providerID'' []) else m)"

section \<open>Addresses\<close>

datatype addressType = NodeInternalIP | NodeHostName | NodeExternalIP

type_synonym nodeAddress = "addressType \<times> string"

text \<open>Indexing the network cards; an index out of range panics.\<close>

definition nicAddress :: "virtualMachine \<Rightarrow> int \<Rightarrow> ('s, string) go" where
  "nicAddress vm i =
    (if 0 \<le> i \<and> i < int (length (vm_Nic vm)) then ret (nic_Ipaddress (vm_Nic vm ! nat i))
     else panic ''index out of range'')"

definition lookupAddrWithTimeout :: "'w api \<Rightarrow> string \<Rightarrow> (('w, 'x) sys_scheme, string list) go" where
  "lookupAddrWithTimeout api addr = local_io (dns_LookupAddr api addr)"

definition lookupHostWithTimeout :: "'w api \<Rightarrow> string \<Rightarrow> (('w, 'x) sys_scheme, string list) go" where
  "lookupHostWithTimeout api host = local_io (dns_LookupHost api host)"

text \<open>The names of the address that resolve back to it.\<close>

definition hostNames :: "'w api \<Rightarrow> string \<Rightarrow> nodeAddress list \<Rightarrow> (('w, 'x) sys_scheme, nodeAddress list) go" where
  "hostNames api internalAddr addresses =
    bind (lookupAddrWithTimeout api internalAddr) (\<lambda>names.
    foldm names (\<lambda>nm addresses.
      bind (lookupHostWithTimeout api nm) (\<lambda>ips.
        ret (if internalAddr \<in> set ips then addresses @ [(NodeHostName, nm)] else addresses))) addresses)"

definition nodeAddresses :: "'w api \<Rightarrow> CSCloud \<Rightarrow> virtualMachine \<Rightarrow> (('w, 'x) sys_scheme, nodeAddress list) go" where
  "nodeAddresses api cs vm =
    (if length (vm_Nic vm) = 0 then throw (Errorf ''instance does not have an internal IP'' [])
     else
       (let internal0 = InternalIPIndex (Global (config cs));
            internalIndex = (if internal0 < 0 \<or> internal0 \<ge> int (length (vm_Nic vm)) then 0 else internal0);
            externalIndex = ExternalIPIndex (Global (config cs))
        in bind (nicAddress vm internalIndex) (\<lambda>internalAddr.
           let a1 = [(NodeInternalIP, internalAddr)] in
           bind (if vm_Hostname vm \<noteq> [] then ret (a1 @ [(NodeHostName, vm_Hostname vm)])
               else hostNames api internalAddr a1) (\<lambda>a2.
           bind (if externalIndex \<noteq> internalIndex \<and> externalIndex \<ge> 0 \<and> externalIndex < int (length (vm_Nic vm))
               then bind (nicAddress vm externalIndex) (\<lambda>addr. ret (a2 @ [(NodeExternalIP, addr)]))
               else ret a2) (\<lambda>a3.
           ret (if vm_Publicip vm \<noteq> [] then a3 @ [(NodeExternalIP, vm_Publicip vm)] else a3))))))"

definition NodeAddresses :: "'w api \<Rightarrow> CSCloud \<Rightarrow> string \<Rightarrow> (('w, 'x) sys_scheme, nodeAddress list) go" where
  "NodeAddresses api cs nm =
    bind (instanceByName api cs ''node addresses'' nm) (\<lambda>(_, vm). nodeAddresses api cs vm)"

definition NodeAddressesByProviderID :: "'w api \<Rightarrow> CSCloud \<Rightarrow> string \<Rightarrow> (('w, 'x) sys_scheme, nodeAddress list) go" where
  "NodeAddressesByProviderID api cs providerID =
    byProviderID providerID (bind (instanceByProviderID api cs providerID) (nodeAddresses api cs))"

section \<open>ID, type and state\<close>

definition InstanceID :: "'w api \<Rightarrow> CSCloud \<Rightarrow> string \<Rightarrow> (('w, 'x) sys_scheme, string) go" where
  "InstanceID api cs nm =
    bind (instanceByName api cs ''instance ID'' nm) (\<lambda>(n, vm). ret (toProviderID (n\<lparr>node_vmID := vm_Id vm\<rparr>)))"

definition InstanceType :: "'w api \<Rightarrow> CSCloud \<Rightarrow> string \<Rightarrow> (('w, 'x) sys_scheme, string) go" where
  "InstanceType api cs nm =
    bind (instanceByName api cs ''instance type'' nm) (\<lambda>(_, vm). ret (vm_Serviceofferingid vm))"

definition InstanceTypeByProviderID :: "'w api \<Rightarrow> CSCloud \<Rightarrow> string \<Rightarrow> (('w, 'x) sys_scheme, string) go" where
  "InstanceTypeByProviderID api cs providerID =
    byProviderID providerID
      (bind (instanceByProviderID api cs providerID) (\<lambda>vm. ret (vm_Serviceofferingname vm)))"

definition AddSSHKeyToAllInstances :: "string \<Rightarrow> string \<Rightarrow> ('s, unit) go" where
  "AddSSHKeyToAllInstances user keyData = throw (Errorf ''AddSSHKeyToAllInstances not implemented'' [])"

definition CurrentNodeName :: "string \<Rightarrow> ('s, string) go" where
  "CurrentNodeName hostname = ret hostname"

definition InstanceExistsByProviderID :: "'w api \<Rightarrow> CSCloud \<Rightarrow> string \<Rightarrow> (('w, 'x) sys_scheme, bool) go" where
  "InstanceExistsByProviderID api cs providerID =
    byProviderID providerID
      (bind (attempt (instanceByProviderID api cs providerID)) (\<lambda>r. case r of
         Inl err \<Rightarrow> if err = InstanceNotFound then ret False else throw err
       | Inr _ \<Rightarrow> ret True))"

definition shutdownStates :: "string list" where
  "shutdownStates = [''Stopping'', ''Stopped'', ''Destroyed'', ''Expunging'', ''Shutdowned'', ''Error'']"

definition InstanceShutdownByProviderID :: "'w api \<Rightarrow> CSCloud \<Rightarrow> string \<Rightarrow> (('w, 'x) sys_scheme, bool) go" where
  "InstanceShutdownByProviderID api cs providerID =
    byProviderID providerID
      (bind (instanceByProviderID api cs providerID) (\<lambda>vm.
         if vm_State vm \<in> set shutdownStates then ret True
         else if vm_State vm = ''Unknown'' then throw (Errorf ''unknown vm state in cloudstack'' [])
         else ret False))"

section \<open>Zones\<close>

record zone =
  FailureDomain :: string
  Region :: string

definition GetZone :: "('s, zone) go" where
  "GetZone = ret \<lparr>FailureDomain = [], Region = []\<rparr>"

definition zoneOf :: "virtualMachine \<Rightarrow> zone" where
  "zoneOf vm = \<lparr>FailureDomain = vm_Zonename vm, Region = vm_Zonename vm\<rparr>"

definition GetZoneByProviderID :: "'w api \<Rightarrow> CSCloud \<Rightarrow> string \<Rightarrow> (('w, 'x) sys_scheme, zone) go" where
  "GetZoneByProviderID api cs providerID =
    byProviderID providerID (bind (instanceByProviderID api cs providerID) (\<lambda>vm. ret (zoneOf vm)))"

definition GetZoneByNodeName :: "'w api \<Rightarrow> CSCloud \<Rightarrow> string \<Rightarrow> (('w, 'x) sys_scheme, zone) go" where
  "GetZoneByNodeName api cs nodeName =
    (if nodeName = [] then throw (Errorf ''empty providerID'' [])
     else bind (instanceByName api cs ''zone'' nodeName) (\<lambda>(_, vm). ret (zoneOf vm)))"

section \<open>Lemmas\<close>

lemma keeps_instanceByProviderID [keeps_intros]: "keeps (outside_only read_only) (instanceByProviderID api cs pid)"
  by (auto simp: instanceByProviderID_def intro!: keeps_intros split: prod.splits sum.splits)

lemma keeps_instanceByName [keeps_intros]: "keeps (outside_only read_only) (instanceByName api cs what nm)"
  by (auto simp: instanceByName_def getNodeByName_def getInstanceForNode_def intro!: keeps_intros split: prod.splits sum.splits)

lemma keeps_nodeAddresses [keeps_intros]: "keeps (outside_only P) (nodeAddresses api cs vm)"
  by (auto simp: nodeAddresses_def nicAddress_def hostNames_def lookupAddrWithTimeout_def lookupHostWithTimeout_def Let_def
      intro!: keeps_intros)

lemma keeps_byProviderID [keeps_intros]: "keeps (outside_only P) m \<Longrightarrow> keeps (outside_only P) (byProviderID pid m)"
  by (auto simp: byProviderID_def intro: keeps_intros)

lemma instanceByProviderID_run:
  assumes "parseProviderID pid = Inr n" "clientForEnvironment cs (node_environment n) = Inr c"
    "api_getVMByID api c (node_vmID n) (node_projectID n) (world s) = ((count, res), w)"
  shows "\<exists>t. instanceByProviderID api cs pid s = ((if count = 0 then Err InstanceNotFound
      else case res of Inl e \<Rightarrow> Err (Wrapf ''error retrieving instance: %v'' [] (ApiErr e)) | Inr vm \<Rightarrow> Ret vm), t)"
  using assms by (cases res) (auto simp: instanceByProviderID_def go_simps io_count_def bind_def)

lemma instanceByProviderID_answers:
  assumes "instanceByProviderID api cs pid s = (r, t)" "r = Err InstanceNotFound \<or> (\<exists>vm. r = Ret vm)"
  shows "\<exists>n c count res w. parseProviderID pid = Inr n \<and> clientForEnvironment cs (node_environment n) = Inr c
    \<and> api_getVMByID api c (node_vmID n) (node_projectID n) (world s) = ((count, res), w)
    \<and> (case r of Ret vm \<Rightarrow> count \<noteq> 0 \<and> res = Inr vm | _ \<Rightarrow> count = 0)"
proof (cases "parseProviderID pid")
  case (Inl e)
  then show ?thesis using assms
    by (auto simp: instanceByProviderID_def run_throw parseProviderID_def Let_def split: if_splits)
next
  case (Inr n)
  note n = this
  show ?thesis
  proof (cases "clientForEnvironment cs (node_environment n)")
    case (Inl e)
    then show ?thesis using assms n
      by (auto simp: instanceByProviderID_def run_throw clientForEnvironment_def split: option.splits)
  next
    case (Inr c)
    obtain count res w where "api_getVMByID api c (node_vmID n) (node_projectID n) (world s) = ((count, res), w)"
      by (metis prod.collapse)
    with instanceByProviderID_run [OF n Inr this] n Inr assms show ?thesis
      by (auto split: if_splits sum.splits)
  qed
qed

lemma hostNames_run:
  "\<exists>names w. hostNames api a acc s = (Ret (acc @ map (Pair NodeHostName) names), s\<lparr>world := w\<rparr>)"
proof -
  have loop: "\<exists>names w. foldm ns (\<lambda>nm addresses. bind (lookupHostWithTimeout api nm) (\<lambda>ips.
        ret (if a \<in> set ips then addresses @ [(NodeHostName, nm)] else addresses))) acc s
      = (Ret (acc @ map (Pair NodeHostName) names), s\<lparr>world := w\<rparr>)" for ns acc s
  proof (induction ns arbitrary: acc s)
    case Nil
    show ?case by (rule exI [of _ "[]"], rule exI [of _ "world s"]) (simp add: ret_def)
  next
    case (Cons nm ns)
    obtain ips w where l: "dns_LookupHost api nm (world s) = (ips, w)" by fastforce
    from Cons.IH [of "if a \<in> set ips then acc @ [(NodeHostName, nm)] else acc" "s\<lparr>world := w\<rparr>"]
    obtain names w' where "foldm ns (\<lambda>nm addresses. bind (lookupHostWithTimeout api nm) (\<lambda>ips.
        ret (if a \<in> set ips then addresses @ [(NodeHostName, nm)] else addresses)))
        (if a \<in> set ips then acc @ [(NodeHostName, nm)] else acc) (s\<lparr>world := w\<rparr>)
      = (Ret ((if a \<in> set ips then acc @ [(NodeHostName, nm)] else acc) @ map (Pair NodeHostName) names), s\<lparr>world := w'\<rparr>)"
      by auto
    then show ?case using l
      by (intro exI [of _ "(if a \<in> set ips then [nm] else []) @ names"] exI [of _ w'])
        (simp add: lookupHostWithTimeout_def local_io_def bind_def ret_def)
  qed
  obtain ns w where "dns_LookupAddr api a (world s) = (ns, w)" by fastforce
  then have "lookupAddrWithTimeout api a s = (Ret ns, s\<lparr>world := w\<rparr>)" by (simp add: lookupAddrWithTimeout_def local_io_def)
  with loop [of ns acc "s\<lparr>world := w\<rparr>"] show ?thesis by (simp add: hostNames_def go_simps)
qed

section \<open>Correctness\<close>

text \<open>
  C38: provider IDs round trip. The ID of a node whose parts have no slash parses back to its environment, project and
  machine, with or without the provider's scheme in front, unless the environment itself is named like the scheme
  and the project is empty.
\<close>

theorem providerID_roundtrip:
  assumes slash: "CHR ''/'' \<notin> set (node_environment n)" "CHR ''/'' \<notin> set (node_projectID n)" "CHR ''/'' \<notin> set (node_vmID n)"
    and scheme: "node_environment n \<noteq> ProviderName @ '':'' \<or> node_projectID n \<noteq> []"
  shows "parseProviderID (toProviderID n) = Inr (n\<lparr>node_name := []\<rparr>)
    \<and> parseProviderID (ProviderName @ ''://'' @ toProviderID n) = Inr (n\<lparr>node_name := []\<rparr>)"
proof -
  let ?p = "ProviderName @ ''://''" and ?id = "toProviderID n"
  have id: "?id = node_environment n @ CHR ''/'' # node_projectID n @ CHR ''/'' # node_vmID n"
    by (simp add: toProviderID_def)
  have split: "Split CHR ''/'' ?id = [node_environment n, node_projectID n, node_vmID n]"
    using slash unfolding id by simp
  have "\<not> HasPrefix ?id ?p"
  proof
    assume "HasPrefix ?id ?p"
    then obtain rest where "?id = (ProviderName @ '':'') @ CHR ''/'' # CHR ''/'' # rest" by (auto simp: HasPrefix_iff)
    moreover have "CHR ''/'' \<notin> set (ProviderName @ '':'')" by (simp add: ProviderName_def)
    ultimately have "Split CHR ''/'' ?id = (ProviderName @ '':'') # [] # Split CHR ''/'' rest"
      using Split_append_sep [of "CHR ''/''" "ProviderName @ '':''" "CHR ''/'' # rest"] by (simp del: Split_append_sep)
    with split scheme show False by auto
  qed
  then have "TrimPrefix ?id ?p = ?id" by (simp add: TrimPrefix_def)
  moreover have "TrimPrefix (ProviderName @ ''://'' @ ?id) ?p = ?id" using TrimPrefix_append [of ?p ?id] by simp
  ultimately show ?thesis by (simp add: parseProviderID_def split Let_def)
qed

theorem providerID_roundtrip_witness:
  "parseProviderID ''env1/p1/vm1'' = Inr \<lparr>node_projectID = ''p1'', node_name = [], node_environment = ''env1'', node_vmID = ''vm1''\<rparr>"
  using providerID_roundtrip [of "\<lparr>node_projectID = ''p1'', node_name = ''n'', node_environment = ''env1'', node_vmID = ''vm1''\<rparr>"]
  by (simp add: toProviderID_def ProviderName_def)

text \<open>
  C37: a machine is reported as gone only when CloudStack, asked by the client of the ID's environment for the ID's
  machine and project, counted no match, and as existing only when it returned one. Every other answer is an error.
\<close>

theorem InstanceExists_exact:
  assumes run: "InstanceExistsByProviderID api cs pid s = (Ret b, t)"
  shows "\<exists>n c count res w. parseProviderID pid = Inr n \<and> clientForEnvironment cs (node_environment n) = Inr c
    \<and> api_getVMByID api c (node_vmID n) (node_projectID n) (world s) = ((count, res), w)
    \<and> b = (count \<noteq> 0) \<and> (b \<longrightarrow> (\<exists>vm. res = Inr vm))"
proof -
  obtain r t1 where i: "instanceByProviderID api cs pid s = (r, t1)" by fastforce
  with run have r: "if b then \<exists>vm. r = Ret vm else r = Err InstanceNotFound"
    by (cases r) (auto simp: InstanceExistsByProviderID_def byProviderID_def go_simps split: if_splits)
  then have "r = Err InstanceNotFound \<or> (\<exists>vm. r = Ret vm)" by (auto split: if_splits)
  from instanceByProviderID_answers [OF i this] r show ?thesis by (fastforce split: if_splits outcome.splits)
qed

theorem InstanceExists_exact_witness:
  "\<exists>n c count res w. parseProviderID ''env1/p1/vm9'' = Inr n \<and> clientForEnvironment sampleCloud (node_environment n) = Inr c
    \<and> api_getVMByID (offlineAPI\<lparr>api_getVMByID := (\<lambda>_ _ _ w. ((0, Inl ''no match''), w))\<rparr>) c (node_vmID n) (node_projectID n) ()
      = ((count, res), w) \<and> count = 0"
proof -
  let ?api = "offlineAPI\<lparr>api_getVMByID := (\<lambda>_ _ _ w. ((0, Inl ''no match''), w))\<rparr> :: unit api"
  have "fst (InstanceExistsByProviderID ?api sampleCloud ''env1/p1/vm9'' \<lparr>world = (), trace = []\<rparr>) = Ret False" by code_simp
  then obtain t where "InstanceExistsByProviderID ?api sampleCloud ''env1/p1/vm9'' \<lparr>world = (), trace = []\<rparr> = (Ret False, t)"
    by (metis fst_conv surj_pair)
  from InstanceExists_exact [OF this] show ?thesis by auto
qed

text \<open>
  A machine is reported as shut down exactly when it was found in one of the final states; a machine that is not
  found, or in an unknown state, is an error and never reported as running.
\<close>

lemma InstanceShutdown_exact:
  assumes run: "InstanceShutdownByProviderID api cs pid s = (Ret b, t)"
  shows "\<exists>n c count vm w. parseProviderID pid = Inr n \<and> clientForEnvironment cs (node_environment n) = Inr c
    \<and> api_getVMByID api c (node_vmID n) (node_projectID n) (world s) = ((count, Inr vm), w) \<and> count \<noteq> 0
    \<and> b = (vm_State vm \<in> {''Stopping'', ''Stopped'', ''Destroyed'', ''Expunging'', ''Shutdowned'', ''Error''})
    \<and> vm_State vm \<noteq> ''Unknown''"
proof -
  obtain r t1 where i: "instanceByProviderID api cs pid s = (r, t1)" by fastforce
  with run obtain vm where r: "r = Ret vm" "vm_State vm \<in> set shutdownStates \<longleftrightarrow> b" "vm_State vm \<noteq> ''Unknown''"
    by (cases r) (auto simp: InstanceShutdownByProviderID_def byProviderID_def go_simps shutdownStates_def split: if_splits)
  from instanceByProviderID_answers [OF i] r show ?thesis by (fastforce simp: shutdownStates_def)
qed

text \<open>
  C39: addresses never index past the network cards. A machine with a card has addresses whatever indices are
  configured: first the internal address, of the configured card or else the first one, then host names only, then
  at most one external address from another existing card, then the public address if there is one.
\<close>

theorem nodeAddresses_total:
  assumes nics: "vm_Nic vm \<noteq> []"
  shows "\<exists>names w ext. nodeAddresses api cs vm s
      = (Ret ((NodeInternalIP, nic_Ipaddress (vm_Nic vm ! (let i = InternalIPIndex (Global (config cs)) in
            if 0 \<le> i \<and> i < int (length (vm_Nic vm)) then nat i else 0)))
          # map (Pair NodeHostName) names @ map (Pair NodeExternalIP) ext
          @ (if vm_Publicip vm = [] then [] else [(NodeExternalIP, vm_Publicip vm)])), s\<lparr>world := w\<rparr>)
    \<and> (vm_Hostname vm \<noteq> [] \<longrightarrow> names = [vm_Hostname vm] \<and> w = world s)
    \<and> (ext = [] \<or> (\<exists>j < length (vm_Nic vm). int j = ExternalIPIndex (Global (config cs)) \<and> ext = [nic_Ipaddress (vm_Nic vm ! j)]))"
proof -
  define i where "i = (let i = InternalIPIndex (Global (config cs)) in
    if i < 0 \<or> i \<ge> int (length (vm_Nic vm)) then 0 else i)"
  define e where "e = ExternalIPIndex (Global (config cs))"
  define a where "a = nic_Ipaddress (vm_Nic vm ! nat i)"
  have i: "0 \<le> i" "i < int (length (vm_Nic vm))" using nics by (auto simp: i_def Let_def)
  have ieq: "nat i = (let i = InternalIPIndex (Global (config cs)) in
      if 0 \<le> i \<and> i < int (length (vm_Nic vm)) then nat i else 0)" by (auto simp: i_def Let_def)
  define hn :: "(('a, 'b) sys_scheme, nodeAddress list) go" where
    "hn = (if vm_Hostname vm \<noteq> [] then ret ([(NodeInternalIP, a)] @ [(NodeHostName, vm_Hostname vm)])
      else hostNames api a [(NodeInternalIP, a)])"
  have "\<exists>names w. hn s = (Ret ((NodeInternalIP, a) # map (Pair NodeHostName) names), s\<lparr>world := w\<rparr>)
      \<and> (vm_Hostname vm \<noteq> [] \<longrightarrow> names = [vm_Hostname vm] \<and> w = world s)"
    using hostNames_run [of api a "[(NodeInternalIP, a)]" s] by (auto simp: hn_def ret_def)
  then obtain names w where hn: "hn s = (Ret ((NodeInternalIP, a) # map (Pair NodeHostName) names), s\<lparr>world := w\<rparr>)"
    "vm_Hostname vm \<noteq> [] \<longrightarrow> names = [vm_Hostname vm] \<and> w = world s" by blast
  define ext where "ext = (if e \<noteq> i \<and> e \<ge> 0 \<and> e < int (length (vm_Nic vm)) then [nic_Ipaddress (vm_Nic vm ! nat e)] else [])"
  have "nodeAddresses api cs vm s = (Ret ((NodeInternalIP, a) # map (Pair NodeHostName) names @ map (Pair NodeExternalIP) ext
      @ (if vm_Publicip vm = [] then [] else [(NodeExternalIP, vm_Publicip vm)])), s\<lparr>world := w\<rparr>)"
    using nics i hn(1) unfolding nodeAddresses_def
    by (simp add: Let_def nicAddress_def i_def [symmetric, unfolded Let_def] e_def [symmetric] a_def [symmetric]
        hn_def [symmetric, simplified] ext_def go_simps)
  moreover have "ext = [] \<or> (\<exists>j < length (vm_Nic vm). int j = e \<and> ext = [nic_Ipaddress (vm_Nic vm ! j)])"
    by (auto simp: ext_def intro: exI [of _ "nat e"])
  ultimately show ?thesis using hn(2) unfolding a_def ieq e_def by blast
qed

theorem nodeAddresses_total_witness:
  "\<exists>names w ext. nodeAddresses offlineAPI sampleCloud \<lparr>vm_Id = ''vm1'', vm_Name = ''n1'',
        vm_Nic = [\<lparr>nic_Networkid = ''net1'', nic_Ipaddress = ''10.0.0.1''\<rparr>], vm_Hostname = ''h1'', vm_Publicip = ''200.0.0.1'',
        vm_State = ''Running'', vm_Serviceofferingid = [], vm_Serviceofferingname = [], vm_Zonename = []\<rparr> \<lparr>world = (), trace = []\<rparr>
      = (Ret ((NodeInternalIP, ''10.0.0.1'') # map (Pair NodeHostName) names @ map (Pair NodeExternalIP) ext
          @ [(NodeExternalIP, ''200.0.0.1'')]), \<lparr>world = w, trace = []\<rparr>) \<and> names = [''h1'']"
  using nodeAddresses_total [of "\<lparr>vm_Id = ''vm1'', vm_Name = ''n1'',
        vm_Nic = [\<lparr>nic_Networkid = ''net1'', nic_Ipaddress = ''10.0.0.1''\<rparr>], vm_Hostname = ''h1'', vm_Publicip = ''200.0.0.1'',
        vm_State = ''Running'', vm_Serviceofferingid = [], vm_Serviceofferingname = [], vm_Zonename = []\<rparr>"
      offlineAPI sampleCloud "\<lparr>world = (), trace = []\<rparr>"]
  by (auto simp: Let_def sample_defs)

text \<open>The instance and zone interfaces only read.\<close>

lemma instances_read_only:
  "outside_only read_only s (snd (NodeAddresses api cs nm s)) \<and> outside_only read_only s (snd (NodeAddressesByProviderID api cs pid s))
    \<and> outside_only read_only s (snd (InstanceID api cs nm s)) \<and> outside_only read_only s (snd (InstanceType api cs nm s))
    \<and> outside_only read_only s (snd (InstanceTypeByProviderID api cs pid s))
    \<and> outside_only read_only s (snd (InstanceExistsByProviderID api cs pid s))
    \<and> outside_only read_only s (snd (InstanceShutdownByProviderID api cs pid s))
    \<and> outside_only read_only s (snd (GetZoneByProviderID api cs pid s)) \<and> outside_only read_only s (snd (GetZoneByNodeName api cs nm s))"
proof -
  have "keeps (outside_only read_only) (NodeAddresses api cs nm)" "keeps (outside_only read_only) (NodeAddressesByProviderID api cs pid)"
    "keeps (outside_only read_only) (InstanceID api cs nm)" "keeps (outside_only read_only) (InstanceType api cs nm)"
    "keeps (outside_only read_only) (InstanceTypeByProviderID api cs pid)"
    "keeps (outside_only read_only) (InstanceExistsByProviderID api cs pid)"
    "keeps (outside_only read_only) (InstanceShutdownByProviderID api cs pid)"
    "keeps (outside_only read_only) (GetZoneByProviderID api cs pid)" "keeps (outside_only read_only) (GetZoneByNodeName api cs nm)"
    unfolding NodeAddresses_def NodeAddressesByProviderID_def InstanceID_def InstanceType_def InstanceTypeByProviderID_def
      InstanceExistsByProviderID_def InstanceShutdownByProviderID_def GetZoneByProviderID_def GetZoneByNodeName_def
    by (auto intro!: keeps_intros split: prod.splits sum.splits)
  then show ?thesis unfolding keeps_def by blast
qed

end
