(* ===== verification/System.thy ===== *)
theory System
  imports NoPanic Instances
begin

text \<open>
  The running provider: the handlers the controller manager calls, the endpoint events of the informer and the looks
  of the workers at the queue, as steps on the common state. A step is one whole operation that ends; how operations on
  one service exclude each other while they run is the subject of the theory of the service lock.
\<close>

section \<open>Steps\<close>

inductive provider_step :: "'w api \<Rightarrow> CSCloud \<Rightarrow> ('w, 'x) psys_scheme \<Rightarrow> ('w, 'x) psys_scheme \<Rightarrow> bool"
  for api cs where
  looked_up: "GetLoadBalancer api cs svc s = (r, t) \<Longrightarrow> r \<noteq> Block \<Longrightarrow> provider_step api cs s t"
| ensured: "EnsureLoadBalancer api cs svc ns s = (r, t) \<Longrightarrow> r \<noteq> Block \<Longrightarrow> provider_step api cs s t"
| updated: "UpdateLoadBalancer api cs svc ns s = (r, t) \<Longrightarrow> r \<noteq> Block \<Longrightarrow> provider_step api cs s t"
| deleted: "EnsureLoadBalancerDeleted api cs svc s = (r, t) \<Longrightarrow> r \<noteq> Block \<Longrightarrow> provider_step api cs s t"
| worked: "workerStep api cs s = (r, t) \<Longrightarrow> r \<noteq> Block \<Longrightarrow> provider_step api cs s t"
| endpoint_event: "provider_step api cs s (registry_update (handleEndpoints ev) s)"

inductive_cases provider_stepE: "provider_step api cs s t"

text \<open>The calls of the controller manager alone, when the workers and the informer are accounted for elsewhere.\<close>

inductive handler_step :: "'w api \<Rightarrow> CSCloud \<Rightarrow> ('w, 'x) psys_scheme \<Rightarrow> ('w, 'x) psys_scheme \<Rightarrow> bool"
  for api cs where
  looks_up: "GetLoadBalancer api cs svc s = (r, t) \<Longrightarrow> r \<noteq> Block \<Longrightarrow> handler_step api cs s t"
| ensures: "EnsureLoadBalancer api cs svc ns s = (r, t) \<Longrightarrow> r \<noteq> Block \<Longrightarrow> handler_step api cs s t"
| updates: "UpdateLoadBalancer api cs svc ns s = (r, t) \<Longrightarrow> r \<noteq> Block \<Longrightarrow> handler_step api cs s t"
| deletes: "EnsureLoadBalancerDeleted api cs svc s = (r, t) \<Longrightarrow> r \<noteq> Block \<Longrightarrow> handler_step api cs s t"

lemma handler_provider: "handler_step api cs s t \<Longrightarrow> provider_step api cs s t"
  by (induction rule: handler_step.induct) (blast intro: provider_step.intros)+

definition provider_init :: "('w, 'x) psys_scheme \<Rightarrow> bool" where
  "provider_init s \<longleftrightarrow> registry s = newNodeRegistry \<and> queue s = [] \<and> svcLock s = newServiceLock"

section \<open>The invariant\<close>

text \<open>
  Every registered node is stored once under its name, every pending entry once under the key of its service and with a
  rule in the load balancer it remembers, and nobody refers to a lock.
\<close>

definition data_inv :: "('w, 'x) psys_scheme \<Rightarrow> bool" where
  "data_inv s \<longleftrightarrow> reg_wf (registry s) \<and> queue_wf (queue s)"

definition sys_inv :: "('w, 'x) psys_scheme \<Rightarrow> bool" where
  "sys_inv s \<longleftrightarrow> data_inv s \<and> inUse (svcLock s) = []"

definition inv_kept :: "('w, 'x) psys_scheme \<Rightarrow> ('w, 'x) psys_scheme \<Rightarrow> bool" where
  "inv_kept s t \<longleftrightarrow> (data_inv s \<longrightarrow> data_inv t) \<and> svcLock t = svcLock s"

interpretation kept: frame_relation inv_kept
  by unfold_locales (auto simp: inv_kept_def)

lemma keeps_bind_ret:
  assumes "keeps inv_kept m" "\<And>a s t. m s = (Ret a, t) \<Longrightarrow> keeps inv_kept (f a)"
  shows "keeps inv_kept (bind m f)"
  unfolding keeps_def
proof
  fix s
  obtain r t where m: "m s = (r, t)" by fastforce
  have st: "inv_kept s t" by (rule keepsD [OF assms(1) m])
  show "inv_kept s (snd (bind m f s))"
    using m st assms(2) [of s _ t] kept.R_trans [OF st]
    by (cases r) (auto simp: go_simps keeps_def)
qed

lemma work_inv: "work_only s t \<Longrightarrow> inv_kept s t"
  by (simp add: work_only_def inv_kept_def data_inv_def)

lemma keeps_work_inv: "keeps work_only m \<Longrightarrow> keeps inv_kept m"
  by (auto simp: keeps_def intro: work_inv)

lemmas keeps_outside_inv = keeps_work_inv [OF keeps_outside_work]

lemma keeps_push_inv: "entry_wf (svcKey (qe_service e)) e \<Longrightarrow> keeps inv_kept (push cs e)"
  using entry_wf_merge [of _ e] queue_wf_update
  by (auto simp: keeps_def inv_kept_def data_inv_def push_run Let_def)

lemma keeps_updateNodes_inv: "keeps inv_kept (updateNodes api cs ns)"
  unfolding keeps_def inv_kept_def data_inv_def
proof (intro allI conjI impI)
  fix s :: "('a, 'b) psys_scheme"
  obtain r t where u: "updateNodes api cs ns s = (r, t)" by fastforce
  have "same_work s t" by (rule keepsD [OF keeps_updateNodes_same u])
  then show "svcLock (snd (updateNodes api cs ns s)) = svcLock s" by (simp add: u same_work_def)
  assume "reg_wf (registry s) \<and> queue_wf (queue s)"
  with reg_wf_updateNodes [OF _ u] \<open>same_work s t\<close>
  show "reg_wf (registry (snd (updateNodes api cs ns s)))" "queue_wf (queue (snd (updateNodes api cs ns s)))"
    by (simp_all add: u same_work_def)
qed

lemma keeps_locked_inv:
  "keeps inv_kept (getLocked api cs svc)" "keeps inv_kept (deleteLocked api cs svc)" "keeps inv_kept (ensureLocked api cs svc ns)"
proof -
  note out = keeps_outside_inv
  show "keeps inv_kept (getLocked api cs svc)"
    unfolding getLocked_def by (auto intro!: kept.keeps_rules out [OF keeps_getLoadBalancer])
  show "keeps inv_kept (deleteLocked api cs svc)"
    unfolding deleteLocked_def
    by (auto intro!: kept.keeps_rules out [OF keeps_getLoadBalancer] out [OF keeps_outside_all(1)] out [OF keeps_outside_all(2)])
  have find: "keeps inv_kept (findForEnsure api cs svc ns)"
    unfolding findForEnsure_def
    by (auto intro!: kept.keeps_rules out [OF keeps_lift_sum] keeps_updateNodes_inv out [OF keeps_getLoadBalancer]
        out [OF keeps_setProjectLabel])
  have push: "keeps inv_kept (push cs \<lparr>qe_service = lb_service lb, qe_lb = Some lb, updatePool = p, start = n, backoffUntil = b\<rparr>)"
    if "lb_rule lb \<noteq> None" for lb p n b
    using that by (intro keeps_push_inv) (simp add: entry_wf_def)
  show "keeps inv_kept (ensureLocked api cs svc ns)"
    unfolding ensureLocked_def
    by (auto intro!: kept.keeps_bind [OF find] kept.keeps_bind [OF out [OF keeps_outside_all(3)]]
        keeps_bind_ret [OF out [OF keeps_outside_all(4)]] kept.keeps_rules out [OF keeps_local_io] push
        dest!: ensureRule_Ret split: option.splits)
qed

lemma keeps_unlocked_inv: "keeps inv_kept (UpdateLoadBalancer api cs svc ns)" "keeps inv_kept (finishEntry api cs e r)"
proof -
  have push: "keeps inv_kept (push cs \<lparr>qe_service = svc, qe_lb = None, updatePool = p, start = n, backoffUntil = b\<rparr>)" for svc p n b
    by (rule keeps_push_inv) (simp add: entry_wf_def)
  have push': "keeps inv_kept (push cs (e\<lparr>backoffUntil := b, start := n, qe_lb := None\<rparr>))" for b n
    by (rule keeps_push_inv) (simp add: entry_wf_def)
  note out = keeps_outside_inv
  show "keeps inv_kept (UpdateLoadBalancer api cs svc ns)"
    unfolding UpdateLoadBalancer_def
    by (auto intro!: kept.keeps_rules keeps_updateNodes_inv push out [OF keeps_local_io] split: option.splits)
  show "keeps inv_kept (finishEntry api cs e r)"
    unfolding finishEntry_def pushWithBackoff_def Let_def
    by (auto intro!: kept.keeps_rules push' out [OF keeps_local_io] out [OF keeps_local_do]
        out [OF keeps_event_io [of "\<lambda>_. True"]] split: sum.splits)
qed

lemma sys_inv_withLock:
  fixes s :: "('w, 'x) psys_scheme"
  assumes inv: "sys_inv s" and m: "keeps inv_kept m" and run: "withLock key m s = (r, t)" "r \<noteq> Block"
  shows "sys_inv t"
proof -
  have free: "map_of (inUse (svcLock s)) key = None" using inv by (simp add: sys_inv_def)
  have lock: "svcLock v = svcLock u" if "inv_kept u v" for u v :: "('w, 'x) psys_scheme" using that by (simp add: inv_kept_def)
  obtain s1 t1 where s1: "registry s1 = registry s" "queue s1 = queue s" "m s1 = (r, t1)"
    "t = t1\<lparr>svcLock := svcLock t\<rparr>" "map_of (inUse (svcLock t)) = map_of (inUse (svcLock s))"
    using withLock_free [OF free m lock run] by blast
  have "data_inv t1" using keepsD [OF m s1(3)] inv s1(1,2) by (simp add: inv_kept_def sys_inv_def data_inv_def)
  moreover have "registry t = registry t1" "queue t = queue t1" by (subst s1(4), simp)+
  ultimately show ?thesis using s1(5) inv by (simp add: sys_inv_def data_inv_def)
qed

lemma sys_inv_workerStep:
  assumes inv: "sys_inv s" and run: "workerStep api cs s = (r, t)" "r \<noteq> Block"
  shows "sys_inv t"
proof -
  have wf: "queue_wf (queue s)" using inv by (simp add: sys_inv_def data_inv_def)
  obtain now w where now: "time_Now api (world s) = (now, w)" by fastforce
  obtain r1 s1 where pop: "pop api s = (r1, s1)" by fastforce
  from wf now pop show ?thesis
  proof (cases rule: pop_cases)
    case none
    then show ?thesis using run pop inv by (auto simp: workerStep_def go_simps sys_inv_def data_inv_def)
  next
    case (some k e)
    have inv1: "sys_inv s1" using inv some by (simp add: sys_inv_def data_inv_def queue_wf_delete)
    obtain r2 s2 where q: "processQueueEntry api cs e s1 = (r2, s2)" by fastforce
    have inv2: "sys_inv s2" if "r2 \<noteq> Block"
      using processQueueEntry_free [OF _ q that] inv1 by (auto simp: sys_inv_def data_inv_def)
    have fin: "sys_inv t" if "sys_inv u" "finishEntry api cs e x u = (r, t)" for x u
      using keepsD [OF keeps_unlocked_inv(2) that(2)] that(1) by (simp add: inv_kept_def sys_inv_def)
    show ?thesis
      using run pop some(1) q inv2 fin by (cases r2) (auto simp: workerStep_def go_simps)
  qed
qed

interpretation provider: invariant_system provider_init "provider_step api cs" sys_inv
proof unfold_locales
  show "provider_init s \<Longrightarrow> sys_inv s" for s :: "('a, 'b) psys_scheme"
    by (simp add: provider_init_def sys_inv_def data_inv_def newNodeRegistry_def newServiceLock_def reg_wf_def queue_wf_def)
  have un: "sys_inv t" if "keeps inv_kept m" "m s = (r, t)" "sys_inv s" for m r and s t :: "('a, 'b) psys_scheme"
    using keepsD [OF that(1,2)] that(3) by (simp add: inv_kept_def sys_inv_def)
  show "sys_inv t" if "provider_step api cs s t" "sys_inv s" for s t :: "('a, 'b) psys_scheme"
    using that
  proof (induction rule: provider_step.induct)
    case (looked_up svc s r t)
    then show ?case
      by (cases svc) (auto simp: GetLoadBalancer_def throw_def dest: sys_inv_withLock [OF _ keeps_locked_inv(1)])
  next
    case (ensured svc ns s r t)
    then show ?case
      by (cases svc) (auto simp: EnsureLoadBalancer_def throw_def dest: sys_inv_withLock [OF _ keeps_locked_inv(3)])
  next
    case (deleted svc s r t)
    then show ?case
      by (cases svc) (auto simp: EnsureLoadBalancerDeleted_def throw_def dest: sys_inv_withLock [OF _ keeps_locked_inv(2)])
  next
    case (endpoint_event s ev)
    then show ?case by (simp add: sys_inv_def data_inv_def reg_wf_handleEndpoints)
  qed (auto dest: un [OF keeps_unlocked_inv(1)] sys_inv_workerStep)
qed

section \<open>The work of a worker\<close>

text \<open>The changing part of the work on an entry, once its load balancer is known.\<close>

definition entryWork ::
  "'w api \<Rightarrow> CSCloud \<Rightarrow> queueEntry \<Rightarrow> string list \<Rightarrow> string list \<Rightarrow> loadBalancer \<Rightarrow> (('w, 'x) sys_scheme, unit) go" where
  "entryWork api cs entry hosts nets lb = bind (syncNodes api cs lb hosts nets) (\<lambda>_.
     if updatePool entry then updateLoadBalancerPool api cs lb else ret ())"

definition entry_call :: "CSCloud \<Rightarrow> queueEntry \<Rightarrow> loadBalancer \<Rightarrow> call \<Rightarrow> bool" where
  "entry_call cs entry lb call \<longleftrightarrow> read_only call \<or> (\<exists>rule. lb_rule lb = Some rule
     \<and> (sync_call cs (rule_Id rule) call \<or> updatePool entry \<and> pool_call (rule_Id rule) call))"

lemma keeps_entryWork: "keeps (outside_only (entry_call cs entry lb)) (entryWork api cs entry hosts nets lb)"
proof (cases "lb_rule lb")
  case None
  then show ?thesis by (auto simp: entryWork_def syncNodes_def updateLoadBalancerPool_def withRule_def intro!: keeps_intros)
next
  case (Some rule)
  have "keeps (outside_only (entry_call cs entry lb)) (syncNodes api cs lb hosts nets)"
    by (rule keeps_outside_mono [OF keeps_syncNodes [OF Some]]) (simp add: entry_call_def Some)
  moreover have "keeps (outside_only (entry_call cs entry lb)) (updateLoadBalancerPool api cs lb)" if "updatePool entry"
    by (rule keeps_outside_mono [OF keeps_updateLoadBalancerPool [OF Some]]) (simp add: entry_call_def Some that)
  ultimately show ?thesis unfolding entryWork_def by (auto intro!: keeps_intros)
qed

lemma entryWork_calls:
  assumes "entryWork api cs entry hosts nets lb s = (r, t)" "trace t = trace s @ calls" "call \<in> set calls" "\<not> read_only call"
  shows "\<exists>rule. lb_rule lb = Some rule \<and> (sync_call cs (rule_Id rule) call \<or> updatePool entry \<and> pool_call (rule_Id rule) call)"
  using keepsD [OF keeps_entryWork assms(1)] assms(2-4) by (auto simp: outside_only_def list_all_iff entry_call_def)

lemma pop_world: "pop api s = (r, t) \<Longrightarrow> snd (time_Now api (world s)) = world s \<Longrightarrow> world t = world s"
  by (auto simp: pop_def Let_def bind_def gets_def ret_def local_io_def modify_def split: if_splits prod.splits)

text \<open>An operation that returns whatever lock state it starts from returns under a free lock.\<close>

lemma withLock_Ret:
  assumes free: "map_of (inUse (svcLock s)) key = None" and m: "keeps R m" "\<And>s t. R s t \<Longrightarrow> svcLock t = svcLock s"
    and run: "\<And>l. \<exists>u. m (s\<lparr>svcLock := l\<rparr>) = (Ret a, u) \<and> Q u"
  shows "\<exists>t u. withLock key m s = (Ret a, t) \<and> Q u \<and> t = u\<lparr>svcLock := svcLock t\<rparr>"
proof -
  let ?l = "\<lparr>inUse = AList.update key (length (heap (svcLock s))) (inUse (svcLock s)),
    heap = heap (svcLock s) @ [\<lparr>counter = 1, locked = True\<rparr>]\<rparr>"
  obtain u where u: "m (s\<lparr>svcLock := ?l\<rparr>) = (Ret a, u)" "Q u" using run by blast
  have l: "svcLock u = ?l" using m(2) [OF keepsD [OF m(1) u(1)]] by simp
  obtain l' where "Unlock key (svcLock u) = Some l'"
    using Unlock_run [of "svcLock u" key "heap (svcLock s)" "inUse (svcLock s)"] l by auto
  with u lockService_run [OF free] show ?thesis
    by (intro exI [of _ "u\<lparr>svcLock := l'\<rparr>"] exI [of _ u]) (simp add: withLock_def go_simps)
qed

text \<open>
  Pending work arrives: against the server that keeps the hosts of a rule, a worker that takes an entry with its
  load balancer leaves exactly the machines of the service's nodes behind the rule, whatever was there before, reports
  success, and the service is no longer pending.
\<close>

lemma worker_converges:
  fixes s :: "(CloudstackServer, 'x) psys_scheme"
  assumes wf: "queue_wf (queue s)" and idle: "inUse (svcLock s) = []"
    and pop: "pop fakeAPI s = (Ret (Some e), s1)"
    and lb: "qe_lb e = Some lb" "lb_rule lb = Some rule" "getClient cs lb = Inr c"
    and nodes: "nodesForService cs (registry s) (Some (qe_service e)) = Inr ns"
    and pools: "\<not> updatePool e \<or> getLabelOrAnnotation (svc_meta (lb_service lb)) lbCustomHealthCheck = None \<and> rule_Protocol rule \<noteq> ''UDP''"
    and nets: "AssignNetworks (Command (config cs)) = []"
    and ids: "plainIDs (map vmID ns)" "plainIDs (sorted_list_of_set (ruleHosts (world s) (rule_Id rule)))"
  shows "\<exists>t. workerStep fakeAPI cs s = (Ret True, t) \<and> ruleHosts (world t) = (ruleHosts (world s))(rule_Id rule := vmID ` set ns)
    \<and> map_of (queue t) = (map_of (queue s))(svcKey (qe_service e) := None)"
proof -
  let ?k = "svcKey (qe_service e)"
  let ?h = "(ruleHosts (world s))(rule_Id rule := vmID ` set ns)"
  obtain now w where now: "time_Now fakeAPI (world s) = (now, w)" by fastforce
  have s1: "queue s1 = AList.delete ?k (queue s)" "registry s1 = registry s" "svcLock s1 = svcLock s"
    using pop by (cases rule: pop_cases [OF wf now pop]; simp)+
  have w1: "world s1 = world s" using pop_world [OF pop] by (simp add: fakeAPI_def offlineAPI_def)
  have proc: "\<exists>u. processEntry fakeAPI cs e (s1\<lparr>svcLock := l\<rparr>) = (Ret (), u) \<and> ruleHosts (world u) = ?h" for l
  proof -
    have "\<exists>u. syncNodes fakeAPI cs lb (map vmID ns) (sort (remdups (map networkID ns))) (s1\<lparr>svcLock := l\<rparr>) = (Ret (), u)
        \<and> ruleHosts (world u) = (ruleHosts (world (s1\<lparr>svcLock := l\<rparr>)))(rule_Id rule := set (map vmID ns))"
      by (rule host_store.syncNodes_converges [OF fake_host_store [OF nets] lb(3,2) ids(1)]) (simp add: w1 ids(2))
    then show ?thesis
      using nodes pools lb s1(2) w1
      by (auto simp: processEntry_def idsForNodes_def updateLoadBalancerPool_def withRule_def go_simps split: if_splits)
  qed
  have free: "map_of (inUse (svcLock s1)) ?k = None" using s1 idle by simp
  obtain t1 u where q: "processQueueEntry fakeAPI cs e s1 = (Ret (), t1)" "ruleHosts (world u) = ?h" "t1 = u\<lparr>svcLock := svcLock t1\<rparr>"
    using withLock_Ret [OF free keeps_processEntry work_only_lock proc] unfolding processQueueEntry_def by blast
  have "ruleHosts (world t1) = ?h" by (subst q(3)) (simp add: q(2))
  moreover have "queue t1 = AList.delete ?k (queue s)"
    using processQueueEntry_free [OF free q(1)] s1(1) by simp
  ultimately show ?thesis
    using pop q(1)
    by (auto simp: workerStep_def finishEntry_def go_simps local_do_def event_io_def fakeAPI_def offlineAPI_def delete_conv' Let_def)
qed

end
