(* ===== verification/Lifecycle.thy ===== *)
theory Lifecycle
  imports System
begin

text \<open>
  The life of the process: the command that starts the controller manager with this provider, the construction of the
  provider, and the worker goroutines of the update queue from \<open>start\<close> to \<open>stopWait\<close>, with their timers, the context of the
  process and the channel that stops the queue.
\<close>

section \<open>The command\<close>

text \<open>
  \<open>cmd/controller/main.go\<close>: a flag is a name with a value; \<open>setFlag\<close> is the check the flag's own type makes of a new value
  (\<open>Some e\<close>: refused), \<open>execute\<close> the outcome of the command with the flags. The result is the exit status and what was written to
  standard error.
\<close>

type_synonym flags = "(string \<times> string) list"

fun visitFlags :: "(string \<Rightarrow> string \<Rightarrow> string option) \<Rightarrow> flags \<Rightarrow> string + flags" where
  "visitFlags setFlag [] = Inr []"
| "visitFlags setFlag ((nm, v) # rest) =
    (let (err, v1) = (if nm = ''cloud-provider''
           then (case setFlag nm ''custom-cloudstack'' of Some e \<Rightarrow> (Some e, v) | None \<Rightarrow> (None, ''custom-cloudstack''))
           else (None, v))
     in case err of
          Some e \<Rightarrow> Inl (Sprintf ''failed to set flag %q: %s'' [nm, e] @ [CHR 0x0A])
        | None \<Rightarrow> map_sum id ((#) (nm, v1)) (visitFlags setFlag rest))"

definition main :: "(string \<Rightarrow> string \<Rightarrow> string option) \<Rightarrow> (flags \<Rightarrow> string option) \<Rightarrow> flags \<Rightarrow> int \<times> string" where
  "main setFlag execute fs = (case visitFlags setFlag fs of
      Inl msg \<Rightarrow> (1, msg)
    | Inr fs1 \<Rightarrow> (case execute fs1 of Some e \<Rightarrow> (1, Sprintf ''error: %v'' [e] @ [CHR 0x0A]) | None \<Rightarrow> (0, [])))"

section \<open>The provider\<close>

text \<open>
  The package registers a constructor under the provider's name; the configuration is read first. A new provider has an
  empty registry, an empty queue and no service locked.
\<close>

definition newProvider :: "(string \<Rightarrow> string) \<Rightarrow> (cacheConfig \<Rightarrow> string option) \<Rightarrow> (string + CSConfig) option \<Rightarrow> error + CSCloud" where
  "newProvider getenv newCache parsed = (case readConfig getenv parsed of
      Inl err \<Rightarrow> Inl err
    | Inr cfg \<Rightarrow> newCSCloud newCache cfg)"

definition registered :: "(string \<Rightarrow> string) \<Rightarrow> (cacheConfig \<Rightarrow> string option)
    \<Rightarrow> (string \<times> ((string + CSConfig) option \<Rightarrow> error + CSCloud)) list" where
  "registered getenv newCache = [(ProviderName, newProvider getenv newCache)]"

text \<open>Durations are in nanoseconds.\<close>

definition minRetryDelay :: int where
  "minRetryDelay = 15 * 1000000000"

definition maxRetryDelay :: int where
  "maxRetryDelay = 10 * 60 * 1000000000"

text \<open>The limiter is made by its library from the two delays; the queue starts empty.\<close>

definition newServiceNodeQueue :: "(int \<Rightarrow> int \<Rightarrow> 'l) \<Rightarrow> (serviceKey \<times> queueEntry) list \<times> 'l" where
  "newServiceNodeQueue newLimiter = ([], newLimiter minRetryDelay maxRetryDelay)"

definition newState :: "(int \<Rightarrow> int \<Rightarrow> 'w) \<Rightarrow> 'w psys" where
  "newState newLimiter = (case newServiceNodeQueue newLimiter of (q, w) \<Rightarrow>
     \<lparr>world = w, trace = [], registry = newNodeRegistry, queue = q, svcLock = newServiceLock\<rparr>)"

text \<open>The endpoint informer delivers its events to the handlers added to it, the registry's among them.\<close>

type_synonym handlers = "(informerEvent \<Rightarrow> nodeRegistry \<Rightarrow> nodeRegistry) list"

definition SetInformers :: "handlers \<Rightarrow> handlers" where
  "SetInformers hs = hs @ [handleEndpoints]"

definition deliver :: "handlers \<Rightarrow> informerEvent \<Rightarrow> nodeRegistry \<Rightarrow> nodeRegistry" where
  "deliver hs ev = fold (\<lambda>h. h ev) hs"

section \<open>Workers\<close>

text \<open>
  A timer as \<open>time.Timer\<close> has it: whether it runs, and whether its channel holds a value. \<open>Stop\<close> tells whether it stopped a
  running timer and leaves the channel alone; a receive waits for a value (\<open>None\<close>: there is none yet).
\<close>

record timer =
  active :: bool
  chan :: bool

definition NewTimer :: timer where
  "NewTimer = \<lparr>active = True, chan = False\<rparr>"

definition timer_Stop :: "timer \<Rightarrow> bool \<times> timer" where
  "timer_Stop t = (active t, t\<lparr>active := False\<rparr>)"

definition timer_receive :: "timer \<Rightarrow> timer option" where
  "timer_receive t = (if chan t then Some (t\<lparr>chan := False\<rparr>) else None)"

definition timer_Reset :: "timer \<Rightarrow> timer" where
  "timer_Reset t = t\<lparr>active := True\<rparr>"

definition timer_expire :: "timer \<Rightarrow> timer" where
  "timer_expire t = t\<lparr>active := False, chan := True\<rparr>"

lemmas timer_defs = NewTimer_def timer_Stop_def timer_receive_def timer_Reset_def timer_expire_def

datatype wpc = AtSelect | AtPop | AtStop | Returned

record worker =
  wpc :: wpc
  exitWhenDone :: bool
  waitTimer :: timer

definition newWorker :: worker where
  "newWorker = \<lparr>wpc = AtSelect, exitWhenDone = False, waitTimer = NewTimer\<rparr>"

datatype wakeup = CtxDone | StopClosed | TimerFired

text \<open>
  The \<open>select\<close> of the loop: what may be received, and what the worker does with it. \<open>None\<close>: this case is not ready.
\<close>

fun selects :: "bool \<Rightarrow> bool option \<Rightarrow> wakeup \<Rightarrow> worker \<Rightarrow> worker option" where
  "selects ctxDone stopCh CtxDone w = (if ctxDone then Some (w\<lparr>wpc := Returned\<rparr>) else None)"
| "selects ctxDone stopCh StopClosed w = (if stopCh = Some True then Some (w\<lparr>wpc := AtPop, exitWhenDone := True\<rparr>) else None)"
| "selects ctxDone stopCh TimerFired w =
    map_option (\<lambda>t. w\<lparr>wpc := AtPop, waitTimer := timer_Reset t\<rparr>) (timer_receive (waitTimer w))"

text \<open>After a look at the queue: the next turn, the end of the goroutine, or a second of waiting.\<close>

definition looked :: "bool \<Rightarrow> worker \<Rightarrow> worker" where
  "looked ok w = (if ok then w\<lparr>wpc := AtSelect\<rparr> else if exitWhenDone w then w\<lparr>wpc := Returned\<rparr> else w\<lparr>wpc := AtStop\<rparr>)"

text \<open>The timer is stopped, drained when it had expired, and set again; \<open>None\<close>: the receive waits.\<close>

definition rearm :: "worker \<Rightarrow> worker option" where
  "rearm w = (case timer_Stop (waitTimer w) of
      (True, t) \<Rightarrow> Some (w\<lparr>wpc := AtSelect, waitTimer := timer_Reset t\<rparr>)
    | (False, t) \<Rightarrow> map_option (\<lambda>t. w\<lparr>wpc := AtSelect, waitTimer := timer_Reset t\<rparr>) (timer_receive t))"

section \<open>The queue and its workers\<close>

record 's lifecycle =
  provider :: 's
  ctxDone :: bool
  stopCh :: "bool option"
  doneWG :: nat
  workers :: "worker list"

definition start_workers :: "CSCloud \<Rightarrow> 's lifecycle \<Rightarrow> 's lifecycle" where
  "start_workers cs L = (let n = nat (numWorkers cs) in
     L\<lparr>stopCh := Some False, doneWG := doneWG L + n, workers := workers L @ replicate n newWorker\<rparr>)"

text \<open>\<open>Initialize\<close> makes the context of the process and starts the workers.\<close>

definition Initialize :: "CSCloud \<Rightarrow> 's \<Rightarrow> 's lifecycle" where
  "Initialize cs s = start_workers cs \<lparr>provider = s, ctxDone = False, stopCh = None, doneWG = 0, workers = []\<rparr>"

text \<open>\<open>stopWait\<close> closes the channel, which panics when there is none or it is closed; then it waits for the group.\<close>

definition stopWait_close :: "'s lifecycle \<Rightarrow> 's lifecycle option" where
  "stopWait_close L = (case stopCh L of Some False \<Rightarrow> Some (L\<lparr>stopCh := Some True\<rparr>) | _ \<Rightarrow> None)"

definition stopWait_returns :: "'s lifecycle \<Rightarrow> bool" where
  "stopWait_returns L \<longleftrightarrow> doneWG L = 0"

definition setWorker :: "nat \<Rightarrow> worker \<Rightarrow> 's lifecycle \<Rightarrow> 's lifecycle" where
  "setWorker i w L = L\<lparr>workers := (workers L)[i := w], doneWG := doneWG L - (if wpc w = Returned then 1 else 0)\<rparr>"

inductive life_step :: "'w api \<Rightarrow> CSCloud \<Rightarrow> ('w, 'x) psys_scheme lifecycle \<Rightarrow> ('w, 'x) psys_scheme lifecycle \<Rightarrow> bool"
  for api cs where
  select: "\<lbrakk> i < length (workers L); wpc (workers L ! i) = AtSelect;
      selects (ctxDone L) (stopCh L) wake (workers L ! i) = Some w \<rbrakk> \<Longrightarrow> life_step api cs L (setWorker i w L)"
| look: "\<lbrakk> i < length (workers L); wpc (workers L ! i) = AtPop; workerStep api cs (provider L) = (Ret ok, t) \<rbrakk> \<Longrightarrow>
    life_step api cs L (setWorker i (looked ok (workers L ! i)) (L\<lparr>provider := t\<rparr>))"
| rearms: "\<lbrakk> i < length (workers L); wpc (workers L ! i) = AtStop; rearm (workers L ! i) = Some w \<rbrakk> \<Longrightarrow>
    life_step api cs L (setWorker i w L)"
| expires: "\<lbrakk> i < length (workers L); wpc (workers L ! i) \<noteq> Returned; active (waitTimer (workers L ! i)) \<rbrakk> \<Longrightarrow>
    life_step api cs L (L\<lparr>workers := (workers L)[i := (workers L ! i)\<lparr>waitTimer := timer_expire (waitTimer (workers L ! i))\<rparr>]\<rparr>)"
| handles: "handler_step api cs (provider L) t \<Longrightarrow> life_step api cs L (L\<lparr>provider := t\<rparr>)"
| informed: "life_step api cs L (L\<lparr>provider := registry_update (deliver (SetInformers []) ev) (provider L)\<rparr>)"
| cancels: "life_step api cs L (L\<lparr>ctxDone := True\<rparr>)"
| stops: "stopWait_close L = Some L' \<Longrightarrow> life_step api cs L L'"

definition life_init :: "CSCloud \<Rightarrow> ('w, 'x) psys_scheme lifecycle \<Rightarrow> bool" where
  "life_init cs L \<longleftrightarrow> (\<exists>s. provider_init s \<and> L = Initialize cs s)"

section \<open>The invariant\<close>

text \<open>
  A worker that runs has a timer that runs or a value in its channel, never both and never neither; it leaves the loop
  only for the context or the stop channel.
\<close>

definition worker_ok :: "bool \<Rightarrow> bool option \<Rightarrow> worker \<Rightarrow> bool" where
  "worker_ok ctx st w \<longleftrightarrow> (wpc w \<noteq> Returned \<longrightarrow> active (waitTimer w) \<noteq> chan (waitTimer w))
     \<and> (exitWhenDone w \<longrightarrow> st = Some True) \<and> (wpc w = Returned \<longrightarrow> ctx \<or> exitWhenDone w)
     \<and> (wpc w = AtStop \<longrightarrow> \<not> exitWhenDone w)"

definition running :: "'s lifecycle \<Rightarrow> nat" where
  "running L = length (filter (\<lambda>w. wpc w \<noteq> Returned) (workers L))"

definition life_inv :: "CSCloud \<Rightarrow> ('w, 'x) psys_scheme lifecycle \<Rightarrow> bool" where
  "life_inv cs L \<longleftrightarrow> stopCh L \<noteq> None \<and> doneWG L = running L \<and> length (workers L) = nat (numWorkers cs)
     \<and> (\<forall>w \<in> set (workers L). worker_ok (ctxDone L) (stopCh L) w) \<and> sys_inv (provider L)"

lemma filter_update:
  assumes "i < length ws" "P (ws ! i)"
  shows "length (filter P (ws[i := w])) = length (filter P ws) - (if P w then 0 else 1)"
  using assms
proof (induction ws arbitrary: i)
  case (Cons a ws)
  have "0 < length (filter P ws)" if "i' < length ws" "P (ws ! i')" for i'
    using that nth_mem [of i' ws] by (auto simp: filter_empty_conv)
  with Cons show ?case by (cases i) (auto simp: Suc_diff_Suc gr0_conv_Suc)
qed simp

lemma running_setWorker:
  assumes "i < length (workers L)" "wpc (workers L ! i) \<noteq> Returned" "doneWG L = running L"
  shows "doneWG (setWorker i w L) = running (setWorker i w L)"
  using filter_update [of i "workers L" "\<lambda>w. wpc w \<noteq> Returned" w] assms
  by (simp add: setWorker_def running_def)

lemma life_inv_worker:
  assumes "life_inv cs L" "i < length (workers L)" "wpc (workers L ! i) \<noteq> Returned" "worker_ok (ctxDone L) (stopCh L) w"
  shows "life_inv cs (setWorker i w L)"
  using assms running_setWorker [of i L w]
  by (auto simp: life_inv_def setWorker_def dest!: set_update_subset_insert [THEN subsetD])

lemma selects_ok:
  "worker_ok ctx st w \<Longrightarrow> selects ctx st wake w = Some w' \<Longrightarrow> wpc w = AtSelect \<Longrightarrow> worker_ok ctx st w'"
  by (cases wake) (auto simp: worker_ok_def timer_defs split: if_splits)

lemma looked_ok: "worker_ok ctx st w \<Longrightarrow> wpc w = AtPop \<Longrightarrow> worker_ok ctx st (looked ok w)"
  by (auto simp: worker_ok_def looked_def)

lemma rearm_ok:
  assumes "worker_ok ctx st w" "wpc w = AtStop"
  obtains w' where "rearm w = Some w'" "worker_ok ctx st w'" "wpc w' = AtSelect"
  using assms that by (auto simp: worker_ok_def rearm_def timer_defs split: bool.splits)

lemma life_inv_ok: "life_inv cs L \<Longrightarrow> i < length (workers L) \<Longrightarrow> worker_ok (ctxDone L) (stopCh L) (workers L ! i)"
  by (simp add: life_inv_def)

lemma life_inv_provider: "life_inv cs L \<Longrightarrow> sys_inv t \<Longrightarrow> life_inv cs (L\<lparr>provider := t\<rparr>)"
  by (simp add: life_inv_def running_def)

lemma life_inv_step:
  assumes "life_step api cs L L'" "life_inv cs L"
  shows "life_inv cs L'"
  using assms
proof (induction rule: life_step.induct)
  case (select i L wake w)
  then show ?case using selects_ok [OF life_inv_ok] by (intro life_inv_worker) auto
next
  case (look i L ok t)
  have "provider_step api cs (provider L) t" using look(3) by (rule provider_step.worked) simp
  then have "sys_inv t" using provider.inv_step look(4) by (auto simp: life_inv_def)
  then have inv: "life_inv cs (L\<lparr>provider := t\<rparr>)" using look(4) life_inv_provider by blast
  then show ?case using look(1,2) looked_ok [OF life_inv_ok [OF inv, of i]] by (intro life_inv_worker) auto
next
  case (rearms i L w)
  then show ?case using rearm_ok [OF life_inv_ok [OF rearms(4,1)]] by (intro life_inv_worker) auto
next
  case (expires i L)
  have "worker_ok (ctxDone L) (stopCh L) ((workers L ! i)\<lparr>waitTimer := timer_expire (waitTimer (workers L ! i))\<rparr>)"
    using life_inv_ok [OF expires(4,1)] by (auto simp: worker_ok_def timer_defs)
  from life_inv_worker [OF expires(4,1,2) this] expires(2) show ?case by (simp add: setWorker_def)
next
  case (handles L t)
  then show ?case using provider.inv_step [OF handler_provider] by (auto simp: life_inv_def running_def)
next
  case (informed L ev)
  have "provider_step api cs (provider L) (registry_update (handleEndpoints ev) (provider L))" by (rule provider_step.endpoint_event)
  moreover have "deliver (SetInformers []) ev = handleEndpoints ev" by (simp add: deliver_def SetInformers_def)
  ultimately show ?case using provider.inv_step informed by (auto simp: life_inv_def running_def)
next
  case (cancels L)
  then show ?case by (auto simp: life_inv_def running_def worker_ok_def)
next
  case (stops L L')
  then show ?case by (auto simp: life_inv_def running_def worker_ok_def stopWait_close_def split: option.splits bool.splits)
qed

lemma life_inv_init: "life_init cs L \<Longrightarrow> life_inv cs L"
  using provider.inv_init
  by (auto simp: life_init_def Initialize_def start_workers_def life_inv_def running_def worker_ok_def newWorker_def timer_defs Let_def)

interpretation lifecycle: invariant_system "life_init cs" "life_step api cs" "life_inv cs"
  by unfold_locales (auto intro: life_inv_init life_inv_step)

section \<open>Stopping\<close>

lemma workerStep_empty: "queue s = [] \<Longrightarrow> workerStep api cs s = (Ret False, s)"
  by (simp add: workerStep_def pop_def extendEntries_def bind_def gets_def ret_def Let_def)

lemma workerStep_False:
  assumes wf: "queue_wf (queue s)" and now: "time_Now api (world s) = (now, w)" and run: "workerStep api cs s = (Ret False, t)"
    and pending: "map_of (queue s) k = Some e"
  shows "backoffUntil e > now"
proof -
  obtain r s1 where pop: "pop api s = (r, s1)" by fastforce
  from wf now pop show ?thesis
  proof (cases rule: pop_cases)
    case (some k e)
    then show ?thesis using run pop by (auto simp: workerStep_def go_simps elim!: bind_RetE dest: finishEntry_True)
  qed (use pending in blast)
qed

text \<open>A stopped queue with nothing pending: each worker that still runs gets out of its loop.\<close>

definition stopped :: "CSCloud \<Rightarrow> ('w, 'x) psys_scheme lifecycle \<Rightarrow> bool" where
  "stopped cs L \<longleftrightarrow> life_inv cs L \<and> stopCh L = Some True \<and> queue (provider L) = []"

lemma setWorker_nth [simp]: "i < length (workers L) \<Longrightarrow> workers (setWorker i w L) ! i = w"
  "length (workers (setWorker i w L)) = length (workers L)"
  by (simp_all add: setWorker_def)

text \<open>
  The steps of the workers and their timers, when nothing cancels the context, no handler runs and no event arrives. The
  label tells whether a \<open>select\<close> took the timer: with the stop channel closed, Go chooses among the cases that are ready.
\<close>

inductive worker_step ::
  "'w api \<Rightarrow> CSCloud \<Rightarrow> bool \<Rightarrow> ('w, 'x) psys_scheme lifecycle \<Rightarrow> ('w, 'x) psys_scheme lifecycle \<Rightarrow> bool"
  for api cs where
  worker_select: "\<lbrakk> i < length (workers L); wpc (workers L ! i) = AtSelect;
      selects (ctxDone L) (stopCh L) wake (workers L ! i) = Some w \<rbrakk> \<Longrightarrow> worker_step api cs (wake = TimerFired) L (setWorker i w L)"
| worker_look: "\<lbrakk> i < length (workers L); wpc (workers L ! i) = AtPop; workerStep api cs (provider L) = (Ret ok, t) \<rbrakk> \<Longrightarrow>
    worker_step api cs False L (setWorker i (looked ok (workers L ! i)) (L\<lparr>provider := t\<rparr>))"
| worker_rearms: "\<lbrakk> i < length (workers L); wpc (workers L ! i) = AtStop; rearm (workers L ! i) = Some w \<rbrakk> \<Longrightarrow>
    worker_step api cs False L (setWorker i w L)"
| worker_expires: "\<lbrakk> i < length (workers L); wpc (workers L ! i) \<noteq> Returned; active (waitTimer (workers L ! i)) \<rbrakk> \<Longrightarrow>
    worker_step api cs False L (L\<lparr>workers := (workers L)[i := (workers L ! i)\<lparr>waitTimer := timer_expire (waitTimer (workers L ! i))\<rparr>]\<rparr>)"

lemma worker_step_life: "worker_step api cs timer L L' \<Longrightarrow> life_step api cs L L'"
  by (induction rule: worker_step.induct) (blast intro: life_step.intros)+

text \<open>A run of \<open>n\<close> such steps, in \<open>k\<close> of which a worker took the timer.\<close>

inductive worker_run ::
  "'w api \<Rightarrow> CSCloud \<Rightarrow> nat \<Rightarrow> nat \<Rightarrow> ('w, 'x) psys_scheme lifecycle \<Rightarrow> ('w, 'x) psys_scheme lifecycle \<Rightarrow> bool"
  for api cs where
  run_none: "worker_run api cs 0 0 L L"
| run_step: "worker_step api cs timer L L' \<Longrightarrow> worker_run api cs n k L' L'' \<Longrightarrow>
    worker_run api cs (Suc n) (k + (if timer then 1 else 0)) L L''"

text \<open>How much a worker still has to do before it returns.\<close>

definition left_to_do :: "worker \<Rightarrow> nat" where
  "left_to_do w = (let running_timer = (if active (waitTimer w) then 1 else 0) in
     case wpc w of
       Returned \<Rightarrow> 0
     | AtPop \<Rightarrow> (if exitWhenDone w then 2 else 8) + running_timer
     | AtSelect \<Rightarrow> 4 + running_timer
     | AtStop \<Rightarrow> 6 + running_timer)"

definition all_left :: "'s lifecycle \<Rightarrow> nat" where
  "all_left L = (\<Sum>w \<leftarrow> workers L. left_to_do w)"

lemma sum_list_update_nat: "i < length xs \<Longrightarrow> sum_list (map f (xs[i := x])) + f (xs ! i) = sum_list (map f xs) + (f x :: nat)"
  by (induction xs arbitrary: i) (auto split: nat.splits)

lemma all_left_update:
  assumes "i < length (workers L)" "workers L' = (workers L)[i := w]"
  shows "all_left L' + left_to_do (workers L ! i) = all_left L + left_to_do w"
  using sum_list_update_nat [OF assms(1), of left_to_do w] assms(2) by (simp add: all_left_def)

lemma count_running: "(\<Sum>w \<leftarrow> ws. if wpc w \<noteq> Returned then 1 else 0) = length (filter (\<lambda>w. wpc w \<noteq> Returned) ws)"
  by (induction ws) auto

lemma all_left_bound: "all_left L \<le> 9 * running L"
proof -
  have "left_to_do w \<le> 9 * (if wpc w \<noteq> Returned then 1 else 0)" for w by (cases "wpc w") (auto simp: left_to_do_def)
  then have "all_left L \<le> (\<Sum>w \<leftarrow> workers L. 9 * (if wpc w \<noteq> Returned then 1 else 0))"
    unfolding all_left_def by (rule sum_list_mono)
  also have "\<dots> = 9 * running L" by (simp add: running_def sum_list_const_mult count_running)
  finally show ?thesis .
qed

lemma selects_left:
  assumes "worker_ok False st w" "wpc w = AtSelect" "selects False st wake w = Some w'"
  shows "left_to_do w' + 1 \<le> left_to_do w + (if wake = TimerFired then 6 else 0)"
  using assms by (cases wake) (auto simp: left_to_do_def worker_ok_def timer_defs split: if_splits)

lemma rearm_left:
  assumes "wpc w = AtStop" "rearm w = Some w'"
  shows "left_to_do w' + 1 \<le> left_to_do w"
  using assms by (auto simp: left_to_do_def rearm_def timer_defs split: if_splits bool.splits)

text \<open>A step of a stopped queue keeps it stopped and uses up some of what is left to do, unless a worker takes the timer.\<close>

lemma stopped_step:
  assumes step: "worker_step api cs timer L L'" and L: "stopped cs L" "\<not> ctxDone L"
  shows "stopped cs L' \<and> \<not> ctxDone L' \<and> all_left L' + 1 \<le> all_left L + (if timer then 6 else 0)"
proof -
  have inv: "life_inv cs L" using L(1) by (simp add: stopped_def)
  note ok = life_inv_ok [OF inv]
  have inv': "life_inv cs L'" by (rule life_inv_step [OF worker_step_life [OF step] inv])
  from step show ?thesis
  proof (cases rule: worker_step.cases)
    case (worker_select i wake w)
    have "left_to_do w + 1 \<le> left_to_do (workers L ! i) + (if timer then 6 else 0)"
      using selects_left [of "stopCh L" "workers L ! i" wake w] ok [of i] worker_select L(2) by simp
    with all_left_update [of i L L' w] worker_select L inv' show ?thesis by (auto simp: stopped_def setWorker_def)
  next
    case (worker_look i okk t)
    have t: "t = provider L" "\<not> okk" using worker_look workerStep_empty [of "provider L" api cs] L(1) by (auto simp: stopped_def)
    have "left_to_do (looked okk (workers L ! i)) + 1 \<le> left_to_do (workers L ! i)"
      using t worker_look(4) by (auto simp: left_to_do_def looked_def)
    with all_left_update [of i L L' "looked okk (workers L ! i)"] worker_look L inv' t show ?thesis
      by (auto simp: stopped_def setWorker_def)
  next
    case (worker_rearms i w)
    with rearm_left [of "workers L ! i" w] all_left_update [of i L L' w] L inv' show ?thesis
      by (auto simp: stopped_def setWorker_def)
  next
    case (worker_expires i)
    let ?w = "(workers L ! i)\<lparr>waitTimer := timer_expire (waitTimer (workers L ! i))\<rparr>"
    have "left_to_do ?w + 1 \<le> left_to_do (workers L ! i)"
      using worker_expires by (cases "wpc (workers L ! i)") (auto simp: left_to_do_def timer_defs)
    with all_left_update [of i L L' ?w] worker_expires L inv' show ?thesis by (auto simp: stopped_def)
  qed
qed

lemma stopped_run:
  assumes "worker_run api cs n k L L'" "stopped cs L" "\<not> ctxDone L"
  shows "stopped cs L' \<and> n + all_left L' \<le> all_left L + 6 * k"
  using assms
proof (induction rule: worker_run.induct)
  case (run_step timer L L' n k L'')
  have "stopped cs L' \<and> \<not> ctxDone L' \<and> all_left L' + 1 \<le> all_left L + (if timer then 6 else 0)"
    by (rule stopped_step [OF run_step.hyps(1) run_step.prems])
  with run_step.IH show ?case by (auto split: if_splits)
qed simp

text \<open>While a worker has not returned there is a step, and one that does not take a timer.\<close>

lemma stopped_goes_on:
  assumes "stopped cs L" "\<not> stopWait_returns L"
  shows "\<exists>L'. worker_step api cs False L L'"
proof -
  have inv: "life_inv cs L" "stopCh L = Some True" "queue (provider L) = []" using assms(1) by (simp_all add: stopped_def)
  then have "running L \<noteq> 0" using assms(2) by (simp add: life_inv_def stopWait_returns_def)
  then obtain i where i: "i < length (workers L)" "wpc (workers L ! i) \<noteq> Returned"
    by (auto simp: running_def filter_empty_conv in_set_conv_nth)
  show ?thesis
  proof (cases "wpc (workers L ! i)")
    case AtSelect
    with worker_step.worker_select [OF i(1) AtSelect, of StopClosed] inv(2) show ?thesis by auto
  next
    case AtPop
    with worker_step.worker_look [OF i(1) AtPop workerStep_empty [OF inv(3)]] show ?thesis by blast
  next
    case AtStop
    with rearm_ok [OF life_inv_ok [OF inv(1) i(1)]] worker_step.worker_rearms [OF i(1) AtStop] show ?thesis by metis
  qed (use i in simp)
qed

lemma stopped_ends:
  assumes "stopped cs L" "\<not> ctxDone L"
  shows "\<exists>n L'. worker_run api cs n 0 L L' \<and> stopWait_returns L'"
  using assms
proof (induction "all_left L" arbitrary: L rule: less_induct)
  case less
  show ?case
  proof (cases "stopWait_returns L")
    case True
    then show ?thesis by (blast intro: worker_run.run_none)
  next
    case False
    then obtain L1 where step: "worker_step api cs False L L1" using stopped_goes_on less.prems(1) by blast
    from stopped_step [OF step less.prems] have L1: "stopped cs L1" "\<not> ctxDone L1" "all_left L1 < all_left L" by auto
    obtain n L' where "worker_run api cs n 0 L1 L'" "stopWait_returns L'" using less.hyps [OF L1(3,1,2)] by blast
    with worker_run.run_step [OF step, of n 0 L'] show ?thesis by auto
  qed
qed

section \<open>Correctness\<close>

lemma finishEntry_no_Err: "fst (finishEntry api cs item r s) \<noteq> Err e"
  by (auto simp: finishEntry_def Let_def bind_def attempt_def event_io_def local_do_def ret_def
      split: sum.splits prod.splits outcome.splits)

lemma workerStep_no_Err: "fst (workerStep api cs s) \<noteq> Err e"
proof -
  obtain r s1 where pop: "pop api s = (r, s1)" by fastforce
  then have "\<exists>popped. r = Ret popped"
    by (auto simp: pop_def Let_def bind_def gets_def modify_def ret_def local_io_def split: prod.splits if_splits)
  then obtain popped where r: "r = Ret popped" by blast
  show ?thesis
  proof (cases popped)
    case None
    then show ?thesis using pop r by (simp add: workerStep_def bind_def ret_def)
  next
    case (Some item)
    then show ?thesis using pop r finishEntry_no_Err [of api cs item _ _ e]
      by (cases "processQueueEntry api cs item s1"; cases "fst (processQueueEntry api cs item s1)")
        (auto simp: workerStep_def bind_def attempt_def)
  qed
qed

lemma workerStep_Ret:
  assumes "wholeAnswers api" "sys_inv s" "fst (workerStep api cs s) \<noteq> Block"
  obtains ok t where "workerStep api cs s = (Ret ok, t)"
proof (cases "workerStep api cs s")
  case (Pair r t)
  then show ?thesis
    using that assms worker_calm [of api s cs] workerStep_no_Err [of api cs s]
    by (cases r) (auto simp: sys_inv_def data_inv_def)
qed

text \<open>The sample provider after \<open>Initialize\<close>, and after its queue was stopped.\<close>

definition sampleLife :: "unit psys lifecycle" where
  "sampleLife = Initialize sampleCloud freshSys"

lemma sampleLife_fields:
  "length (workers sampleLife) = 5" "workers sampleLife = replicate 5 newWorker" "provider sampleLife = freshSys"
  "stopCh sampleLife = Some False" "\<not> ctxDone sampleLife"
  by (simp_all add: sampleLife_def Initialize_def start_workers_def numWorkers_def defaultUpdateLBWorkers_def sample_defs)

lemma sampleLife_reachable: "reachable (life_init sampleCloud) (life_step sampleAPI sampleCloud) sampleLife"
  by (rule reachable_init) (auto simp: life_init_def sampleLife_def provider_init_def intro!: exI [of _ freshSys] simp: freshSys_def)

lemma sampleStopped_reachable: "reachable (life_init sampleCloud) (life_step sampleAPI sampleCloud) (sampleLife\<lparr>stopCh := Some True\<rparr>)"
  by (rule reachable_step [OF sampleLife_reachable life_step.stops]) (simp add: stopWait_close_def sampleLife_fields)

text \<open>
  C19: in every state of the running process the wait group counts exactly the workers that have not returned, a worker returns
  only after the process is told to end or the queue is stopped, the provider's own state is well formed, and a worker that
  sets its timer again never waits for a value that does not come.
\<close>

theorem workers_invariant:
  assumes "reachable (life_init cs) (life_step api cs) L" "w \<in> set (workers L)"
  shows "doneWG L = length (filter (\<lambda>w. wpc w \<noteq> Returned) (workers L)) \<and> length (workers L) = nat (numWorkers cs)
    \<and> (wpc w = Returned \<longrightarrow> ctxDone L \<or> stopCh L = Some True) \<and> (wpc w = AtStop \<longrightarrow> rearm w \<noteq> None)
    \<and> reg_wf (registry (provider L)) \<and> queue_wf (queue (provider L)) \<and> inUse (svcLock (provider L)) = []"
proof -
  have inv: "life_inv cs L" by (rule lifecycle.inv_reachable [OF assms(1)])
  then have ok: "worker_ok (ctxDone L) (stopCh L) w" using assms(2) by (simp add: life_inv_def)
  then have "wpc w = AtStop \<longrightarrow> rearm w \<noteq> None" by (metis option.distinct(1) rearm_ok)
  moreover have "wpc w = Returned \<longrightarrow> ctxDone L \<or> stopCh L = Some True" using ok by (auto simp: worker_ok_def)
  ultimately show ?thesis using inv by (simp add: life_inv_def running_def sys_inv_def data_inv_def)
qed

theorem workers_invariant_witness:
  "doneWG sampleLife = 5 \<and> inUse (svcLock (provider sampleLife)) = []"
proof -
  have "newWorker \<in> set (workers sampleLife)" by (simp add: sampleLife_fields)
  from workers_invariant [OF sampleLife_reachable this] show ?thesis
    by (simp add: sampleLife_fields newWorker_def)
qed

lemma fires:
  assumes "i < length (workers L)" "wpc (workers L ! i) = AtSelect" "chan (waitTimer (workers L ! i))"
  shows "\<exists>L'. life_step api cs L L' \<and> wpc (workers L' ! i) = AtPop"
proof -
  obtain w where "selects (ctxDone L) (stopCh L) TimerFired (workers L ! i) = Some w" "wpc w = AtPop"
    using assms(3) by (simp add: timer_defs)
  from life_step.select [OF assms(1,2) this(1)] this(2) assms(1) show ?thesis by (intro exI conjI) (auto simp: setWorker_def)
qed

text \<open>
  A worker that runs can always go on to the next place of its loop, unless its look at the queue meets a nil rule or pool
  or is caught in a listing that never ends.
\<close>

lemma worker_goes_on:
  assumes "reachable (life_init cs) (life_step api cs) L" "i < length (workers L)" "wpc (workers L ! i) \<noteq> Returned"
    and "fst (workerStep api cs (provider L)) \<noteq> Block" "wholeAnswers api"
  shows "\<exists>L'. (life_step api cs)\<^sup>*\<^sup>* L L' \<and> wpc (workers L' ! i) \<noteq> wpc (workers L ! i)"
proof -
  have inv: "life_inv cs L" by (rule lifecycle.inv_reachable [OF assms(1)])
  note ok = life_inv_ok [OF inv assms(2)]
  show ?thesis
  proof (cases "wpc (workers L ! i)")
    case AtSelect
    show ?thesis
    proof (cases "chan (waitTimer (workers L ! i))")
      case True
      with fires [of i L api cs] assms(2) AtSelect show ?thesis by (metis r_into_rtranclp wpc.distinct(1))
    next
      case False
      let ?L = "L\<lparr>workers := (workers L)[i := (workers L ! i)\<lparr>waitTimer := timer_expire (waitTimer (workers L ! i))\<rparr>]\<rparr>"
      have "life_step api cs L ?L" using False ok assms(2,3) by (intro life_step.expires) (auto simp: worker_ok_def)
      moreover have "\<exists>L'. life_step api cs ?L L' \<and> wpc (workers L' ! i) = AtPop"
        using assms(2) AtSelect by (intro fires) (auto simp: timer_defs)
      ultimately show ?thesis using AtSelect by (metis r_into_rtranclp rtranclp.rtrancl_into_rtrancl wpc.distinct(1))
    qed
  next
    case AtPop
    obtain okk t where "workerStep api cs (provider L) = (Ret okk, t)"
      using workerStep_Ret [OF assms(5) _ assms(4)] inv by (auto simp: life_inv_def)
    from life_step.look [OF assms(2) AtPop this] assms(2) AtPop show ?thesis
      by (intro exI [of _ "setWorker i (looked okk (workers L ! i)) (L\<lparr>provider := t\<rparr>)"]) (auto simp: looked_def)
  next
    case AtStop
    then obtain w where w: "rearm (workers L ! i) = Some w" "wpc w = AtSelect" using rearm_ok [OF ok] by metis
    from life_step.rearms [OF assms(2) AtStop w(1)] assms(2) AtStop w(2) show ?thesis
      by (intro exI [of _ "setWorker i w L"]) auto
  qed (use assms in simp)
qed

text \<open>
  C20: stopping the queue ends. Take any state of the process in which the queue was stopped, nothing is pending and the
  process was not told to end. However the workers go on from there, wherever each of them is in its loop, every run of
  \<open>n\<close> of their steps in which they took their timers \<open>k\<close> times has at most nine steps for each worker that runs and six
  for each time a timer was taken, and it can only come to a halt with all workers returned, when \<open>stopWait\<close> returns. There is
  a run that gets there and takes no timer.
\<close>

theorem stopWait_ends:
  assumes "reachable (life_init cs) (life_step api cs) L" "stopCh L = Some True" "queue (provider L) = []" "\<not> ctxDone L"
  shows "(\<forall>n k L'. worker_run api cs n k L L' \<longrightarrow> n \<le> 9 * doneWG L + 6 * k
      \<and> ((\<nexists>timer L''. worker_step api cs timer L' L'') \<longrightarrow> stopWait_returns L'))
    \<and> (\<exists>n L'. worker_run api cs n 0 L L' \<and> stopWait_returns L')"
proof -
  have L: "stopped cs L" and wg: "doneWG L = running L"
    using lifecycle.inv_reachable [OF assms(1)] assms(2,3) by (simp_all add: stopped_def life_inv_def)
  have "n \<le> 9 * doneWG L + 6 * k \<and> ((\<nexists>timer L''. worker_step api cs timer L' L'') \<longrightarrow> stopWait_returns L')"
    if run: "worker_run api cs n k L L'" for n k L'
    using stopped_run [OF run L assms(4)] all_left_bound [of L] stopped_goes_on [of cs L' api] wg by force
  with stopped_ends [OF L assms(4)] show ?thesis by blast
qed

theorem stopWait_ends_witness:
  "\<exists>n L'. worker_run sampleAPI sampleCloud n 0 (sampleLife\<lparr>stopCh := Some True\<rparr>) L' \<and> stopWait_returns L' \<and> n \<le> 45"
proof -
  let ?L = "sampleLife\<lparr>stopCh := Some True\<rparr>"
  have wg: "doneWG ?L = 5"
    by (simp add: sampleLife_def Initialize_def start_workers_def numWorkers_def defaultUpdateLBWorkers_def sample_defs)
  have "queue (provider ?L) = []" "\<not> ctxDone ?L" by (simp_all add: sampleLife_fields freshSys_def)
  note ends = stopWait_ends [OF sampleStopped_reachable _ this]
  then obtain n L' where "worker_run sampleAPI sampleCloud n 0 ?L L'" "stopWait_returns L'" by auto
  with ends wg show ?thesis by fastforce
qed

text \<open>
  C21: stopping loses no ready work. When a worker returns although the process is not told to end, the queue was stopped and
  everything still pending backs off.
\<close>

theorem stop_drains:
  assumes "reachable (life_init cs) (life_step api cs) L" "life_step api cs L L'" "\<not> ctxDone L"
    and "i < length (workers L)" "wpc (workers L ! i) \<noteq> Returned" "wpc (workers L' ! i) = Returned"
    and "time_Now api (world (provider L)) = (now, w)"
  shows "stopCh L = Some True \<and> (\<forall>k e. map_of (queue (provider L)) k = Some e \<longrightarrow> backoffUntil e > now)"
proof -
  have inv: "life_inv cs L" by (rule lifecycle.inv_reachable [OF assms(1)])
  have wf: "queue_wf (queue (provider L))" using inv by (simp add: life_inv_def sys_inv_def data_inv_def)
  from assms(2) show ?thesis
  proof (cases rule: life_step.cases)
    case (select j wake v)
    then show ?thesis using assms(3-6) by (cases wake; cases "j = i") (auto simp: setWorker_def split: if_splits)
  next
    case (look j ok t)
    then have "j = i" "\<not> ok" "exitWhenDone (workers L ! i)"
      using assms(4-6) by (auto simp: setWorker_def looked_def nth_list_update split: if_splits)
    then show ?thesis
      using look workerStep_False [OF wf assms(7)] life_inv_ok [OF inv assms(4)] by (auto simp: worker_ok_def)
  next
    case (rearms j v)
    then show ?thesis using assms(4-6) by (cases "j = i") (auto simp: setWorker_def rearm_def split: prod.splits bool.splits)
  next
    case (expires j)
    then show ?thesis using assms(4-6) by (cases "j = i") auto
  qed (use assms(4-6) in \<open>auto simp: stopWait_close_def split: option.splits bool.splits\<close>)
qed

theorem stop_drains_witness:
  "\<exists>(L :: unit psys lifecycle) L' now. life_step sampleAPI sampleCloud L L' \<and> wpc (workers L' ! 0) = Returned \<and> stopCh L = Some True
     \<and> (\<forall>k e. map_of (queue (provider L)) k = Some e \<longrightarrow> backoffUntil e > now)"
proof -
  let ?L = "sampleLife\<lparr>stopCh := Some True\<rparr>" let ?w = "newWorker\<lparr>wpc := AtPop, exitWhenDone := True\<rparr>"
  let ?L1 = "setWorker 0 ?w ?L" let ?L2 = "setWorker 0 (looked False ?w) (?L1\<lparr>provider := freshSys\<rparr>)"
  have w: "workers ?L ! 0 = newWorker" "0 < length (workers ?L)" by (simp_all add: sampleLife_fields)
  have "life_step sampleAPI sampleCloud ?L ?L1"
    by (rule life_step.select [where wake = StopClosed]) (simp_all add: sampleLife_fields newWorker_def)
  then have r: "reachable (life_init sampleCloud) (life_step sampleAPI sampleCloud) ?L1"
    by (rule reachable_step [OF sampleStopped_reachable])
  have "life_step sampleAPI sampleCloud ?L1 (setWorker 0 (looked False (workers ?L1 ! 0)) (?L1\<lparr>provider := freshSys\<rparr>))"
    by (rule life_step.look) (simp_all add: sampleLife_fields setWorker_def workerStep_empty)
  then have step: "life_step sampleAPI sampleCloud ?L1 ?L2" using w by simp
  have ret: "wpc (workers ?L2 ! 0) = Returned" using w by (simp add: looked_def setWorker_def)
  obtain now u where now: "time_Now sampleAPI (world (provider ?L1)) = (now, u)" by (rule prod.exhaust)
  have "\<not> ctxDone ?L1" "wpc (workers ?L1 ! 0) \<noteq> Returned" using w by (simp_all add: setWorker_def sampleLife_fields)
  from stop_drains [OF r step this(1) _ this(2) ret now] w have
    "stopCh ?L1 = Some True \<and> (\<forall>k e. map_of (queue (provider ?L1)) k = Some e \<longrightarrow> backoffUntil e > now)" by simp
  with step ret show ?thesis by blast
qed

section \<open>Starting\<close>

text \<open>The credentials of an environment, from its section or from the process environment.\<close>

definition credentials :: "(string \<Rightarrow> string) \<Rightarrow> string \<Rightarrow> environmentConfig \<Rightarrow> string list" where
  "credentials getenv k v = (let v1 = fillFromEnv getenv k v in [APIURL v1, APIKey v1, SecretKey v1])"

lemma newEnvironments_total:
  assumes "initCache newCache = None"
  shows "(\<exists>envs'. newEnvironments newCache kvs envs = Inr envs')
    \<longleftrightarrow> (\<forall>(k, v) \<in> set kvs. APIURL v \<noteq> [] \<and> APIKey v \<noteq> [] \<and> SecretKey v \<noteq> [])"
  using assms by (induction newCache kvs envs rule: newEnvironments.induct) (auto simp: newCloudstackManager_def)

text \<open>
  C40: what a provider needs to start. With a cache library that refuses only empty caches, the constructor that the package
  registers succeeds exactly when every environment has its three credentials, in the configuration or in the process
  environment, and then the client of each environment carries them.
\<close>

theorem newProvider_starts:
  assumes "\<And>c. NumCounters c \<noteq> 0 \<Longrightarrow> MaxCost c \<noteq> 0 \<Longrightarrow> BufferItems c \<noteq> 0 \<Longrightarrow> newCache c = None"
    and "distinct (map fst (Environment cfg))"
  shows "((\<exists>cs. newProvider getenv newCache (Some (Inr cfg)) = Inr cs)
      \<longleftrightarrow> (\<forall>(k, v) \<in> set (Environment cfg). [] \<notin> set (credentials getenv k v)))
    \<and> (newProvider getenv newCache (Some (Inr cfg)) = Inr cs \<longrightarrow> map_of (Environment cfg) k = Some v \<longrightarrow>
       (\<exists>c. clientForEnvironment cs k = Inr c \<and> [cl_APIURL c, cl_APIKey c, cl_SecretKey c] = credentials getenv k v
         \<and> cl_Verify c = (\<not> SSLNoVerify v)))"
proof -
  let ?cfg = "cfg\<lparr>Environment := map (\<lambda>(k, v). (k, fillFromEnv getenv k v)) (Environment cfg)\<rparr>"
  have cache: "initCache newCache = None" by (simp add: initCache_def assms(1))
  have new: "newProvider getenv newCache (Some (Inr cfg)) = newCSCloud newCache ?cfg"
    by (simp add: newProvider_def readConfig_def)
  have "(\<exists>cs. newCSCloud newCache ?cfg = Inr cs) \<longleftrightarrow> (\<exists>envs. newEnvironments newCache (Environment ?cfg) [] = Inr envs)"
    by (auto simp: newCSCloud_def split: sum.splits)
  also have "\<dots> \<longleftrightarrow> (\<forall>(k, v) \<in> set (Environment cfg). [] \<notin> set (credentials getenv k v))"
    unfolding newEnvironments_total [OF cache] by (auto simp: credentials_def Let_def)
  moreover have "\<exists>c. clientForEnvironment cs k = Inr c \<and> [cl_APIURL c, cl_APIKey c, cl_SecretKey c] = credentials getenv k v
      \<and> cl_Verify c = (\<not> SSLNoVerify v)"
    if cs: "newCSCloud newCache ?cfg = Inr cs" and k: "map_of (Environment cfg) k = Some v"
  proof -
    have "distinct (map fst (Environment ?cfg))" using assms(2) by (simp add: comp_def split_def)
    moreover have "map_of (Environment ?cfg) k = Some (fillFromEnv getenv k v)" using k by simp
    moreover have "SSLNoVerify (fillFromEnv getenv k v) = SSLNoVerify v" by (simp add: fillFromEnv_def Let_def)
    ultimately show ?thesis using newCSCloud_clients [OF cs, of k "fillFromEnv getenv k v"] by (simp add: credentials_def Let_def)
  qed
  ultimately show ?thesis unfolding new by blast
qed

theorem newProvider_starts_witness:
  "\<exists>cs. newProvider (\<lambda>_. ''env'') (\<lambda>_. None) (Some (Inr (sampleConfig\<lparr>Environment := [(''env1'', sampleEnv\<lparr>APIKey := []\<rparr>)]\<rparr>))) = Inr cs"
  using newProvider_starts [of "\<lambda>_. None" "sampleConfig\<lparr>Environment := [(''env1'', sampleEnv\<lparr>APIKey := []\<rparr>)]\<rparr>" "\<lambda>_. ''env''"]
  by (simp add: credentials_def fillFromEnv_def sample_defs)

text \<open>
  The command runs the controller manager with this provider. Every flag of the provider's name is set to the name
  under which the package registered its constructor, all others are as given, and when the flag refuses the value the
  process ends with status 1 before anything is run.
\<close>

lemma main_provider:
  "main setFlag execute fs =
     (if ''cloud-provider'' \<in> fst ` set fs \<and> setFlag ''cloud-provider'' ProviderName \<noteq> None
      then (1, Sprintf ''failed to set flag %q: %s'' [''cloud-provider'', the (setFlag ''cloud-provider'' ProviderName)] @ [CHR 0x0A])
      else (case execute (map (\<lambda>(n, v). (n, if n = ''cloud-provider'' then ProviderName else v)) fs) of
          Some e \<Rightarrow> (1, Sprintf ''error: %v'' [e] @ [CHR 0x0A]) | None \<Rightarrow> (0, [])))
   \<and> map_of (registered getenv newCache) ProviderName = Some (newProvider getenv newCache)"
proof -
  have "visitFlags setFlag fs = (if ''cloud-provider'' \<in> fst ` set fs \<and> setFlag ''cloud-provider'' ProviderName \<noteq> None
      then Inl (Sprintf ''failed to set flag %q: %s'' [''cloud-provider'', the (setFlag ''cloud-provider'' ProviderName)] @ [CHR 0x0A])
      else Inr (map (\<lambda>(n, v). (n, if n = ''cloud-provider'' then ProviderName else v)) fs))"
    by (induction setFlag fs rule: visitFlags.induct) (auto simp: ProviderName_def split: option.splits)
  then show ?thesis by (simp add: main_def registered_def split: option.splits)
qed

end
