(* ===== verification/Footprint.thy ===== *)
theory Footprint
  imports System
begin

text \<open>
  What a computation does not see. \<open>blind g m\<close>: changing a part of the state by \<open>g\<close> before \<open>m\<close> runs gives the same
  result as changing it afterwards, so \<open>m\<close> neither reads nor writes that part. The computations that only talk to the outside
  world are blind to every change of the provider's own memory, which is what lets them run without its mutexes.
\<close>

section \<open>The calculus\<close>

definition blind :: "('s \<Rightarrow> 's) \<Rightarrow> ('s, 'a) go \<Rightarrow> bool" where
  "blind g m \<longleftrightarrow> (\<forall>s. m (g s) = apsnd g (m s))"

named_theorems blind_intros \<open>rules for computations that neither see nor touch a part of the state\<close>

lemma blindD: "blind g m \<Longrightarrow> m (g s) = (fst (m s), g (snd (m s)))"
  by (simp add: blind_def apsnd_def map_prod_def split_def)

lemma blind_pure [blind_intros]: "blind g (ret a)" "blind g (throw e)" "blind g (panic p)" "blind g (lift_sum x)"
  by (auto simp: blind_def ret_def throw_def panic_def lift_sum_def split: sum.splits)

lemma blind_gets: "(\<And>s. f (g s) = f s) \<Longrightarrow> blind g (gets f)"
  by (auto simp: blind_def gets_def)

lemma blind_modify: "(\<And>s. f (g s) = g (f s)) \<Longrightarrow> blind g (modify f)"
  by (auto simp: blind_def modify_def)

lemma blind_bind [blind_intros]: "blind g m \<Longrightarrow> (\<And>a. blind g (f a)) \<Longrightarrow> blind g (bind m f)"
  by (auto simp: blind_def bind_def split: prod.splits outcome.splits)

lemma blind_attempt [blind_intros]: "blind g m \<Longrightarrow> blind g (attempt m)"
  by (auto simp: blind_def attempt_def split: prod.splits outcome.splits)

lemma blind_wrap_err [blind_intros]: "blind g m \<Longrightarrow> blind g (wrap_err h m)"
  by (auto simp: blind_def wrap_err_def split: prod.splits outcome.splits)

lemma blind_foreach [blind_intros]: "(\<And>x. blind g (f x)) \<Longrightarrow> blind g (foreach xs f)"
  by (induction xs) (auto intro: blind_intros)

lemma blind_foldm [blind_intros]: "(\<And>x a. blind g (f x a)) \<Longrightarrow> blind g (foldm xs f a)"
  by (induction xs arbitrary: a) (auto intro: blind_intros)

lemma blind_withRule [blind_intros]: "(\<And>rule. blind g (f rule)) \<Longrightarrow> blind g (withRule lb f)"
  by (auto simp: withRule_def intro: blind_intros split: option.splits)

text \<open>A loop over pages runs the same way, and ends or goes on, whatever the part is that its fetches do not see.\<close>

lemma page_loop_blind_to:
  "page_loop fetch p xs s = Some rt \<Longrightarrow> (\<forall>p. blind g (fetch p)) \<longrightarrow> page_loop fetch p xs (g s) = Some (apsnd g rt)"
proof (rule page_loop.raw_induct [where P = "\<lambda>fetch p xs s rt. (\<forall>p. blind g (fetch p)) \<longrightarrow>
    page_loop fetch p xs (g s) = Some (apsnd g rt)"], rule impI)
  fix pl fetch page result s rt
  assume IH: "\<And>fetch p xs s rt. pl fetch p xs s = Some rt \<Longrightarrow>
      (\<forall>p. blind g (fetch p)) \<longrightarrow> page_loop fetch p xs (g s) = Some (apsnd g rt)"
    and eq: "(case fetch page s of
      (Ret (totalCount, els), t) \<Rightarrow>
        if length els = 0 \<or> int (length (result @ els)) \<ge> totalCount then Some (Ret (result @ els), t)
        else pl fetch (page + 1) (result @ els) t
    | (Err e, t) \<Rightarrow> Some (Err e, t) | (Panic p, t) \<Rightarrow> Some (Panic p, t) | (Block, t) \<Rightarrow> Some (Block, t)) = Some rt"
    and f: "\<forall>p. blind g (fetch p)"
  obtain r t where ft: "fetch page s = (r, t)" by fastforce
  have fg: "fetch page (g s) = (r, g t)" using f ft by (simp add: blind_def)
  have "page_loop fetch p' xs' (g t) = Some (apsnd g rt)" if "pl fetch p' xs' t = Some rt" for p' xs'
    using IH [OF that] f by blast
  then show "page_loop fetch page result (g s) = Some (apsnd g rt)"
    using eq ft fg by (subst page_loop.simps) (auto split: outcome.splits if_splits)
qed assumption

lemma page_loop_blind_from:
  "page_loop fetch p xs s' = Some rt \<Longrightarrow> (\<forall>s. s' = g s \<and> (\<forall>p. blind g (fetch p)) \<longrightarrow> page_loop fetch p xs s \<noteq> None)"
proof (rule page_loop.raw_induct [where P = "\<lambda>fetch p xs s' rt. \<forall>s. s' = g s \<and> (\<forall>p. blind g (fetch p)) \<longrightarrow>
    page_loop fetch p xs s \<noteq> None"], intro allI impI, elim conjE)
  fix pl fetch page result s' rt s
  assume IH: "\<And>fetch p xs s' rt. pl fetch p xs s' = Some rt \<Longrightarrow>
      \<forall>s. s' = g s \<and> (\<forall>p. blind g (fetch p)) \<longrightarrow> page_loop fetch p xs s \<noteq> None"
    and eq: "(case fetch page s' of
      (Ret (totalCount, els), t) \<Rightarrow>
        if length els = 0 \<or> int (length (result @ els)) \<ge> totalCount then Some (Ret (result @ els), t)
        else pl fetch (page + 1) (result @ els) t
    | (Err e, t) \<Rightarrow> Some (Err e, t) | (Panic p, t) \<Rightarrow> Some (Panic p, t) | (Block, t) \<Rightarrow> Some (Block, t)) = Some rt"
    and s': "s' = g s" and f: "\<forall>p. blind g (fetch p)"
  obtain r t where ft: "fetch page s = (r, t)" by fastforce
  have fg: "fetch page s' = (r, g t)" using f ft s' by (simp add: blind_def)
  have "page_loop fetch p' xs' t \<noteq> None" if "pl fetch p' xs' (g t) = Some rt" for p' xs'
    using IH [OF that] f by blast
  then show "page_loop fetch page result s \<noteq> None"
    using eq ft fg by (subst page_loop.simps) (auto split: outcome.splits if_splits)
qed assumption

lemma page_loop_blind:
  assumes "\<And>p. blind g (fetch p)"
  shows "page_loop fetch p xs (g s) = map_option (apsnd g) (page_loop fetch p xs s)"
proof (cases "page_loop fetch p xs s")
  case None
  then show ?thesis using page_loop_blind_from [of fetch p xs "g s" _ g] assms by (cases "page_loop fetch p xs (g s)") auto
next
  case (Some rt)
  then show ?thesis using page_loop_blind_to [OF Some, of g] assms by simp
qed

lemma blind_listAllPages: "(\<And>p. blind g (fetch p)) \<Longrightarrow> blind g (listAllPagesUnsafe ID fetch)"
  unfolding blind_def listAllPagesUnsafe_def
  by (auto simp: page_loop_blind [unfolded blind_def] split: option.splits outcome.splits)

section \<open>Fields of the provider's own state\<close>

locale inner_update =
  fixes g :: "('w, 'x) sys_scheme \<Rightarrow> ('w, 'x) sys_scheme"
  assumes world_kept: "world (g s) = world s"
    and trace_kept: "trace (g s) = trace s"
    and world_commutes: "g (s\<lparr>world := w\<rparr>) = (g s)\<lparr>world := w\<rparr>"
    and trace_commutes: "g (s\<lparr>trace := cs\<rparr>) = (g s)\<lparr>trace := cs\<rparr>"
begin

lemma blind_world: "blind g (io c f)" "blind g (io_count c f1)" "blind g (local_io f2)" "blind g (local_do f3)" "blind g (event_io c f3)"
  by (auto simp: blind_def io_defs world_kept trace_kept world_commutes trace_commutes split: prod.splits sum.splits)

lemmas intros = blind_intros blind_world

lemma blind_listAll: "blind g (listAllLBInstancesPages api c rid)" "blind g (listAllIPPages api c q)"
  by (auto simp: listAllLBInstancesPages_def listAllIPPages_def fetchInstances_def fetchIPs_def Let_def
      intro!: blind_listAllPages intros)

lemma blind_waitJob: "blind g (waitJob api c j u r)" "blind g (waitJob_nil api c j)"
  by (auto simp: waitJob_def waitJob_nil_def intro!: intros split: prod.splits option.splits)

lemma blind_uniqueRule: "blind g (uniqueRule e w ans)"
  by (cases ans) (simp add: blind_def uniqueRule_run)

lemma blind_getLoadBalancer: "blind g (getLoadBalancer api cs svc p ns)"
  by (auto simp: getLoadBalancer_def find_defs Let_def intro!: intros blind_uniqueRule)

lemma blind_serviceToLBPorts: "blind g (serviceToLBPorts api lb)"
  by (auto simp: serviceToLBPorts_def addPort_def getTargetPort_def Let_def intro!: intros split: list.splits option.splits)

lemma blind_setResourceTags: "blind g (setResourceTags api cs lb ty rid ts)"
  by (auto simp: setResourceTags_def createTag_def Let_def intro!: intros split: sum.splits)

lemma blind_rule_ops:
  "blind g (deleteLoadBalancerRule api cs lb)" "blind g (updateLoadBalancerRule api cs lb)" "blind g (assignTagsToRule api cs lb)"
  "blind g (syncNodes api cs lb hosts ns)" "blind g (updateLoadBalancerPool api cs lb)" "blind g (createLoadBalancerRule api cs lb)"
proof -
  show "blind g (deleteLoadBalancerRule api cs lb)" "blind g (updateLoadBalancerRule api cs lb)"
    by (auto simp: deleteLoadBalancerRule_def updateLoadBalancerRule_def Let_def intro!: intros blind_waitJob)
  show "blind g (assignTagsToRule api cs lb)"
    by (auto simp: assignTagsToRule_def setDefaultTags_def intro!: intros blind_setResourceTags split: option.splits)
  show "blind g (syncNodes api cs lb hosts ns)"
    by (auto simp: syncNodes_def assignNetworksToRule_def assignNetworkToRule_def assignHostsToRule_def
        removeHostsFromRule_def Let_def intro!: intros blind_listAll blind_waitJob split: prod.splits sum.splits)
  show "blind g (updateLoadBalancerPool api cs lb)"
    by (auto simp: updateLoadBalancerPool_def updatePortPool_def Let_def
        intro!: intros blind_waitJob blind_serviceToLBPorts split: prod.splits option.splits)
  show "blind g (createLoadBalancerRule api cs lb)"
    by (auto simp: createLoadBalancerRule_def Let_def intro!: intros blind_waitJob blind_serviceToLBPorts)
qed

lemma blind_ensureRule: "blind g (ensureRule api cs lb)"
  by (auto simp: ensureRule_def checkLoadBalancerRule_def Let_def intro!: intros blind_rule_ops blind_serviceToLBPorts
      split: option.splits prod.splits)

lemma blind_query: "blind g (getPublicIPAddressByIP api cs lb a)" "blind g (getPublicIPAddressByID api cs lb i)"
  "blind g (tryPublicIPAddressByTags api cs lb svc)"
  by (auto simp: getPublicIPAddressByIP_def getPublicIPAddressByID_def tryPublicIPAddressByTags_def firstIP_def Let_def
      intro!: intros blind_listAll split: list.splits)

lemma blind_release: "blind g (releaseLoadBalancerIP api cs lb ip)" "blind g (releaseIPIfManaged api cs lb ip svc)"
  by (auto simp: releaseIPIfManaged_def releaseLoadBalancerIP_def intro!: intros blind_waitJob blind_query)

lemma blind_getLoadBalancerIP: "blind g (getLoadBalancerIP api cs lb svc n)"
proof -
  have "blind g (ingressIP api cs lb svc)"
    by (auto simp: ingressIP_def intro!: intros blind_query split: list.splits sum.splits error.splits)
  moreover have "blind g (associatePublicIPAddress api cs lb svc n)"
    by (auto simp: associatePublicIPAddress_def Let_def intro!: intros blind_waitJob split: sum.splits)
  moreover have "blind g (tagOrRelease api cs lb svc ip)" for ip
    by (auto simp: tagOrRelease_def assignTagsToIP_def setDefaultTags_def
        intro!: intros blind_setResourceTags blind_release split: sum.splits)
  ultimately show ?thesis
    by (auto simp: getLoadBalancerIP_def intro!: intros blind_query split: option.splits)
qed

lemma blind_ensureIP: "blind g (ensureIP api cs lb)"
  by (auto simp: ensureIP_def loadLoadBalancerIP_def updateLoadBalancerIP_def Let_def
      intro!: intros blind_getLoadBalancerIP blind_query blind_rule_ops blind_release)

lemma blind_setProjectLabel: "blind g (setProjectLabel api cs lb)"
  by (auto simp: setProjectLabel_def Let_def intro!: intros split: option.splits)

lemma blind_newNodeInfo: "blind g (newNodeInfo api cs node)"
  by (auto simp: newNodeInfo_def virtualMachineByName_def Let_def intro!: intros split: option.splits prod.splits sum.splits)

end

end
