(* ===== verification/Goroutines.thy ===== *)
theory Goroutines
  imports Footprint
begin

text \<open>
  Goroutines over the provider's memory. A program is a tree of uninterrupted computations with the operations of the
  mutexes between them; a system of goroutines interleaves such programs one step at a time. The lock discipline of the
  provider is a type system for programs, and typed programs keep the common invariant in every interleaving.
\<close>

section \<open>Mutexes\<close>

datatype rw = NodesMu | SvcNodesMu

record rwMutex =
  w_taken :: bool
  readers :: nat

record 'w csys = "'w psys" +
  queueMu :: bool
  rwMu :: "rw \<Rightarrow> rwMutex"

datatype lockOp = QLock | QUnlock | RLock rw | RUnlock rw | WLock rw | WDrain rw | WUnlock rw

datatype 's lockRes = Went 's | Waits | Fatal

definition setRW :: "rw \<Rightarrow> rwMutex \<Rightarrow> ('w, 'x) csys_scheme \<Rightarrow> ('w, 'x) csys_scheme" where
  "setRW n m = rwMu_update (\<lambda>mu. mu(n := m))"

fun mutex_op :: "lockOp \<Rightarrow> ('w, 'x) csys_scheme \<Rightarrow> ('w, 'x) csys_scheme lockRes" where
  "mutex_op QLock s = (if queueMu s then Waits else Went (s\<lparr>queueMu := True\<rparr>))"
| "mutex_op QUnlock s = (if queueMu s then Went (s\<lparr>queueMu := False\<rparr>) else Fatal)"
| "mutex_op (RLock n) s = (if w_taken (rwMu s n) then Waits
     else Went (setRW n ((rwMu s n)\<lparr>readers := readers (rwMu s n) + 1\<rparr>) s))"
| "mutex_op (RUnlock n) s = (if readers (rwMu s n) = 0 then Fatal
     else Went (setRW n ((rwMu s n)\<lparr>readers := readers (rwMu s n) - 1\<rparr>) s))"
| "mutex_op (WLock n) s = (if w_taken (rwMu s n) then Waits
     else Went (setRW n ((rwMu s n)\<lparr>w_taken := True\<rparr>) s))"
| "mutex_op (WDrain n) s = (if readers (rwMu s n) = 0 then Went s else Waits)"
| "mutex_op (WUnlock n) s = (if w_taken (rwMu s n) then Went (setRW n ((rwMu s n)\<lparr>w_taken := False\<rparr>) s) else Fatal)"

section \<open>Programs\<close>

datatype ('s, 'a) prog =
    Fin "'a outcome"
  | Act "'s \<Rightarrow> 's" "'s \<Rightarrow> ('s, 'a) prog"
  | Mu lockOp "('s, 'a) prog"
  | SvcLock serviceKey "('s, 'a) prog"
  | SvcUnlock serviceKey "('s, 'a) prog"
  | Spin

primrec bindP :: "('s, 'a) prog \<Rightarrow> ('a outcome \<Rightarrow> ('s, 'b) prog) \<Rightarrow> ('s, 'b) prog" where
  "bindP (Fin r) k = k r"
| "bindP (Act u c) k = Act u (\<lambda>s. bindP (c s) k)"
| "bindP (Mu op p) k = Mu op (bindP p k)"
| "bindP (SvcLock key p) k = SvcLock key (bindP p k)"
| "bindP (SvcUnlock key p) k = SvcUnlock key (bindP p k)"
| "bindP Spin k = Spin"

definition finish :: "'a outcome \<Rightarrow> ('s, 'a) prog" where
  "finish r = (case r of Block \<Rightarrow> Spin | _ \<Rightarrow> Fin r)"

definition atomP :: "('s, 'a) go \<Rightarrow> ('s, 'a) prog" where
  "atomP m = Act (\<lambda>s. snd (m s)) (\<lambda>s. finish (fst (m s)))"

definition seqP :: "('s, 'a) prog \<Rightarrow> ('a \<Rightarrow> ('s, 'b) prog) \<Rightarrow> ('s, 'b) prog" where
  "seqP p f = bindP p (\<lambda>r. case r of Ret a \<Rightarrow> f a | Err e \<Rightarrow> Fin (Err e) | Panic x \<Rightarrow> Fin (Panic x) | Block \<Rightarrow> Spin)"

definition attemptP :: "('s, 'a) prog \<Rightarrow> ('s, error + 'a) prog" where
  "attemptP p = bindP p (\<lambda>r. case r of Ret a \<Rightarrow> Fin (Ret (Inr a)) | Err e \<Rightarrow> Fin (Ret (Inl e))
     | Panic x \<Rightarrow> Fin (Panic x) | Block \<Rightarrow> Spin)"

definition retP :: "'a \<Rightarrow> ('s, 'a) prog" where
  "retP a = Fin (Ret a)"

definition throwP :: "error \<Rightarrow> ('s, 'a) prog" where
  "throwP e = Fin (Err e)"

text \<open>\<open>mu.Lock(); defer mu.Unlock()\<close>\<close>

definition deferP :: "(('s, 'a) prog \<Rightarrow> ('s, 'a) prog) \<Rightarrow> ('s, 'a) prog \<Rightarrow> ('s, 'a) prog" where
  "deferP unlock p = bindP p (\<lambda>r. case r of Block \<Rightarrow> Spin | _ \<Rightarrow> unlock (Fin r))"

definition withQueueMu :: "('s, 'a) prog \<Rightarrow> ('s, 'a) prog" where
  "withQueueMu p = Mu QLock (deferP (Mu QUnlock) p)"

definition withRLock :: "rw \<Rightarrow> ('s, 'a) prog \<Rightarrow> ('s, 'a) prog" where
  "withRLock n p = Mu (RLock n) (deferP (Mu (RUnlock n)) p)"

definition withWLock :: "rw \<Rightarrow> ('s, 'a) prog \<Rightarrow> ('s, 'a) prog" where
  "withWLock n p = Mu (WLock n) (Mu (WDrain n) (deferP (Mu (WUnlock n)) p))"

definition withSvc :: "serviceKey \<Rightarrow> ('s, 'a) prog \<Rightarrow> ('s, 'a) prog" where
  "withSvc key p = SvcLock key (deferP (SvcUnlock key) p)"

fun foreachP :: "'x list \<Rightarrow> ('x \<Rightarrow> ('s, unit) prog) \<Rightarrow> ('s, unit) prog" where
  "foreachP [] f = retP ()"
| "foreachP (x # xs) f = seqP (f x) (\<lambda>_. foreachP xs f)"

fun mapP :: "'x list \<Rightarrow> ('x \<Rightarrow> ('s, 'y) prog) \<Rightarrow> ('s, 'y list) prog" where
  "mapP [] f = retP []"
| "mapP (x # xs) f = seqP (f x) (\<lambda>y. seqP (mapP xs f) (\<lambda>ys. retP (y # ys)))"

section \<open>A goroutine alone\<close>

definition fatal :: string where
  "fatal = ''fatal error: sync: unlock of unlocked mutex''"

primrec run :: "(('w, 'x) csys_scheme, 'a) prog \<Rightarrow> (('w, 'x) csys_scheme, 'a) go" where
  "run (Fin r) = (\<lambda>s. (r, s))"
| "run (Act u c) = (\<lambda>s. run (c s) (u s))"
| "run (Mu op p) = (\<lambda>s. case mutex_op op s of Went t \<Rightarrow> run p t | Waits \<Rightarrow> (Block, s) | Fatal \<Rightarrow> (Panic fatal, s))"
| "run (SvcLock key p) = (\<lambda>s. case lockService key s of (Ret _, t) \<Rightarrow> run p t | (_, t) \<Rightarrow> (Block, t))"
| "run (SvcUnlock key p) = (\<lambda>s. case Unlock key (svcLock s) of Some l \<Rightarrow> run p (s\<lparr>svcLock := l\<rparr>) | None \<Rightarrow> (Panic fatal, s))"
| "run Spin = (\<lambda>s. (Block, s))"

section \<open>Interleaving\<close>

datatype hold = HQ | HR rw | HA rw | HW rw

fun after :: "lockOp \<Rightarrow> hold list \<Rightarrow> hold list" where
  "after QLock H = HQ # H"
| "after QUnlock H = tl H"
| "after (RLock n) H = HR n # H"
| "after (RUnlock n) H = tl H"
| "after (WLock n) H = HA n # H"
| "after (WDrain n) H = HW n # tl H"
| "after (WUnlock n) H = tl H"

record ('s, 'a) goroutine =
  code :: "('s, 'a) prog"
  gpc :: pc
  held :: "hold list"

record ('s, 'a) gosys =
  shared :: 's
  gos :: "('s, 'a) goroutine list"

inductive go_step :: "nat \<Rightarrow> (('w, 'x) csys_scheme, 'a) gosys \<Rightarrow> (('w, 'x) csys_scheme, 'a) gosys \<Rightarrow> bool" for i where
  act: "\<lbrakk> i < length (gos S); code (gos S ! i) = Act u c \<rbrakk> \<Longrightarrow>
    go_step i S (S\<lparr>shared := u (shared S), gos := (gos S)[i := (gos S ! i)\<lparr>code := c (shared S)\<rparr>]\<rparr>)"
| mutex: "\<lbrakk> i < length (gos S); code (gos S ! i) = Mu op p; mutex_op op (shared S) = Went t \<rbrakk> \<Longrightarrow>
    go_step i S (S\<lparr>shared := t, gos := (gos S)[i := (gos S ! i)\<lparr>code := p, held := after op (held (gos S ! i))\<rparr>]\<rparr>)"
| mutex_fatal: "\<lbrakk> i < length (gos S); code (gos S ! i) = Mu op p; mutex_op op (shared S) = Fatal \<rbrakk> \<Longrightarrow>
    go_step i S (S\<lparr>gos := (gos S)[i := (gos S ! i)\<lparr>code := Fin (Panic fatal)\<rparr>]\<rparr>)"
| enter: "\<lbrakk> i < length (gos S); code (gos S ! i) = SvcLock k p; gpc (gos S ! i) = Idle;
      lock_enter k (svcLock (shared S)) = (m, l) \<rbrakk> \<Longrightarrow>
    go_step i S (S\<lparr>shared := (shared S)\<lparr>svcLock := l\<rparr>, gos := (gos S)[i := (gos S ! i)\<lparr>gpc := Waiting k m\<rparr>]\<rparr>)"
| acquire: "\<lbrakk> i < length (gos S); code (gos S ! i) = SvcLock k p; gpc (gos S ! i) = Waiting k' m;
      lock_acquire m (svcLock (shared S)) = Some l \<rbrakk> \<Longrightarrow>
    go_step i S (S\<lparr>shared := (shared S)\<lparr>svcLock := l\<rparr>, gos := (gos S)[i := (gos S ! i)\<lparr>code := p, gpc := Holding k\<rparr>]\<rparr>)"
| release: "\<lbrakk> i < length (gos S); code (gos S ! i) = SvcUnlock k p; Unlock k (svcLock (shared S)) = Some l \<rbrakk> \<Longrightarrow>
    go_step i S (S\<lparr>shared := (shared S)\<lparr>svcLock := l\<rparr>, gos := (gos S)[i := (gos S ! i)\<lparr>code := p, gpc := Idle\<rparr>]\<rparr>)"
| release_fatal: "\<lbrakk> i < length (gos S); code (gos S ! i) = SvcUnlock k p; Unlock k (svcLock (shared S)) = None \<rbrakk> \<Longrightarrow>
    go_step i S (S\<lparr>gos := (gos S)[i := (gos S ! i)\<lparr>code := Fin (Panic fatal)\<rparr>]\<rparr>)"
| spin: "\<lbrakk> i < length (gos S); code (gos S ! i) = Spin \<rbrakk> \<Longrightarrow> go_step i S S"

section \<open>The lock discipline as a type system\<close>

fun rw_level :: "rw \<Rightarrow> nat" where
  "rw_level NodesMu = 2"
| "rw_level SvcNodesMu = 3"

fun level :: "hold \<Rightarrow> nat" where
  "level HQ = 1"
| "level (HR n) = rw_level n"
| "level (HA n) = rw_level n"
| "level (HW n) = rw_level n"

definition access :: "hold list \<Rightarrow> ('w, 'x) csys_scheme \<Rightarrow> ('w, 'x) csys_scheme \<Rightarrow> bool" where
  "access H s t \<longleftrightarrow> queueMu t = queueMu s \<and> rwMu t = rwMu s \<and> svcLock t = svcLock s
     \<and> (data_inv s \<longrightarrow> data_inv t)
     \<and> (HQ \<in> set H \<or> queue t = queue s)
     \<and> (HW NodesMu \<in> set H \<or> nodes (registry t) = nodes (registry s) \<and> revision (registry t) = revision (registry s))
     \<and> (HW SvcNodesMu \<in> set H \<or> svcNodes (registry t) = svcNodes (registry s))"

definition reading :: "hold list \<Rightarrow> rw \<Rightarrow> bool" where
  "reading H n \<longleftrightarrow> HR n \<in> set H \<or> HW n \<in> set H"

inductive foreign :: "hold list \<Rightarrow> (('w, 'x) csys_scheme \<Rightarrow> ('w, 'x) csys_scheme) \<Rightarrow> bool" for H where
  "foreign H (queueMu_update f)"
| "foreign H (rwMu_update f1)"
| "foreign H (svcLock_update f2)"
| "HQ \<notin> set H \<Longrightarrow> foreign H (queue_update f3)"
| "\<not> reading H NodesMu \<Longrightarrow> foreign H (registry_update (nodes_update f4))"
| "\<not> reading H NodesMu \<Longrightarrow> foreign H (registry_update (revision_update f5))"
| "\<not> reading H SvcNodesMu \<Longrightarrow> foreign H (registry_update (svcNodes_update f6))"

inductive typed :: "('a outcome \<Rightarrow> bool) \<Rightarrow> serviceKey option \<Rightarrow> hold list \<Rightarrow> serviceKey option \<Rightarrow> hold list
    \<Rightarrow> (('w, 'x) csys_scheme, 'a) prog \<Rightarrow> bool" for Q sk0 H0 where
  Fin: "Q r \<Longrightarrow> typed Q sk0 H0 sk0 H0 (Fin r)"
| Spin: "typed Q sk0 H0 sk H Spin"
| Act: "\<lbrakk> \<And>s. access H s (u s); \<And>g s. foreign H g \<Longrightarrow> u (g s) = g (u s) \<and> c (g s) = c s; \<And>s. typed Q sk0 H0 sk H (c s) \<rbrakk>
    \<Longrightarrow> typed Q sk0 H0 sk H (Act u c)"
| QLock: "typed Q sk0 H0 sk [HQ] p \<Longrightarrow> typed Q sk0 H0 sk [] (Mu QLock p)"
| QUnlock: "typed Q sk0 H0 sk H p \<Longrightarrow> typed Q sk0 H0 sk (HQ # H) (Mu QUnlock p)"
| RLock: "typed Q sk0 H0 sk (HR n # H) p \<Longrightarrow> (\<And>h. h \<in> set H \<Longrightarrow> level h < rw_level n) \<Longrightarrow>
    typed Q sk0 H0 sk H (Mu (RLock n) p)"
| RUnlock: "typed Q sk0 H0 sk H p \<Longrightarrow> typed Q sk0 H0 sk (HR n # H) (Mu (RUnlock n) p)"
| WLock: "typed Q sk0 H0 sk (HA n # H) p \<Longrightarrow> (\<And>h. h \<in> set H \<Longrightarrow> level h < rw_level n) \<Longrightarrow>
    typed Q sk0 H0 sk H (Mu (WLock n) p)"
| WDrain: "typed Q sk0 H0 sk (HW n # H) p \<Longrightarrow> typed Q sk0 H0 sk (HA n # H) (Mu (WDrain n) p)"
| WUnlock: "typed Q sk0 H0 sk H p \<Longrightarrow> typed Q sk0 H0 sk (HW n # H) (Mu (WUnlock n) p)"
| SvcLock: "typed Q sk0 H0 (Some k) [] p \<Longrightarrow> typed Q sk0 H0 None [] (SvcLock k p)"
| SvcUnlock: "typed Q sk0 H0 None [] p \<Longrightarrow> typed Q sk0 H0 (Some k) [] (SvcUnlock k p)"

inductive_cases typed_FinE [elim!]: "typed Q sk0 H0 sk H (Fin r)"
inductive_cases typed_ActE [elim!]: "typed Q sk0 H0 sk H (Act u c)"
inductive_simps typed_Mu: "typed Q sk0 H0 sk H (Mu QLock p)" "typed Q sk0 H0 sk H (Mu QUnlock p)"
  "typed Q sk0 H0 sk H (Mu (RLock n) p)" "typed Q sk0 H0 sk H (Mu (RUnlock n) p)"
  "typed Q sk0 H0 sk H (Mu (WLock n) p)" "typed Q sk0 H0 sk H (Mu (WDrain n) p)" "typed Q sk0 H0 sk H (Mu (WUnlock n) p)"
inductive_cases typed_SvcLockE [elim!]: "typed Q sk0 H0 sk H (SvcLock k p)"
inductive_cases typed_SvcUnlockE [elim!]: "typed Q sk0 H0 sk H (SvcUnlock k p)"

lemma typed_bindP:
  assumes "typed P sk1 H1 sk H p" "\<And>r. P r \<Longrightarrow> typed Q sk0 H0 sk1 H1 (k r)"
  shows "typed Q sk0 H0 sk H (bindP p k)"
  using assms by (induction rule: typed.induct) (auto intro: typed.intros)

lemma typed_mono: "typed P sk0 H0 sk H p \<Longrightarrow> (\<And>r. P r \<Longrightarrow> Q r) \<Longrightarrow> typed Q sk0 H0 sk H p"
  by (induction rule: typed.induct) (auto intro: typed.intros)

lemma typed_atomP:
  assumes "\<And>s. access H s (snd (m s))" "\<And>g. foreign H g \<Longrightarrow> blind g m" "\<And>s r t. m s = (r, t) \<Longrightarrow> r \<noteq> Block \<Longrightarrow> Q r"
  shows "typed Q sk H sk H (atomP m)"
  unfolding atomP_def
proof (rule typed.Act)
  fix s
  obtain r t where m: "m s = (r, t)" by fastforce
  show "typed Q sk H sk H (finish (fst (m s)))"
    using assms(3) [OF m] m by (cases r) (auto simp: finish_def intro: typed.intros)
qed (use assms in \<open>auto simp: blindD\<close>)

section \<open>The invariant of all interleavings\<close>

definition cnt :: "hold \<Rightarrow> ('s, 'a) goroutine list \<Rightarrow> nat" where
  "cnt h gs = sum_list (map (\<lambda>g. count_list (held g) h) gs)"

definition mutex_ok :: "('w, 'x) csys_scheme \<Rightarrow> (('w, 'x) csys_scheme, 'a) goroutine list \<Rightarrow> bool" where
  "mutex_ok s gs \<longleftrightarrow> cnt HQ gs = (if queueMu s then 1 else 0)
     \<and> (\<forall>n. cnt (HA n) gs + cnt (HW n) gs = (if w_taken (rwMu s n) then 1 else 0)
          \<and> cnt (HR n) gs = readers (rwMu s n) \<and> (0 < cnt (HW n) gs \<longrightarrow> readers (rwMu s n) = 0))"

abbreviation typed0 :: "serviceKey option \<Rightarrow> hold list \<Rightarrow> (('w, 'x) csys_scheme, 'a) prog \<Rightarrow> bool" where
  "typed0 \<equiv> typed (\<lambda>_. True) None []"

definition good :: "(('w, 'x) csys_scheme, 'a) goroutine \<Rightarrow> bool" where
  "good g \<longleftrightarrow> sorted_wrt (\<lambda>h h'. level h' < level h) (held g)
     \<and> (case gpc g of
          Idle \<Rightarrow> typed0 None (held g) (code g)
        | Waiting k m \<Rightarrow> typed0 None (held g) (code g) \<and> (\<exists>p. code g = SvcLock k p)
        | Holding k \<Rightarrow> typed0 (Some k) (held g) (code g))"

definition go_inv :: "(('w, 'x) csys_scheme, 'a) gosys \<Rightarrow> bool" where
  "go_inv S \<longleftrightarrow> data_inv (shared S) \<and> mutex_ok (shared S) (gos S) \<and> list_all good (gos S)
     \<and> lock_inv \<lparr>lck = svcLock (shared S), pcs = map gpc (gos S)\<rparr>"

lemma cnt_update:
  "i < length gs \<Longrightarrow> cnt h (gs[i := g]) + count_list (held (gs ! i)) h = cnt h gs + count_list (held g) h"
proof (induction gs arbitrary: i)
  case (Cons a gs)
  then show ?case by (cases i) (auto simp: cnt_def)
qed simp

lemma cnt_same: "i < length gs \<Longrightarrow> held g = held (gs ! i) \<Longrightarrow> cnt h (gs[i := g]) = cnt h gs"
  using cnt_update [of i gs h g] by simp

lemma cnt_le: "g \<in> set gs \<Longrightarrow> count_list (held g) h \<le> cnt h gs"
  unfolding cnt_def by (induction gs) auto

lemma cnt_pos: "g \<in> set gs \<Longrightarrow> h \<in> set (held g) \<Longrightarrow> 0 < cnt h gs"
  using cnt_le [of g gs h] by (metis count_list_0_iff gr0I leD)

lemma cnt_holder: "0 < cnt h gs \<Longrightarrow> \<exists>g \<in> set gs. h \<in> set (held g)"
  unfolding cnt_def by (induction gs) (auto simp: count_list_0_iff)

lemma mutex_ok_same: "i < length gs \<Longrightarrow> held g = held (gs ! i) \<Longrightarrow> mutex_ok s (gs[i := g]) = mutex_ok s gs"
  by (simp add: mutex_ok_def cnt_same)

lemma mutex_ok_fields: "queueMu t = queueMu s \<Longrightarrow> rwMu t = rwMu s \<Longrightarrow> mutex_ok t gs = mutex_ok s gs"
  by (simp add: mutex_ok_def)

text \<open>A typed mutex operation is never an unlock of an unlocked mutex, and the counts stay right.\<close>

lemma typed_mutex_op:
  assumes ok: "mutex_ok s gs" and i: "i < length gs" and t: "typed0 sk (held (gs ! i)) (Mu op p)"
    and ord: "sorted_wrt (\<lambda>h h'. level h' < level h) (held (gs ! i))"
  shows "mutex_op op s \<noteq> Fatal"
    and "typed0 sk (after op (held (gs ! i))) p"
    and "sorted_wrt (\<lambda>h h'. level h' < level h) (after op (held (gs ! i)))"
    and "mutex_op op s = Went s' \<Longrightarrow> held g = after op (held (gs ! i)) \<Longrightarrow> mutex_ok s' (gs[i := g])"
proof -
  let ?H = "held (gs ! i)"
  have g: "gs ! i \<in> set gs" using i by simp
  note pos = cnt_pos [OF g]
  have top: "0 < cnt h gs" if "?H = h # H" for h H using pos [of h] that by simp
  have taken: "w_taken (rwMu s n)" if "?H = HW n # H" for n H
    using top [OF that] ok by (auto simp: mutex_ok_def split: if_splits)
  show "typed0 sk (after op ?H) p" "sorted_wrt (\<lambda>h h'. level h' < level h) (after op ?H)"
    using t ord by (cases op; auto simp: typed_Mu)+
  show "mutex_op op s \<noteq> Fatal"
    using t ok top taken by (cases op) (auto simp: typed_Mu mutex_ok_def split: if_splits)
  have upd: "cnt h (gs[i := g]) + count_list ?H h = cnt h gs + count_list (held g) h" for h
    by (rule cnt_update [OF i])
  have okn: "cnt (HA n) gs + cnt (HW n) gs = (if w_taken (rwMu s n) then 1 else 0)" "cnt (HR n) gs = readers (rwMu s n)"
    "0 < cnt (HW n) gs \<longrightarrow> readers (rwMu s n) = 0" for n
    using ok by (auto simp: mutex_ok_def)
  have okq: "cnt HQ gs = (if queueMu s then 1 else 0)" using ok by (simp add: mutex_ok_def)
  show "mutex_ok s' (gs[i := g])" if run: "mutex_op op s = Went s'" and held: "held g = after op ?H"
    unfolding mutex_ok_def
  proof (intro conjI allI)
    show "cnt HQ (gs[i := g]) = (if queueMu s' then 1 else 0)"
      using t run held okq upd [of HQ] by (cases op) (auto simp: typed_Mu setRW_def split: if_splits)
    fix n
    show "cnt (HA n) (gs[i := g]) + cnt (HW n) (gs[i := g]) = (if w_taken (rwMu s' n) then 1 else 0)"
      using t run held okn(1) [of n] upd [of "HA n"] upd [of "HW n"]
      by (cases op) (auto simp: typed_Mu setRW_def split: if_splits)
    show "cnt (HR n) (gs[i := g]) = readers (rwMu s' n)"
      using t run held okn(2) [of n] upd [of "HR n"]
      by (cases op) (auto simp: typed_Mu setRW_def split: if_splits)
    show "0 < cnt (HW n) (gs[i := g]) \<longrightarrow> readers (rwMu s' n) = 0"
      using t run held okn [of n] upd [of "HW n"]
      by (cases op) (auto simp: typed_Mu setRW_def split: if_splits)
  qed
qed

lemma lock_inv_pcs: "i < length gs \<Longrightarrow> gpc g = gpc (gs ! i) \<Longrightarrow> map gpc (gs[i := g]) = map gpc gs"
  by (simp add: map_update list_update_same_conv)

lemma lock_project:
  assumes "lock_inv \<lparr>lck = l, pcs = map gpc gs\<rparr>" "lock_step \<lparr>lck = l, pcs = map gpc gs\<rparr> \<lparr>lck = l', pcs = map gpc (gs[i := g])\<rparr>"
  shows "lock_inv \<lparr>lck = l', pcs = map gpc (gs[i := g])\<rparr>"
  using lock_inv_step [OF assms(2,1)] .

lemma go_inv_good: "go_inv S \<Longrightarrow> i < length (gos S) \<Longrightarrow> good (gos S ! i)"
  by (auto simp: go_inv_def list_all_length)

lemma list_all_update: "list_all P xs \<Longrightarrow> P x \<Longrightarrow> list_all P (xs[i := x])"
  by (auto simp: list_all_iff dest: set_update_subset_insert [THEN subsetD])

text \<open>A goroutine whose program is typed has typed code and can be judged by what it holds.\<close>

definition holding :: "pc \<Rightarrow> serviceKey option" where
  "holding c = (case c of Holding k \<Rightarrow> Some k | _ \<Rightarrow> None)"

lemma holding_simps [simp]: "holding Idle = None" "holding (Waiting k m) = None" "holding (Holding k) = Some k"
  by (simp_all add: holding_def)

lemma goodD:
  assumes "good g"
  shows "typed0 (holding (gpc g)) (held g) (code g)" "sorted_wrt (\<lambda>h h'. level h' < level h) (held g)"
  using assms by (auto simp: good_def split: pc.splits)

lemma good_waiting: "good g \<Longrightarrow> gpc g = Waiting k m \<Longrightarrow> \<exists>p. code g = SvcLock k p"
  by (simp add: good_def)

lemma goodI:
  assumes "typed0 (holding (gpc g)) (held g) (code g)" "sorted_wrt (\<lambda>h h'. level h' < level h) (held g)"
    "\<And>k m. gpc g = Waiting k m \<Longrightarrow> \<exists>p. code g = SvcLock k p"
  shows "good g"
  using assms by (auto simp: good_def split: pc.splits)

text \<open>A goroutine that takes a step of the service lock takes it as the lock's own model does.\<close>

lemma go_inv_lock:
  assumes inv: "go_inv S" and i: "i < length (gos S)" and g: "good g" "held g = held (gos S ! i)"
    and step: "lock_step \<lparr>lck = svcLock (shared S), pcs = map gpc (gos S)\<rparr> \<lparr>lck = l, pcs = (map gpc (gos S))[i := gpc g]\<rparr>"
  shows "go_inv (S\<lparr>shared := (shared S)\<lparr>svcLock := l\<rparr>, gos := (gos S)[i := g]\<rparr>)"
  using inv i g lock_inv_step [OF step]
  by (auto simp: go_inv_def mutex_ok_same list_all_update data_inv_def map_update
      mutex_ok_fields [of "shared S\<lparr>svcLock := l\<rparr>" "shared S"])

lemma unlock_held:
  assumes inv: "go_inv S" and i: "i < length (gos S)" and code: "code (gos S ! i) = SvcUnlock k p"
  shows "gpc (gos S ! i) = Holding k" "Unlock k (svcLock (shared S)) \<noteq> None"
proof -
  show pc: "gpc (gos S ! i) = Holding k"
    using goodD(1) [OF go_inv_good [OF inv i]] code by (auto simp: holding_def split: pc.splits)
  have "view_inv (map_of (inUse (svcLock (shared S)))) (heap (svcLock (shared S))) (map gpc (gos S))"
    using inv by (simp add: go_inv_def lock_inv_def)
  from Unlock_holding [OF this, of i k] i pc show "Unlock k (svcLock (shared S)) \<noteq> None"
    by (metis length_map nth_map option.distinct(1))
qed

lemma mutex_held:
  assumes inv: "go_inv S" and i: "i < length (gos S)" and code: "code (gos S ! i) = Mu op p"
  shows "mutex_op op (shared S) \<noteq> Fatal"
    and "mutex_op op (shared S) = Went t \<Longrightarrow>
      go_inv (S\<lparr>shared := t, gos := (gos S)[i := (gos S ! i)\<lparr>code := p, held := after op (held (gos S ! i))\<rparr>]\<rparr>)"
proof -
  let ?g = "gos S ! i"
  note g = go_inv_good [OF inv i] and D = goodD [OF go_inv_good [OF inv i]]
  have m: "mutex_ok (shared S) (gos S)" using inv by (simp add: go_inv_def)
  have ty: "typed0 (holding (gpc ?g)) (held ?g) (Mu op p)" using D(1) code by simp
  note T = typed_mutex_op [OF m i ty D(2)]
  show "mutex_op op (shared S) \<noteq> Fatal" by (rule T(1))
  assume t: "mutex_op op (shared S) = Went t"
  have same: "data_inv t = data_inv (shared S)" "svcLock t = svcLock (shared S)"
    using t by (cases op; auto simp: data_inv_def setRW_def split: if_splits)+
  have "good (?g\<lparr>code := p, held := after op (held ?g)\<rparr>)"
    using T(2,3) good_waiting [OF g] code by (intro goodI) auto
  with inv i T(4) [OF t] same
  show "go_inv (S\<lparr>shared := t, gos := (gos S)[i := ?g\<lparr>code := p, held := after op (held ?g)\<rparr>]\<rparr>)"
    by (auto simp: go_inv_def lock_inv_pcs list_all_update)
qed

lemma go_inv_act:
  assumes inv: "go_inv S" and i: "i < length (gos S)" and code: "code (gos S ! i) = Act u c"
  shows "go_inv (S\<lparr>shared := u (shared S), gos := (gos S)[i := (gos S ! i)\<lparr>code := c (shared S)\<rparr>]\<rparr>)"
proof -
  let ?g = "gos S ! i"
  note g = go_inv_good [OF inv i] and D = goodD [OF go_inv_good [OF inv i]]
  have a: "access (held ?g) (shared S) (u (shared S))" and c: "typed0 (holding (gpc ?g)) (held ?g) (c (shared S))"
    using D(1) code by auto
  have "good (?g\<lparr>code := c (shared S)\<rparr>)"
    using c D(2) good_waiting [OF g] code by (intro goodI) auto
  with a i inv show ?thesis
    by (auto simp: go_inv_def access_def lock_inv_pcs mutex_ok_same list_all_update mutex_ok_fields [of "u (shared S)" "shared S"])
qed

lemma go_inv_step:
  assumes "go_step i S S'" "go_inv S"
  shows "go_inv S'"
  using assms
proof (induction rule: go_step.induct)
  case (act S u c)
  then show ?case by (intro go_inv_act)
next
  case (mutex S op p t)
  then show ?case by (intro mutex_held(2))
next
  case (mutex_fatal S op p)
  then show ?case using mutex_held(1) by blast
next
  case (enter S k p m l)
  have "good ((gos S ! i)\<lparr>gpc := Waiting k m\<rparr>)"
    using goodD [OF go_inv_good [OF enter(5,1)]] enter(2,3) by (intro goodI) auto
  moreover have "lock_step \<lparr>lck = svcLock (shared S), pcs = map gpc (gos S)\<rparr> \<lparr>lck = l, pcs = (map gpc (gos S))[i := Waiting k m]\<rparr>"
    using lock_step.enter [of i "\<lparr>lck = svcLock (shared S), pcs = map gpc (gos S)\<rparr>" k m l] enter by simp
  ultimately show ?case using enter by (intro go_inv_lock) auto
next
  case (acquire S k p k' m l)
  have k: "k' = k" using good_waiting [OF go_inv_good [OF acquire(5,1)] acquire(3)] acquire(2) by simp
  have "good ((gos S ! i)\<lparr>code := p, gpc := Holding k\<rparr>)"
    using goodD [OF go_inv_good [OF acquire(5,1)]] acquire(2,3) by (intro goodI) auto
  moreover have "lock_step \<lparr>lck = svcLock (shared S), pcs = map gpc (gos S)\<rparr> \<lparr>lck = l, pcs = (map gpc (gos S))[i := Holding k]\<rparr>"
    using lock_step.acquire [of i "\<lparr>lck = svcLock (shared S), pcs = map gpc (gos S)\<rparr>" k m l] acquire k by simp
  ultimately show ?case using acquire by (intro go_inv_lock) auto
next
  case (release S k p l)
  note pc = unlock_held(1) [OF release(4,1,2)]
  have "good ((gos S ! i)\<lparr>code := p, gpc := Idle\<rparr>)"
    using goodD [OF go_inv_good [OF release(4,1)]] release(2) pc by (intro goodI) auto
  moreover have "lock_step \<lparr>lck = svcLock (shared S), pcs = map gpc (gos S)\<rparr> \<lparr>lck = l, pcs = (map gpc (gos S))[i := Idle]\<rparr>"
    using lock_step.release [of i "\<lparr>lck = svcLock (shared S), pcs = map gpc (gos S)\<rparr>" k l] release pc by simp
  ultimately show ?case using release by (intro go_inv_lock) auto
next
  case (release_fatal S k p)
  then show ?case using unlock_held(2) by blast
qed

section \<open>Programs that respect the discipline\<close>

text \<open>
  The contract between the provider's operations and this theory: every program a goroutine may be started with is
  typed. Then all interleavings of any number of them, started at any time, keep the invariant.
\<close>

definition newGo :: "('s, 'a) prog \<Rightarrow> ('s, 'a) goroutine" where
  "newGo p = \<lparr>code = p, gpc = Idle, held = []\<rparr>"

inductive go_next :: "((('w, 'x) csys_scheme, 'a) prog \<Rightarrow> bool) \<Rightarrow> (('w, 'x) csys_scheme, 'a) gosys
    \<Rightarrow> (('w, 'x) csys_scheme, 'a) gosys \<Rightarrow> bool" for starts where
  runs: "go_step i S S' \<Longrightarrow> go_next starts S S'"
| spawns: "starts p \<Longrightarrow> go_next starts S (S\<lparr>gos := gos S @ [newGo p]\<rparr>)"

definition go_init :: "(('w, 'x) csys_scheme, 'a) gosys \<Rightarrow> bool" where
  "go_init S \<longleftrightarrow> provider_init (shared S) \<and> \<not> queueMu (shared S) \<and> rwMu (shared S) = (\<lambda>_. \<lparr>w_taken = False, readers = 0\<rparr>) \<and> gos S = []"

lemma lock_inv_spawn: "lock_inv \<lparr>lck = l, pcs = ps\<rparr> \<Longrightarrow> lock_inv \<lparr>lck = l, pcs = ps @ [Idle]\<rparr>"
  by (simp add: lock_inv_def view_inv_def entry_ok_def refs_def holds_def)

lemma cnt_newGo [simp]: "cnt h (gs @ [newGo p]) = cnt h gs"
  by (simp add: cnt_def newGo_def)

lemma go_inv_init: "go_init S \<Longrightarrow> go_inv S"
  by (simp add: go_init_def provider_init_def go_inv_def data_inv_def newNodeRegistry_def reg_wf_def queue_wf_def
      mutex_ok_def cnt_def lock_inv_def newServiceLock_def view_inv_def refs_def)

locale disciplined =
  fixes starts :: "(('w, 'x) csys_scheme, 'a) prog \<Rightarrow> bool"
  assumes starts_typed: "starts p \<Longrightarrow> typed0 None [] p"
begin

lemma inv_spawn: "go_inv S \<Longrightarrow> starts p \<Longrightarrow> go_inv (S\<lparr>gos := gos S @ [newGo p]\<rparr>)"
  using starts_typed [of p] lock_inv_spawn [of "svcLock (shared S)" "map gpc (gos S)"]
  by (auto simp: go_inv_def mutex_ok_def good_def) (auto simp: newGo_def)

lemma inv_next: "go_next starts S S' \<Longrightarrow> go_inv S \<Longrightarrow> go_inv S'"
  by (induction rule: go_next.induct) (auto intro: go_inv_step inv_spawn)

sublocale invariant_system go_init "go_next starts" go_inv
  by unfold_locales (auto intro: inv_next go_inv_init)

end

end
