(* ===== verification/Programs.thy ===== *)
theory Programs
  imports Goroutines
begin

text \<open>
  The operations of the provider as programs of goroutines: the same code as in the theories of the registry, of the
  queue and of the handlers, with every \<open>Lock\<close>, \<open>RLock\<close>, \<open>Unlock\<close> and \<open>RUnlock\<close> at its place and the computations
  between two of them as single steps.
\<close>

section \<open>The provider's operations as programs\<close>

subsection \<open>Registry\<close>

definition nodesForServiceP :: "CSCloud \<Rightarrow> service option \<Rightarrow> (('w, 'x) csys_scheme, nodeInfo list) prog" where
  "nodesForServiceP cs svc = withRLock NodesMu (atomP (bind (gets (\<lambda>s. nodesForService cs (registry s) svc)) lift_sum))"

definition idsForServiceP :: "CSCloud \<Rightarrow> service option \<Rightarrow> (('w, 'x) csys_scheme, string list \<times> string list \<times> string) prog" where
  "idsForServiceP cs svc = seqP (nodesForServiceP cs svc) (\<lambda>ns. retP (idsForNodes ns))"

definition nodesContainingServiceP :: "serviceKey \<Rightarrow> (('w, 'x) csys_scheme, nodeInfo list) prog" where
  "nodesContainingServiceP key =
    withRLock NodesMu (withRLock SvcNodesMu (atomP (gets (\<lambda>s. nodesContainingService (registry s) key))))"

definition updateEndpointsNodesP :: "endpoints \<Rightarrow> (('w, 'x) csys_scheme, unit) prog" where
  "updateEndpointsNodesP ep = withWLock SvcNodesMu (atomP (modify (registry_update (updateEndpointsNodes ep))))"

definition deleteEndpointsNodesP :: "endpoints \<Rightarrow> (('w, 'x) csys_scheme, unit) prog" where
  "deleteEndpointsNodesP ep = withWLock SvcNodesMu (atomP (modify (registry_update (deleteEndpointsNodes ep))))"

fun handleEndpointsP :: "informerEvent \<Rightarrow> (('w, 'x) csys_scheme, unit) prog" where
  "handleEndpointsP (AddFunc obj) = (case obj of EndpointsObj ep \<Rightarrow> updateEndpointsNodesP ep | _ \<Rightarrow> retP ())"
| "handleEndpointsP (UpdateFunc _ obj) = (case obj of EndpointsObj ep \<Rightarrow> updateEndpointsNodesP ep | _ \<Rightarrow> retP ())"
| "handleEndpointsP (DeleteFunc obj) = (case obj of
       EndpointsObj ep \<Rightarrow> deleteEndpointsNodesP ep
     | DeletedFinalStateUnknown (EndpointsObj ep) \<Rightarrow> deleteEndpointsNodesP ep
     | _ \<Rightarrow> retP ())"

definition updateNodesP :: "'w api \<Rightarrow> CSCloud \<Rightarrow> kubeNode list \<Rightarrow> (('w, 'x) csys_scheme, unit) prog" where
  "updateNodesP api cs ns =
    (if length ns = 0 then throwP (Errorf ''no nodes available to add to load balancer'' [])
     else withWLock NodesMu (
       seqP (atomP (modify (registry_update (revision_update (\<lambda>v. v + 1))))) (\<lambda>_.
       seqP (foreachP ns (\<lambda>n. atomP (updateNode api cs n))) (\<lambda>_.
       seqP (atomP (modify (registry_update (removeUnvisited (map (\<lambda>n. om_Name (kn_meta n)) ns))))) (\<lambda>_.
       seqP (atomP (gets (\<lambda>s. nodes (registry s)))) (\<lambda>m.
         if length m = 0
         then throwP (Errorf ''unable to map kubernetes nodes to cloudstack instances for nodes: %v'' [nodeNames ns])
         else retP ()))))))"

subsection \<open>Queue\<close>

text \<open>The part of \<open>push\<close> that merges into an existing entry: whether there was one.\<close>

definition mergeEntryIO :: "queueEntry \<Rightarrow> (('w, 'x) psys_scheme, bool) go" where
  "mergeEntryIO entry =
    (let key = svcKey (qe_service entry) in
     bind (gets queue) (\<lambda>q. case map_of q key of
       Some existing \<Rightarrow>
         bind (modify (queue_update (AList.update key (existing\<lparr>qe_service := qe_service entry, qe_lb := None\<rparr>)))) (\<lambda>_. ret True)
     | None \<Rightarrow> ret False))"

definition pushP :: "CSCloud \<Rightarrow> queueEntry \<Rightarrow> (('w, 'x) csys_scheme, unit) prog" where
  "pushP cs entry = withQueueMu (
     seqP (atomP (mergeEntryIO entry)) (\<lambda>found.
     if found then retP ()
     else seqP (nodesForServiceP cs (Some (qe_service entry))) (\<lambda>_.
       atomP (modify (queue_update (AList.update (svcKey (qe_service entry)) entry))))))"

definition pushWithBackoffP :: "'w api \<Rightarrow> CSCloud \<Rightarrow> queueEntry \<Rightarrow> (('w, 'x) csys_scheme, int) prog" where
  "pushWithBackoffP api cs entry =
    seqP (atomP (local_io (limiter_When api (svcKey (qe_service entry))))) (\<lambda>backoff.
    seqP (atomP (local_io (time_Now api))) (\<lambda>now1.
    seqP (atomP (local_io (time_Now api))) (\<lambda>now2.
    seqP (pushP cs (entry\<lparr>backoffUntil := now1 + backoff, start := now2, qe_lb := None\<rparr>)) (\<lambda>_.
    retP backoff))))"

definition extendEntryP :: "serviceKey \<times> queueEntry \<Rightarrow> (('w, 'x) csys_scheme, queueEntryWithNodeRecent) prog" where
  "extendEntryP ke = (case ke of (key, entry) \<Rightarrow>
     seqP (nodesContainingServiceP key) (\<lambda>ns. retP \<lparr>ext_entry = entry, topRevision = topRevisionOf ns\<rparr>))"

definition popP :: "'w api \<Rightarrow> (('w, 'x) csys_scheme, queueEntry option) prog" where
  "popP api = withQueueMu (
     seqP (atomP (gets queue)) (\<lambda>q.
     seqP (mapP q extendEntryP) (\<lambda>entries.
     if length entries = 0 then retP None
     else
       seqP (atomP (local_io (time_Now api))) (\<lambda>now.
         let entry = ext_entry (sortBy (Less now) entries ! 0) in
         if backoffUntil entry > now then retP None
         else seqP (atomP (modify (queue_update (AList.delete (svcKey (qe_service entry)))))) (\<lambda>_. retP (Some entry))))))"

definition processEntryP :: "'w api \<Rightarrow> CSCloud \<Rightarrow> queueEntry \<Rightarrow> (('w, 'x) csys_scheme, unit) prog" where
  "processEntryP api cs entry =
    seqP (nodesForServiceP cs (Some (qe_service entry))) (\<lambda>ns.
      let (hostIDs, networkIDs, projectID) = idsForNodes ns in
      seqP (case qe_lb entry of
          Some lb \<Rightarrow> retP (Some lb)
        | None \<Rightarrow>
            seqP (atomP (getLoadBalancer api cs (qe_service entry) projectID networkIDs)) (\<lambda>lb.
              if lb_rule lb = None then retP None
              else if shouldManageLB lb \<noteq> None then retP None
              else retP (Some lb))) (\<lambda>found.
        case found of
          None \<Rightarrow> retP ()
        | Some lb \<Rightarrow>
            seqP (atomP (syncNodes api cs lb hostIDs networkIDs)) (\<lambda>_.
            if updatePool entry then atomP (updateLoadBalancerPool api cs lb) else retP ())))"

definition processQueueEntryP :: "'w api \<Rightarrow> CSCloud \<Rightarrow> queueEntry \<Rightarrow> (('w, 'x) csys_scheme, unit) prog" where
  "processQueueEntryP api cs entry = withSvc (svcKey (qe_service entry)) (processEntryP api cs entry)"

definition finishEntryP :: "'w api \<Rightarrow> CSCloud \<Rightarrow> queueEntry \<Rightarrow> error + unit \<Rightarrow> (('w, 'x) csys_scheme, bool) prog" where
  "finishEntryP api cs item r = (case r of
      Inl err \<Rightarrow>
        seqP (attemptP (pushWithBackoffP api cs item)) (\<lambda>pushed.
          let retryMsg = (case pushed of
                Inl pushErr \<Rightarrow> Sprintf ''error trying to requeue: %v'' [Error pushErr]
              | Inr backoff \<Rightarrow> Sprintf ''retry in %v'' [Duration_String backoff]);
              msg = Sprintf ''Error updating load balancer with new hosts: %v - %v'' [Error err, retryMsg];
              key = svcKey (qe_service item)
          in seqP (atomP (event_io (RecordEvent key ''QueuedUpdateLoadBalancerFailed'' msg)
               (kube_event api key ''QueuedUpdateLoadBalancerFailed'' msg))) (\<lambda>_. retP True))
    | Inr _ \<Rightarrow>
        (let key = svcKey (qe_service item); msg = ''Updated load balancer with new hosts'' in
         seqP (atomP (local_do (limiter_Forget api key))) (\<lambda>_.
         seqP (atomP (event_io (RecordEvent key ''QueuedUpdatedLoadBalancer'' msg)
           (kube_event api key ''QueuedUpdatedLoadBalancer'' msg))) (\<lambda>_. retP True))))"

definition workerStepP :: "'w api \<Rightarrow> CSCloud \<Rightarrow> (('w, 'x) csys_scheme, bool) prog" where
  "workerStepP api cs =
    seqP (popP api) (\<lambda>popped. case popped of
      None \<Rightarrow> retP False
    | Some item \<Rightarrow> seqP (attemptP (processQueueEntryP api cs item)) (finishEntryP api cs item))"

subsection \<open>Handlers\<close>

definition GetLoadBalancerP :: "'w api \<Rightarrow> CSCloud \<Rightarrow> service option \<Rightarrow> (('w, 'x) csys_scheme, status option) prog" where
  "GetLoadBalancerP api cs svc = (case svc of
      None \<Rightarrow> throwP (Errorf ''GetLoadBalancer: service cannot be nil'' [])
    | Some svc \<Rightarrow> withSvc (svcKey svc) (atomP (getLocked api cs svc)))"

definition findForEnsureP ::
  "'w api \<Rightarrow> CSCloud \<Rightarrow> service \<Rightarrow> kubeNode list \<Rightarrow> (('w, 'x) csys_scheme, loadBalancer) prog" where
  "findForEnsureP api cs svc ns =
    (if length (svc_Ports svc) = 0 then throwP (Errorf ''requested load balancer with no ports'' [])
     else
       seqP (updateNodesP api cs ns) (\<lambda>_.
       seqP (idsForServiceP cs (Some svc)) (\<lambda>(_, networkIDs, projectID).
       seqP (atomP (getLoadBalancer api cs svc projectID networkIDs)) (\<lambda>lb.
       seqP (atomP (setProjectLabel api cs lb)) (\<lambda>lb1.
       atomP (lift_sum (setAlgorithm (lb_service lb1) lb1)))))))"

definition ensureLockedP ::
  "'w api \<Rightarrow> CSCloud \<Rightarrow> service \<Rightarrow> kubeNode list \<Rightarrow> (('w, 'x) csys_scheme, status) prog" where
  "ensureLockedP api cs svc ns =
    seqP (findForEnsureP api cs svc ns) (\<lambda>lb.
      case shouldManageLB lb of
        Some err \<Rightarrow> throwP err
      | None \<Rightarrow>
          seqP (atomP (ensureIP api cs lb)) (\<lambda>lb1.
          seqP (atomP (ensureRule api cs lb1)) (\<lambda>lb2.
          seqP (atomP (local_io (time_Now api))) (\<lambda>now.
          seqP (pushP cs \<lparr>qe_service = lb_service lb2, qe_lb = Some lb2, updatePool = True, start = now,
            backoffUntil = zeroTime\<rparr>) (\<lambda>_.
          retP (lbStatus lb1))))))"

definition EnsureLoadBalancerP ::
  "'w api \<Rightarrow> CSCloud \<Rightarrow> service option \<Rightarrow> kubeNode list \<Rightarrow> (('w, 'x) csys_scheme, status) prog" where
  "EnsureLoadBalancerP api cs svc ns = (case svc of
      None \<Rightarrow> throwP (Errorf ''EnsureLoadBalancer: service cannot be nil'' [])
    | Some svc \<Rightarrow> withSvc (svcKey svc) (ensureLockedP api cs svc ns))"

definition UpdateLoadBalancerP ::
  "'w api \<Rightarrow> CSCloud \<Rightarrow> service option \<Rightarrow> kubeNode list \<Rightarrow> (('w, 'x) csys_scheme, unit) prog" where
  "UpdateLoadBalancerP api cs svc ns = (case svc of
      None \<Rightarrow> throwP (Errorf ''UpdateLoadBalancer: service cannot be nil'' [])
    | Some svc \<Rightarrow>
        seqP (updateNodesP api cs ns) (\<lambda>_.
        seqP (atomP (local_io (time_Now api))) (\<lambda>now.
        pushP cs \<lparr>qe_service = svc, qe_lb = None, updatePool = False, start = now, backoffUntil = zeroTime\<rparr>)))"

definition EnsureLoadBalancerDeletedP :: "'w api \<Rightarrow> CSCloud \<Rightarrow> service option \<Rightarrow> (('w, 'x) csys_scheme, unit) prog" where
  "EnsureLoadBalancerDeletedP api cs svc = (case svc of
      None \<Rightarrow> throwP (Errorf ''EnsureLoadBalancerDeleted: service cannot be nil'' [])
    | Some svc \<Rightarrow> withSvc (svcKey svc) (atomP (deleteLocked api cs svc)))"

text \<open>What goroutines of the provider run: a call of the controller manager, an event of the informer, a look of a worker.\<close>

definition discard :: "('s, 'a) prog \<Rightarrow> ('s, unit) prog" where
  "discard p = seqP p (\<lambda>_. retP ())"

datatype operation =
    OpGet "service option"
  | OpEnsure "service option" "kubeNode list"
  | OpUpdate "service option" "kubeNode list"
  | OpDelete "service option"
  | OpWork
  | OpEndpoints informerEvent

fun program :: "'w api \<Rightarrow> CSCloud \<Rightarrow> operation \<Rightarrow> (('w, 'x) csys_scheme, unit) prog" where
  "program api cs (OpGet svc) = discard (GetLoadBalancerP api cs svc)"
| "program api cs (OpEnsure svc ns) = discard (EnsureLoadBalancerP api cs svc ns)"
| "program api cs (OpUpdate svc ns) = UpdateLoadBalancerP api cs svc ns"
| "program api cs (OpDelete svc) = EnsureLoadBalancerDeletedP api cs svc"
| "program api cs OpWork = discard (workerStepP api cs)"
| "program api cs (OpEndpoints ev) = handleEndpointsP ev"

fun sequential :: "'w api \<Rightarrow> CSCloud \<Rightarrow> operation \<Rightarrow> (('w, 'x) psys_scheme, unit) go" where
  "sequential api cs (OpGet svc) = bind (GetLoadBalancer api cs svc) (\<lambda>_. ret ())"
| "sequential api cs (OpEnsure svc ns) = bind (EnsureLoadBalancer api cs svc ns) (\<lambda>_. ret ())"
| "sequential api cs (OpUpdate svc ns) = UpdateLoadBalancer api cs svc ns"
| "sequential api cs (OpDelete svc) = EnsureLoadBalancerDeleted api cs svc"
| "sequential api cs OpWork = bind (workerStep api cs) (\<lambda>_. ret ())"
| "sequential api cs (OpEndpoints ev) = modify (registry_update (handleEndpoints ev))"

end
