(* ===== verification/Discipline.thy ===== *)
theory Discipline
  imports Programs
begin

text \<open>
  Every operation of the provider keeps the lock discipline: its program is typed.
\<close>

section \<open>They respect the lock discipline\<close>

definition ret_ok :: "('a \<Rightarrow> bool) \<Rightarrow> 'a outcome \<Rightarrow> bool" where
  "ret_ok P r \<longleftrightarrow> (\<forall>a. r = Ret a \<longrightarrow> P a)"

abbreviation ty :: "serviceKey option \<Rightarrow> hold list \<Rightarrow> ('a \<Rightarrow> bool) \<Rightarrow> (('w, 'x) csys_scheme, 'a) prog \<Rightarrow> bool" where
  "ty sk H P p \<equiv> typed (ret_ok P) sk H sk H p"

named_theorems ty_intros \<open>typing rules for programs with balanced locks\<close>

lemma ret_ok_simps [simp]: "ret_ok P (Ret a) = P a" "ret_ok P (Err e)" "ret_ok P (Panic x)" "ret_ok P Block"
  "ret_ok (\<lambda>_. True) r"
  by (auto simp: ret_ok_def)

lemma ty_ret [ty_intros]: "P a \<Longrightarrow> ty sk H P (retP a)"
  by (simp add: retP_def typed.Fin)

lemma ty_throw [ty_intros]: "ty sk H P (throwP e)"
  by (simp add: throwP_def typed.Fin)

lemma ty_seq:
  "ty sk H P p \<Longrightarrow> (\<And>a. P a \<Longrightarrow> ty sk H Q (f a)) \<Longrightarrow> ty sk H Q (seqP p f)"
  unfolding seqP_def by (erule typed_bindP) (auto intro: typed.intros split: outcome.splits)

lemma ty_attempt: "ty sk H P p \<Longrightarrow> ty sk H (\<lambda>_. True) (attemptP p)"
  unfolding attemptP_def by (erule typed_bindP) (auto intro: typed.intros split: outcome.splits)

lemma ty_defer:
  assumes "ty sk H P p" "\<And>r. ret_ok P r \<Longrightarrow> typed (ret_ok P) sk0 H0 sk H (unlock (Fin r))"
  shows "typed (ret_ok P) sk0 H0 sk H (deferP unlock p)"
  unfolding deferP_def using assms by (elim typed_bindP) (auto intro: typed.intros split: outcome.splits)

lemma ty_withQueueMu: "ty sk [HQ] P p \<Longrightarrow> ty sk [] P (withQueueMu p)"
  unfolding withQueueMu_def by (intro typed.QLock ty_defer typed.QUnlock typed.Fin)

lemma ty_withRLock: "ty sk (HR n # H) P p \<Longrightarrow> (\<And>h. h \<in> set H \<Longrightarrow> level h < rw_level n) \<Longrightarrow> ty sk H P (withRLock n p)"
  unfolding withRLock_def by (intro typed.RLock ty_defer typed.RUnlock typed.Fin)

lemma ty_withWLock: "ty sk (HW n # H) P p \<Longrightarrow> (\<And>h. h \<in> set H \<Longrightarrow> level h < rw_level n) \<Longrightarrow> ty sk H P (withWLock n p)"
  unfolding withWLock_def by (intro typed.WLock typed.WDrain ty_defer typed.WUnlock typed.Fin)

lemma ty_withSvc: "ty (Some k) [] P p \<Longrightarrow> ty None [] P (withSvc k p)"
  unfolding withSvc_def by (intro typed.SvcLock ty_defer typed.SvcUnlock typed.Fin)

lemma ty_foreach: "(\<And>x. ty sk H (\<lambda>_. True) (f x)) \<Longrightarrow> ty sk H (\<lambda>_. True) (foreachP xs f)"
  by (induction xs) (auto intro: ty_ret ty_seq)

lemma ty_map: "(\<And>x. ty sk H (\<lambda>_. True) (f x)) \<Longrightarrow> ty sk H (\<lambda>_. True) (mapP xs f)"
  by (induction xs) (auto intro!: ty_ret ty_seq)

interpretation queueMu_part: inner_update "queueMu_update f" by unfold_locales auto
interpretation rwMu_part: inner_update "rwMu_update f" by unfold_locales auto
interpretation svcLock_part: inner_update "svcLock_update f" by unfold_locales auto
interpretation queue_part: inner_update "queue_update f" by unfold_locales auto
interpretation registry_part: inner_update "registry_update f" by unfold_locales auto

lemma foreign_inner: "foreign H g \<Longrightarrow> inner_update g"
  by (induction rule: foreign.induct)
    (rule queueMu_part.inner_update_axioms rwMu_part.inner_update_axioms svcLock_part.inner_update_axioms
      queue_part.inner_update_axioms registry_part.inner_update_axioms)+

subsection \<open>Steps on the outside world\<close>

lemma outside_access: "outside_only P s t \<Longrightarrow> access H s t"
  by (cases s; cases t) (simp add: outside_only_def access_def data_inv_def)

lemma ty_outside:
  assumes "keeps (outside_only Q) m" "\<And>g. inner_update g \<Longrightarrow> blind g m" "\<And>s a t. m s = (Ret a, t) \<Longrightarrow> P a"
  shows "ty sk H P (atomP m)"
proof (rule typed_atomP)
  show "access H s (snd (m s))" for s using assms(1) by (auto simp: keeps_def intro: outside_access)
  show "blind g m" if "foreign H g" for g using assms(2) foreign_inner [OF that] .
  show "ret_ok P r" if "m s = (r, t)" for s r t using assms(3) that by (auto simp: ret_ok_def)
qed

lemma keeps_sync_any: "keeps (outside_only (\<lambda>_. True)) (syncNodes api cs lb hosts ns)"
  "keeps (outside_only (\<lambda>_. True)) (updateLoadBalancerPool api cs lb)"
proof -
  show "keeps (outside_only (\<lambda>_. True)) (syncNodes api cs lb hosts ns)"
  proof (cases "lb_rule lb")
    case None
    then show ?thesis by (auto simp: syncNodes_def withRule_def intro!: keeps_intros)
  next
    case (Some rule)
    then show ?thesis by (rule keeps_outside_mono [OF keeps_syncNodes]) simp
  qed
  show "keeps (outside_only (\<lambda>_. True)) (updateLoadBalancerPool api cs lb)"
  proof (cases "lb_rule lb")
    case None
    then show ?thesis by (auto simp: updateLoadBalancerPool_def withRule_def intro!: keeps_intros)
  next
    case (Some rule)
    then show ?thesis by (rule keeps_outside_mono [OF keeps_updateLoadBalancerPool]) simp
  qed
qed

lemma ty_local [ty_intros]: "ty sk H (\<lambda>_. True) (atomP (local_io f))" "ty sk H (\<lambda>_. True) (atomP (local_do f'))"
  "ty sk H (\<lambda>_. True) (atomP (event_io c f'))"
proof -
  show "ty sk H (\<lambda>_. True) (atomP (local_io f))" "ty sk H (\<lambda>_. True) (atomP (local_do f'))"
    by (rule ty_outside [where Q = "\<lambda>_. True"], auto intro!: keeps_intros inner_update.blind_world)+
  show "ty sk H (\<lambda>_. True) (atomP (event_io c f'))"
    by (rule ty_outside [where Q = "\<lambda>_. True"], auto intro!: keeps_intros inner_update.blind_world)
qed

lemma ty_getLoadBalancer [ty_intros]: "ty sk H (\<lambda>_. True) (atomP (getLoadBalancer api cs svc p ns))"
  by (rule ty_outside [OF keeps_getLoadBalancer inner_update.blind_getLoadBalancer]) auto

lemma ty_setProjectLabel [ty_intros]: "ty sk H (\<lambda>_. True) (atomP (setProjectLabel api cs lb))"
  by (rule ty_outside [OF keeps_setProjectLabel inner_update.blind_setProjectLabel]) auto

lemma ty_lift_sum [ty_intros]: "ty sk H (\<lambda>_. True) (atomP (lift_sum x))"
  by (rule ty_outside [OF keeps_lift_sum [where P = "\<lambda>_. True"] blind_pure(4)]) auto

lemma ty_ensureIP [ty_intros]: "ty sk H (\<lambda>_. True) (atomP (ensureIP api cs lb))"
  by (rule ty_outside [OF keeps_outside_all(3) inner_update.blind_ensureIP]) auto

text \<open>What is queued after a rule was ensured has a rule.\<close>

lemma ty_ensureRule [ty_intros]: "ty sk H (\<lambda>lb. lb_rule lb \<noteq> None) (atomP (ensureRule api cs lb))"
  by (rule ty_outside [OF keeps_outside_all(4) inner_update.blind_ensureRule]) (auto dest!: ensureRule_Ret)

lemma ty_syncNodes [ty_intros]: "ty sk H (\<lambda>_. True) (atomP (syncNodes api cs lb hosts ns))"
  "ty sk H (\<lambda>_. True) (atomP (updateLoadBalancerPool api cs lb))"
  by (rule ty_outside [OF keeps_sync_any(1) inner_update.blind_rule_ops(4)]
      ty_outside [OF keeps_sync_any(2) inner_update.blind_rule_ops(5)], simp, simp)+

lemma ty_locked [ty_intros]: "ty sk H (\<lambda>_. True) (atomP (getLocked api cs svc))" "ty sk H (\<lambda>_. True) (atomP (deleteLocked api cs svc))"
proof -
  note any = keeps_outside_mono [where P = read_only and Q = "\<lambda>_. True", OF _ TrueI]
  have "keeps (outside_only (\<lambda>_. True)) (getLocked api cs svc)" "keeps (outside_only (\<lambda>_. True)) (deleteLocked api cs svc)"
    by (auto simp: getLocked_def deleteLocked_def intro!: keeps_intros any [OF keeps_getLoadBalancer] keeps_outside_all)
  moreover have "blind g (getLocked api cs svc)" "blind g (deleteLocked api cs svc)" if "inner_update g" for g
    by (auto simp: getLocked_def deleteLocked_def intro!: blind_intros inner_update.blind_getLoadBalancer [OF that]
      inner_update.blind_rule_ops [OF that] inner_update.blind_release [OF that])
  ultimately show "ty sk H (\<lambda>_. True) (atomP (getLocked api cs svc))" "ty sk H (\<lambda>_. True) (atomP (deleteLocked api cs svc))"
    by (auto intro!: ty_outside)
qed

subsection \<open>Steps on the registry and the queue\<close>

lemma blind_gets_bind: "(\<And>s. F (h (g s)) = F (h s)) \<Longrightarrow> (\<And>a. blind g (F a)) \<Longrightarrow> blind g (bind (gets h) F)"
  by (auto simp: blind_def bind_def gets_def)

lemma foreign_cases [consumes 1, case_names mutexes queue nodes revision svcNodes]:
  assumes "foreign H g"
  obtains (mutexes) "\<And>s. registry (g s) = registry s" "\<And>s. queue (g s) = queue s"
      "\<And>f s. g (registry_update f s) = registry_update f (g s)" "\<And>f s. g (queue_update f s) = queue_update f (g s)"
  | (queue) f where "HQ \<notin> set H" "g = queue_update f"
  | (nodes) f where "\<not> reading H NodesMu" "g = registry_update (nodes_update f)"
  | (revision) f where "\<not> reading H NodesMu" "g = registry_update (revision_update f)"
  | (svcNodes) f where "\<not> reading H SvcNodesMu" "g = registry_update (svcNodes_update f)"
  using assms
proof (cases rule: foreign.cases)
  case 1
  then show ?thesis by (intro mutexes) simp_all
next
  case 2
  then show ?thesis by (intro mutexes) simp_all
next
  case 3
  then show ?thesis by (intro mutexes) simp_all
qed (use queue nodes revision svcNodes in blast)+

lemma nodesForService_svcNodes [simp]: "nodesForService cs (svcNodes_update f r) svc = nodesForService cs r svc"
  by (auto simp: nodesForService_def split: option.splits)

lemma access_refl: "access H s s"
  by (simp add: access_def)

lemma ty_nodesForService:
  assumes "\<And>h. h \<in> set H \<Longrightarrow> level h < 2"
  shows "ty sk H (\<lambda>_. True) (nodesForServiceP cs svc)"
  unfolding nodesForServiceP_def
proof (rule ty_withRLock, rule typed_atomP)
  show "access (HR NodesMu # H) s (snd (bind (gets (\<lambda>s. nodesForService cs (registry s) svc)) lift_sum s))" for s
    by (auto simp: bind_def gets_def lift_sum_def throw_def ret_def access_refl split: sum.splits)
  show "blind g (bind (gets (\<lambda>s. nodesForService cs (registry s) svc)) lift_sum)" if "foreign (HR NodesMu # H) g" for g
    using that by (cases rule: foreign_cases) (auto simp: reading_def intro!: blind_gets_bind blind_pure)
qed (use assms in auto)

lemma ty_nodesContainingService: "ty sk [HQ] (\<lambda>_. True) (nodesContainingServiceP key)"
  unfolding nodesContainingServiceP_def
proof (intro ty_withRLock, rule typed_atomP)
  fix g :: "('c, 'd) csys_scheme \<Rightarrow> ('c, 'd) csys_scheme"
  assume "foreign [HR SvcNodesMu, HR NodesMu, HQ] g"
  then show "blind g (gets (\<lambda>s. nodesContainingService (registry s) key))"
    by (cases rule: foreign_cases) (auto simp: reading_def intro!: blind_gets)
qed (auto simp: gets_def access_refl)

lemma updateEndpoints_commute:
  "updateEndpointsNodes ep (nodes_update f r) = nodes_update f (updateEndpointsNodes ep r)"
  "updateEndpointsNodes ep (revision_update f' r) = revision_update f' (updateEndpointsNodes ep r)"
  "deleteEndpointsNodes ep (nodes_update f r) = nodes_update f (deleteEndpointsNodes ep r)"
  "deleteEndpointsNodes ep (revision_update f' r) = revision_update f' (deleteEndpointsNodes ep r)"
  by (simp_all add: updateEndpointsNodes_def deleteEndpointsNodes_def Let_def)

lemma ty_endpoints: "ty sk [] (\<lambda>_. True) (updateEndpointsNodesP ep)" "ty sk [] (\<lambda>_. True) (deleteEndpointsNodesP ep)"
proof -
  have acc: "access [HW SvcNodesMu] s (registry_update (updateEndpointsNodes ep) s)"
    "access [HW SvcNodesMu] s (registry_update (deleteEndpointsNodes ep) s)" for s :: "('w, 'x) csys_scheme"
    by (auto simp: access_def data_inv_def reg_wf_updateEndpoints reg_wf_deleteEndpoints)
      (auto simp: updateEndpointsNodes_def deleteEndpointsNodes_def Let_def)
  have bl: "blind g (modify (registry_update (updateEndpointsNodes ep)))" "blind g (modify (registry_update (deleteEndpointsNodes ep)))"
    if "foreign [HW SvcNodesMu] g" for g :: "('w, 'x) csys_scheme \<Rightarrow> ('w, 'x) csys_scheme"
    using that by (cases rule: foreign_cases, auto simp: reading_def updateEndpoints_commute comp_def intro!: blind_modify)+
  show "ty sk [] (\<lambda>_. True) (updateEndpointsNodesP ep)" "ty sk [] (\<lambda>_. True) (deleteEndpointsNodesP ep)"
    unfolding updateEndpointsNodesP_def deleteEndpointsNodesP_def
    by (rule ty_withWLock, rule typed_atomP, auto simp: run_modify acc bl)+
qed

lemma ty_handleEndpoints: "ty None [] (\<lambda>_. True) (handleEndpointsP ev)"
  by (cases ev) (auto intro!: ty_intros ty_endpoints split: informerObj.splits)

lemma blind_updateNode:
  assumes "foreign [HW NodesMu] (g :: ('w, 'x) csys_scheme \<Rightarrow> _)"
  shows "blind g (updateNode api cs n)"
proof -
  have new: "blind g (newNodeInfo api cs n)" by (rule inner_update.blind_newNodeInfo [OF foreign_inner [OF assms]])
  from assms show ?thesis
  proof (cases rule: foreign_cases)
    case mutexes
    then show ?thesis unfolding updateNode_def Let_def
      by (auto intro!: blind_gets blind_gets_bind blind_intros blind_modify new split: option.splits prod.splits)
  next
    case (queue f)
    with new show ?thesis unfolding updateNode_def Let_def
      by (auto intro!: blind_gets blind_gets_bind blind_intros blind_modify split: option.splits prod.splits)
  next
    case (svcNodes f)
    with new show ?thesis unfolding updateNode_def Let_def
      by (intro blind_gets_bind)
        (auto simp: setNode_def comp_def intro!: blind_intros blind_modify split: option.splits prod.splits)
  qed (auto simp: reading_def)
qed

text \<open>Apart from the world and the registry nothing changes.\<close>

definition registry_only :: "('w, 'x) csys_scheme \<Rightarrow> ('w, 'x) csys_scheme \<Rightarrow> bool" where
  "registry_only s t \<longleftrightarrow> queueMu t = queueMu s \<and> rwMu t = rwMu s \<and> svcLock t = svcLock s \<and> queue t = queue s"

interpretation registry_step: frame_relation registry_only
  by unfold_locales (auto simp: registry_only_def)

lemma keeps_outside_registry: "keeps (outside_only P) m \<Longrightarrow> keeps registry_only m"
  using outside_access [of P _ _ "[]"] by (auto simp: keeps_def registry_only_def access_def)

lemma keeps_updateNode_registry: "keeps registry_only (updateNode api cs n)"
proof -
  have "keeps registry_only (modify (registry_update f))" for f
    by (simp add: keeps_def modify_def registry_only_def)
  then show ?thesis unfolding updateNode_def Let_def
    by (auto intro!: registry_step.keeps_rules keeps_outside_registry [OF keeps_newNodeInfo] split: option.splits prod.splits)
qed

lemma access_nodes:
  assumes "registry_only s t" "reg_wf (registry s) \<Longrightarrow> reg_wf (registry t)" "svcNodes (registry t) = svcNodes (registry s)"
  shows "access [HW NodesMu] s t"
  using assms by (auto simp: access_def data_inv_def registry_only_def)

lemma ty_updateNode: "ty sk [HW NodesMu] (\<lambda>_. True) (atomP (updateNode api cs n) :: (('w, 'x) csys_scheme, unit) prog)"
proof (rule typed_atomP)
  fix s :: "('w, 'x) csys_scheme"
  have "node_frame {om_Name (kn_meta n)} (registry s) (registry (snd (updateNode api cs n s)))"
    using keeps_updateNode [of n "{om_Name (kn_meta n)}" api cs] by (auto simp: keeps_def nframe_def)
  then show "access [HW NodesMu] s (snd (updateNode api cs n s))"
    using keeps_updateNode_registry [of api cs n] by (intro access_nodes) (auto simp: keeps_def node_frame_def)
qed (auto intro: blind_updateNode)

lemma ty_modify_nodes:
  assumes "\<And>r. reg_wf r \<Longrightarrow> reg_wf (f r)" "\<And>r. svcNodes (f r) = svcNodes r" "\<And>h r. f (svcNodes_update h r) = svcNodes_update h (f r)"
  shows "ty sk [HW NodesMu] (\<lambda>_. True) (atomP (modify (registry_update f)) :: (('w, 'x) csys_scheme, unit) prog)"
proof (rule typed_atomP)
  show "access [HW NodesMu] s (snd (modify (registry_update f) s))" for s :: "('w, 'x) csys_scheme"
    using assms by (auto intro!: access_nodes simp: modify_def registry_only_def)
  show "blind g (modify (registry_update f))" if "foreign [HW NodesMu] g" for g :: "('w, 'x) csys_scheme \<Rightarrow> _"
    using that by (cases rule: foreign_cases) (auto simp: reading_def assms comp_def intro!: blind_modify)
qed auto

lemma ty_updateNodes: "ty sk [] (\<lambda>_. True) (updateNodesP api cs ns :: (('w, 'x) csys_scheme, unit) prog)"
proof -
  have get: "ty sk [HW NodesMu] (\<lambda>_. True) (atomP (gets (\<lambda>s. nodes (registry s))) :: (('w, 'x) csys_scheme, _) prog)"
  proof (rule typed_atomP)
    show "blind g (gets (\<lambda>s. nodes (registry s)))" if "foreign [HW NodesMu] g" for g :: "('w, 'x) csys_scheme \<Rightarrow> _"
      using that by (cases rule: foreign_cases) (auto simp: reading_def intro!: blind_gets)
  qed (auto simp: gets_def access_refl)
  have "ty sk [HW NodesMu] (\<lambda>_. True) (atomP (modify (registry_update (revision_update (\<lambda>v. v + 1)))))"
    by (rule ty_modify_nodes) auto
  moreover have "ty sk [HW NodesMu] (\<lambda>_. True) (atomP (modify (registry_update (removeUnvisited V))))" for V
    by (rule ty_modify_nodes [OF reg_wf_removeUnvisited]) (auto simp: removeUnvisited_def Let_def)
  ultimately show ?thesis
    unfolding updateNodesP_def
    by (auto intro!: ty_intros ty_withWLock ty_seq [where P = "\<lambda>_. True"] ty_foreach ty_updateNode get)
qed

lemma foreign_queue: "HQ \<in> set H \<Longrightarrow> foreign H g \<Longrightarrow>
    (\<forall>s. queue (g s) = queue s) \<and> (\<forall>f s. g (queue_update f s) = queue_update f (g s))"
  by (cases rule: foreign_cases) auto

lemma ty_modify_queue:
  assumes "\<And>q. queue_wf q \<Longrightarrow> queue_wf (f q)"
  shows "ty sk [HQ] (\<lambda>_. True) (atomP (modify (queue_update f)) :: (('w, 'x) csys_scheme, unit) prog)"
proof (rule typed_atomP)
  show "access [HQ] s (snd (modify (queue_update f) s))" for s :: "('w, 'x) csys_scheme"
    using assms by (simp add: access_def modify_def data_inv_def)
qed (auto dest: foreign_queue [rotated] intro!: blind_modify)

lemma ty_gets_queue: "ty sk [HQ] (\<lambda>_. True) (atomP (gets queue) :: (('w, 'x) csys_scheme, _) prog)"
  by (rule typed_atomP) (auto simp: run_gets access_refl dest: foreign_queue [rotated] intro!: blind_gets)

lemma ty_merge: "ty sk [HQ] (\<lambda>_. True) (atomP (mergeEntryIO e) :: (('w, 'x) csys_scheme, bool) prog)"
proof (rule typed_atomP)
  show "access [HQ] s (snd (mergeEntryIO e s))" for s :: "('w, 'x) csys_scheme"
    by (auto simp: mergeEntryIO_def bind_def gets_def modify_def ret_def access_def data_inv_def entry_wf_def Let_def
        intro!: queue_wf_update split: option.splits)
  show "blind g (mergeEntryIO e)" if "foreign [HQ] g" for g :: "('w, 'x) csys_scheme \<Rightarrow> _"
    using foreign_queue [OF _ that] unfolding mergeEntryIO_def Let_def
    by (auto intro!: blind_gets blind_gets_bind blind_intros blind_modify split: option.splits)
qed auto

lemma ty_push:
  assumes "entry_wf (svcKey (qe_service e)) e"
  shows "ty sk [] (\<lambda>_. True) (pushP cs e)"
  unfolding pushP_def using queue_wf_update assms
  by (auto intro!: ty_intros ty_withQueueMu ty_seq [where P = "\<lambda>_. True"] ty_merge ty_nodesForService ty_modify_queue)

lemma ty_pushWithBackoff: "ty sk [] (\<lambda>_. True) (pushWithBackoffP api cs e)"
  unfolding pushWithBackoffP_def
  by (auto intro!: ty_intros ty_seq [where P = "\<lambda>_. True"] ty_push simp: entry_wf_def)

lemma ty_pop: "ty sk [] (\<lambda>_. True) (popP api)"
  unfolding popP_def extendEntryP_def Let_def
  by (auto intro!: ty_intros ty_withQueueMu ty_seq [where P = "\<lambda>_. True"] ty_map ty_gets_queue ty_nodesContainingService
      ty_modify_queue queue_wf_delete split: prod.splits)

lemma ty_processQueueEntry: "ty None [] (\<lambda>_. True) (processQueueEntryP api cs e)"
  unfolding processQueueEntryP_def processEntryP_def Let_def
  by (auto intro!: ty_intros ty_withSvc ty_seq [where P = "\<lambda>_. True"] ty_nodesForService split: prod.splits option.splits)

lemma ty_workerStep: "ty None [] (\<lambda>_. True) (workerStepP api cs)"
  unfolding workerStepP_def finishEntryP_def Let_def
  by (auto intro!: ty_intros ty_seq [where P = "\<lambda>_. True"] ty_pop ty_attempt [where P = "\<lambda>_. True"] ty_processQueueEntry
      ty_pushWithBackoff split: option.splits sum.splits)

subsection \<open>Handlers\<close>

lemma ty_UpdateLoadBalancer: "ty None [] (\<lambda>_. True) (UpdateLoadBalancerP api cs svc ns)"
  unfolding UpdateLoadBalancerP_def
  by (auto intro!: ty_intros ty_seq [where P = "\<lambda>_. True"] ty_updateNodes ty_push simp: entry_wf_def split: option.splits)

lemma ty_reading_handlers: "ty None [] (\<lambda>_. True) (GetLoadBalancerP api cs svc)"
  "ty None [] (\<lambda>_. True) (EnsureLoadBalancerDeletedP api cs svc)"
  unfolding GetLoadBalancerP_def EnsureLoadBalancerDeletedP_def
  by (auto intro!: ty_intros ty_withSvc split: option.splits)

lemma ty_findForEnsure: "ty sk [] (\<lambda>_. True) (findForEnsureP api cs svc ns)"
  unfolding findForEnsureP_def idsForServiceP_def
  by (auto intro!: ty_intros ty_seq [where P = "\<lambda>_. True"] ty_updateNodes ty_nodesForService)

lemma ty_ensureLocked: "ty sk [] (\<lambda>_. True) (ensureLockedP api cs svc ns)"
  unfolding ensureLockedP_def
proof (rule ty_seq [OF ty_findForEnsure])
  fix lb
  have push: "ty sk [] (\<lambda>_. True) (pushP cs \<lparr>qe_service = lb_service lb2, qe_lb = Some lb2, updatePool = True, start = n, backoffUntil = b\<rparr>)"
    if "lb_rule lb2 \<noteq> None" for lb2 n b
    using that by (intro ty_push) (simp add: entry_wf_def)
  show "ty sk [] (\<lambda>_. True) (case shouldManageLB lb of
      Some err \<Rightarrow> throwP err
    | None \<Rightarrow> seqP (atomP (ensureIP api cs lb)) (\<lambda>lb1.
        seqP (atomP (ensureRule api cs lb1)) (\<lambda>lb2.
        seqP (atomP (local_io (time_Now api))) (\<lambda>now.
        seqP (pushP cs \<lparr>qe_service = lb_service lb2, qe_lb = Some lb2, updatePool = True, start = now, backoffUntil = zeroTime\<rparr>) (\<lambda>_.
        retP (lbStatus lb1))))))"
    by (auto intro!: ty_intros ty_seq [OF ty_ensureIP] ty_seq [OF ty_ensureRule] ty_seq [OF ty_local(1)] ty_seq [OF push]
        split: option.splits)
qed

lemma ty_EnsureLoadBalancer: "ty None [] (\<lambda>_. True) (EnsureLoadBalancerP api cs svc ns)"
  unfolding EnsureLoadBalancerP_def by (auto intro!: ty_intros ty_withSvc ty_ensureLocked split: option.splits)

lemma ty_discard: "ty sk H P p \<Longrightarrow> ty sk H (\<lambda>_. True) (discard p)"
  unfolding discard_def by (auto intro!: ty_seq ty_ret)

lemma program_typed: "typed0 None [] (program api cs op)"
proof -
  have "ty None [] (\<lambda>_. True) (program api cs op)"
    by (cases op) (simp_all add: ty_discard [OF ty_reading_handlers(1)] ty_discard [OF ty_EnsureLoadBalancer] ty_UpdateLoadBalancer
      ty_reading_handlers ty_discard [OF ty_workerStep] ty_handleEndpoints)
  then show ?thesis by (rule typed_mono) simp
qed

interpretation provider_go: disciplined "\<lambda>p. \<exists>op. p = program api cs op"
  by unfold_locales (auto intro: program_typed)

end
