(* ===== verification/Alone.thy ===== *)
theory Alone
  imports Discipline
begin

text \<open>
  A program that runs alone does what the sequential model of its operation does.
\<close>

section \<open>Alone, they are the sequential operations\<close>

text \<open>
  \<open>does A p m\<close>: in a state in which the mutexes of \<open>A\<close> are free, the program \<open>p\<close> run alone returns what the
  sequential model \<open>m\<close> returns, with the same state unless it never returns; and \<open>m\<close> does not look at mutexes.
\<close>

definition mu_blind :: "(('w, 'x) csys_scheme, 'a) go \<Rightarrow> bool" where
  "mu_blind m \<longleftrightarrow> (\<forall>f. blind (queueMu_update f) m) \<and> (\<forall>f. blind (rwMu_update f) m)"

definition same_run :: "'a outcome \<times> 's \<Rightarrow> 'a outcome \<times> 's \<Rightarrow> bool" where
  "same_run x y \<longleftrightarrow> fst x = fst y \<and> (fst y \<noteq> Block \<longrightarrow> snd x = snd y)"

definition idle_rw :: "rwMutex" where
  "idle_rw = \<lparr>w_taken = False, readers = 0\<rparr>"

datatype need = NeedNone | NeedSvcNodes | NeedRW | NeedAll

fun free :: "need \<Rightarrow> ('w, 'x) csys_scheme \<Rightarrow> bool" where
  "free NeedNone s \<longleftrightarrow> True"
| "free NeedSvcNodes s \<longleftrightarrow> rwMu s SvcNodesMu = idle_rw"
| "free NeedRW s \<longleftrightarrow> rwMu s SvcNodesMu = idle_rw \<and> rwMu s NodesMu = idle_rw"
| "free NeedAll s \<longleftrightarrow> rwMu s SvcNodesMu = idle_rw \<and> rwMu s NodesMu = idle_rw \<and> \<not> queueMu s"

definition does :: "need \<Rightarrow> (('w, 'x) csys_scheme, 'a) prog \<Rightarrow> (('w, 'x) csys_scheme, 'a) go \<Rightarrow> bool" where
  "does A p m \<longleftrightarrow> (\<forall>s. free A s \<longrightarrow> same_run (run p s) (m s)) \<and> mu_blind m"

lemma mu_blind_fields:
  assumes "mu_blind m"
  shows "queueMu (snd (m s)) = queueMu s" "rwMu (snd (m s)) = rwMu s"
proof -
  have "m (queueMu_update (\<lambda>_. queueMu s) s) = apsnd (queueMu_update (\<lambda>_. queueMu s)) (m s)"
    "m (rwMu_update (\<lambda>_. rwMu s) s) = apsnd (rwMu_update (\<lambda>_. rwMu s)) (m s)"
    using assms by (simp_all only: mu_blind_def blind_def)
  then show "queueMu (snd (m s)) = queueMu s" "rwMu (snd (m s)) = rwMu s"
    by (cases "m s"; simp; metis csys.select_convs csys.surjective csys.update_convs)+
qed

lemma free_kept: "mu_blind m \<Longrightarrow> free A s \<Longrightarrow> free A (snd (m s))"
  using mu_blind_fields [of m s] by (cases A) auto

text \<open>\<open>safe p s\<close>: run alone from \<open>s\<close>, the program unlocks no mutex that is not locked.\<close>

primrec safe :: "(('w, 'x) csys_scheme, 'a) prog \<Rightarrow> ('w, 'x) csys_scheme \<Rightarrow> bool" where
  "safe (Fin r) = (\<lambda>s. True)"
| "safe (Act u c) = (\<lambda>s. safe (c s) (u s))"
| "safe (Mu op p) = (\<lambda>s. case mutex_op op s of Went t \<Rightarrow> safe p t | Waits \<Rightarrow> True | Fatal \<Rightarrow> False)"
| "safe (SvcLock key p) = (\<lambda>s. case lockService key s of (Ret _, t) \<Rightarrow> safe p t | _ \<Rightarrow> True)"
| "safe (SvcUnlock key p) = (\<lambda>s. case Unlock key (svcLock s) of Some l \<Rightarrow> safe p (s\<lparr>svcLock := l\<rparr>) | None \<Rightarrow> False)"
| "safe Spin = (\<lambda>s. True)"

lemma run_bindP:
  assumes "\<And>s. run (k Block) s = (Block, s)" "safe p s \<or> (\<forall>s. run (k (Panic fatal)) s = (Panic fatal, s))"
  shows "run (bindP p k) s = (case run p s of (r, t) \<Rightarrow> run (k r) t)"
  using assms by (induction p arbitrary: s) (auto split: lockRes.splits prod.splits outcome.splits option.splits)

lemma safe_bindP:
  "safe p s \<Longrightarrow> (\<And>r t. run p s = (r, t) \<Longrightarrow> r \<noteq> Block \<Longrightarrow> safe (k r) t) \<Longrightarrow> (\<And>s. safe (k Block) s) \<Longrightarrow> safe (bindP p k) s"
  by (induction p arbitrary: s) (auto split: lockRes.splits prod.splits outcome.splits option.splits)

lemma run_seqP: "run (seqP p f) = bind (run p) (\<lambda>a. run (f a))"
  by (rule ext) (auto simp: seqP_def run_bindP bind_def split: prod.splits outcome.splits)

lemma run_attemptP: "run (attemptP p) = attempt (run p)"
  by (rule ext) (auto simp: attemptP_def run_bindP attempt_def split: prod.splits outcome.splits)

lemma run_atomP: "run (atomP m) = m"
  by (rule ext) (auto simp: atomP_def finish_def prod_eq_iff split: outcome.splits)

definition does_safe :: "need \<Rightarrow> (('w, 'x) csys_scheme, 'a) prog \<Rightarrow> (('w, 'x) csys_scheme, 'a) go \<Rightarrow> bool" where
  "does_safe A p m \<longleftrightarrow> does A p m \<and> (\<forall>s. free A s \<longrightarrow> safe p s)"

lemma mu_blind_intros: "mu_blind (ret a)" "mu_blind (throw e)" "mu_blind m \<Longrightarrow> (\<And>a. mu_blind (k a)) \<Longrightarrow> mu_blind (bind m k)"
  "mu_blind m \<Longrightarrow> mu_blind (attempt m)"
  by (auto simp: mu_blind_def intro: blind_intros)

lemma does_atom: "mu_blind m \<Longrightarrow> does_safe A (atomP m) m"
  by (auto simp: does_safe_def does_def same_run_def run_atomP) (auto simp: atomP_def finish_def split: outcome.splits)

lemma does_pure: "does_safe A (retP a) (ret a)" "does_safe A (throwP e) (throw e)"
  by (auto simp: does_safe_def does_def same_run_def retP_def throwP_def ret_def throw_def
      intro: mu_blind_intros [unfolded ret_def throw_def])

lemma does_seq:
  fixes p :: "(('w, 'x) csys_scheme, 'a) prog"
  assumes p: "does A p m" and f: "\<And>a. does A (f a) (k a)"
  shows "does A (seqP p f) (bind m k)"
  unfolding does_def run_seqP
proof (intro conjI allI impI)
  show "mu_blind (bind m k)" using assms by (auto simp: does_def intro: mu_blind_intros)
  fix s :: "('w, 'x) csys_scheme"
  assume s: "free A s"
  have b: "mu_blind m" and r: "same_run (run p s) (m s)" using p s by (auto simp: does_def)
  have "same_run (run (f a) t) (k a t)" if "m s = (Ret a, t)" for a t
    using f [of a] free_kept [OF b s] that by (simp add: does_def)
  then show "same_run (bind (run p) (\<lambda>a. run (f a)) s) (bind m k s)"
    using r by (cases "run p s"; cases "m s"; cases "fst (m s)") (auto simp: same_run_def bind_def)
qed

lemma does_seq_safe:
  fixes p :: "(('w, 'x) csys_scheme, 'a) prog"
  assumes p: "does_safe A p m" and f: "\<And>a. does_safe A (f a) (k a)"
  shows "does_safe A (seqP p f) (bind m k)"
  unfolding does_safe_def
proof (intro conjI allI impI)
  show "does A (seqP p f) (bind m k)" using assms by (auto simp: does_safe_def intro: does_seq)
  fix s :: "('w, 'x) csys_scheme"
  assume s: "free A s"
  have b: "mu_blind m" and r: "same_run (run p s) (m s)" using p s by (auto simp: does_def does_safe_def)
  show "safe (seqP p f) s"
    unfolding seqP_def
  proof (rule safe_bindP)
    show "safe p s" using p s by (simp add: does_safe_def)
    fix r t
    assume rt: "run p s = (r, t)" "r \<noteq> Block"
    then have "free A t" using r free_kept [OF b s] by (cases "m s") (auto simp: same_run_def)
    then show "safe (case r of Ret a \<Rightarrow> f a | Err e \<Rightarrow> Fin (Err e) | Panic x \<Rightarrow> Fin (Panic x) | Block \<Rightarrow> Spin) t"
      using f by (auto simp: does_safe_def split: outcome.splits)
  qed simp
qed

lemma same_run_attempt: "same_run (m1 s) (m2 s) \<Longrightarrow> same_run (attempt m1 s) (attempt m2 s)"
  by (cases "m1 s"; cases "m2 s"; cases "fst (m2 s)") (auto simp: same_run_def attempt_def)

lemma does_attempt: "does A p m \<Longrightarrow> does A (attemptP p) (attempt m)"
  unfolding does_def run_attemptP by (auto intro: same_run_attempt mu_blind_intros)

text \<open>A lock around a program that does not look at it: taken, kept while the program runs, and given back.\<close>

lemma does_defer:
  assumes p: "does_safe A p m" and s: "free A (g s)" and blind: "blind g m"
    and given: "\<And>t. queueMu t = queueMu s \<Longrightarrow> rwMu t = rwMu s \<Longrightarrow> mutex_op op (g t) = Went t"
  shows "same_run (run (deferP (Mu op) p) (g s)) (m s) \<and> safe (deferP (Mu op) p) (g s)"
proof -
  obtain r t where m: "m s = (r, t)" by fastforce
  have mg: "m (g s) = (r, g t)" using blind m by (simp add: blind_def)
  have ok: "safe p (g s)" "same_run (run p (g s)) (r, g t)" "mu_blind m"
    using p s mg by (auto simp: does_safe_def does_def)
  have bk: "mutex_op op (g t) = Went t" using mu_blind_fields [OF ok(3), of s] m by (intro given) auto
  have "run (deferP (Mu op) p) (g s) = (case run p (g s) of (r, u) \<Rightarrow> run (case r of Block \<Rightarrow> Spin | _ \<Rightarrow> Mu op (Fin r)) u)"
    unfolding deferP_def using ok(1) by (subst run_bindP) auto
  then have "same_run (run (deferP (Mu op) p) (g s)) (r, t)"
    using ok(2) bk by (cases "run p (g s)"; cases r) (auto simp: same_run_def)
  moreover have "safe (deferP (Mu op) p) (g s)"
    unfolding deferP_def using ok bk
    by (intro safe_bindP) (auto simp: same_run_def split: outcome.splits lockRes.splits)
  ultimately show ?thesis by (simp add: m)
qed

lemma does_withQueueMu:
  assumes "does_safe NeedRW p m"
  shows "does_safe NeedAll (withQueueMu p) m"
proof -
  have b: "mu_blind m" using assms by (simp add: does_safe_def does_def)
  have "same_run (run (withQueueMu p) s) (m s) \<and> safe (withQueueMu p) s" if "free NeedAll s" for s
    using that does_defer [OF assms, of "queueMu_update (\<lambda>_. True)" s QUnlock] b
    by (simp add: withQueueMu_def mu_blind_def)
  with b show ?thesis by (simp add: does_safe_def does_def)
qed

fun beyond :: "rw \<Rightarrow> need" where
  "beyond NodesMu = NeedSvcNodes"
| "beyond SvcNodesMu = NeedNone"

fun upwards :: "rw \<Rightarrow> need" where
  "upwards NodesMu = NeedRW"
| "upwards SvcNodesMu = NeedSvcNodes"

lemma setRW_twice [simp]: "setRW n x (setRW n y s) = setRW n x s"
  by (simp add: setRW_def comp_def)

lemma setRW_same: "rwMu s n = x \<Longrightarrow> setRW n x s = s"
  by (cases s) (auto simp: setRW_def)

lemma rwMu_setRW [simp]: "rwMu (setRW n x s) = (rwMu s)(n := x)"
  by (simp add: setRW_def)

lemma blind_setRW: "mu_blind m \<Longrightarrow> blind (setRW n x) m"
  by (simp add: mu_blind_def setRW_def)

lemma free_from: "free (upwards n) s \<Longrightarrow> rwMu s n = idle_rw \<and> free (beyond n) (setRW n x s)"
  by (cases n) (auto simp: setRW_def)

lemma does_withRLock:
  assumes "does_safe (beyond n) p m"
  shows "does_safe (upwards n) (withRLock n p) m"
proof -
  let ?x = "\<lparr>w_taken = False, readers = 1\<rparr>"
  have b: "mu_blind m" using assms by (simp add: does_safe_def does_def)
  have "same_run (run (withRLock n p) s) (m s) \<and> safe (withRLock n p) s" if "free (upwards n) s" for s
  proof -
    have "same_run (run (deferP (Mu (RUnlock n)) p) (setRW n ?x s)) (m s) \<and> safe (deferP (Mu (RUnlock n)) p) (setRW n ?x s)"
      using free_from [OF that] by (intro does_defer [OF assms]) (auto simp: blind_setRW b setRW_same idle_rw_def)
    then show ?thesis using free_from [OF that] by (simp add: withRLock_def idle_rw_def)
  qed
  with b show ?thesis by (simp add: does_safe_def does_def)
qed

lemma does_withWLock:
  assumes "does_safe (beyond n) p m"
  shows "does_safe (upwards n) (withWLock n p) m"
proof -
  let ?x = "\<lparr>w_taken = True, readers = 0\<rparr>"
  have b: "mu_blind m" using assms by (simp add: does_safe_def does_def)
  have "same_run (run (withWLock n p) s) (m s) \<and> safe (withWLock n p) s" if "free (upwards n) s" for s
  proof -
    have "same_run (run (deferP (Mu (WUnlock n)) p) (setRW n ?x s)) (m s) \<and> safe (deferP (Mu (WUnlock n)) p) (setRW n ?x s)"
      using free_from [OF that] by (intro does_defer [OF assms]) (auto simp: blind_setRW b setRW_same idle_rw_def)
    then show ?thesis using free_from [OF that] by (simp add: withWLock_def idle_rw_def)
  qed
  with b show ?thesis by (simp add: does_safe_def does_def)
qed

lemma does_weaken: "does_safe A p m \<Longrightarrow> (\<And>s :: ('w, 'x) csys_scheme. free B s \<Longrightarrow> free A s) \<Longrightarrow>
    does_safe B (p :: (('w, 'x) csys_scheme, 'a) prog) m"
  by (auto simp: does_safe_def does_def)

lemma blind_withLock:
  assumes m: "blind g m" and g: "\<And>s. svcLock (g s) = svcLock s" "\<And>s l. g (s\<lparr>svcLock := l\<rparr>) = (g s)\<lparr>svcLock := l\<rparr>"
  shows "blind g (withLock k m)"
  unfolding withLock_def
proof (rule blind_bind)
  show "blind g (lockService k)"
    by (auto simp: blind_def lockService_def g split: prod.splits option.splits)
  show "blind g (\<lambda>s. case m s of (Block, t) \<Rightarrow> (Block, t)
    | (r, t) \<Rightarrow> (case Unlock k (svcLock t) of
         Some l \<Rightarrow> (r, t\<lparr>svcLock := l\<rparr>)
       | None \<Rightarrow> (Panic ''fatal error: sync: unlock of unlocked mutex'', t)))"
    using m by (auto simp: blind_def g split: prod.splits outcome.splits option.splits)
qed

lemma mu_blind_withLock: "mu_blind m \<Longrightarrow> mu_blind (withLock k m)"
  by (simp add: mu_blind_def blind_withLock)

lemma does_withSvc:
  fixes p :: "(('w, 'x) csys_scheme, 'a) prog"
  assumes p: "does_safe A p m"
  shows "does A (withSvc k p) (withLock k m)"
  unfolding does_def
proof (intro conjI allI impI)
  show "mu_blind (withLock k m)" using p by (simp add: does_safe_def does_def mu_blind_withLock)
  fix s :: "('w, 'x) csys_scheme"
  assume s: "free A s"
  show "same_run (run (withSvc k p) s) (withLock k m s)"
  proof (cases "lockService k s")
    case (Pair r t)
    then have r: "r = Ret () \<or> r = Block" and t: "t = s\<lparr>svcLock := svcLock t\<rparr>"
      by (auto simp: lockService_def split: prod.splits option.splits)
    have "free A t" using s by (subst t) (cases A; simp)
    then have ok: "safe p t" "same_run (run p t) (m t)" using p by (auto simp: does_safe_def does_def)
    have "run (deferP (SvcUnlock k) p) t = (case run p t of (r, u) \<Rightarrow> run (case r of Block \<Rightarrow> Spin | _ \<Rightarrow> SvcUnlock k (Fin r)) u)"
      unfolding deferP_def using ok(1) by (subst run_bindP) auto
    then show ?thesis
      using ok(2) r Pair
      by (cases "run p t"; cases "m t"; cases "fst (m t)")
        (auto simp: same_run_def withSvc_def withLock_def bind_def fatal_def split: option.splits)
  qed
qed

subsection \<open>Operation by operation\<close>

lemma mu_blind_inner: "(\<And>g. inner_update g \<Longrightarrow> blind g m) \<Longrightarrow> mu_blind m"
  unfolding mu_blind_def using queueMu_part.inner_update_axioms rwMu_part.inner_update_axioms by blast

lemma mu_blind_gets: "(\<And>s f. h (queueMu_update f s) = h s) \<Longrightarrow> (\<And>s f. h (rwMu_update f s) = h s) \<Longrightarrow> mu_blind (gets h)"
  by (auto simp: mu_blind_def intro: blind_gets)

lemma mu_blind_modify: "(\<And>s f. h (queueMu_update f s) = queueMu_update f (h s)) \<Longrightarrow>
    (\<And>s f. h (rwMu_update f s) = rwMu_update f (h s)) \<Longrightarrow> mu_blind (modify h)"
  by (auto simp: mu_blind_def intro: blind_modify)

lemma mu_blind_lift: "mu_blind (lift_sum x)"
  by (auto simp: mu_blind_def intro: blind_intros)

lemmas does_locks = does_withQueueMu does_withRLock [of NodesMu, simplified] does_withRLock [of SvcNodesMu, simplified]
  does_withWLock [of NodesMu, simplified] does_withWLock [of SvcNodesMu, simplified]

lemma does_nodesForService:
  "does_safe NeedRW (nodesForServiceP cs svc) (bind (gets registry) (\<lambda>reg. lift_sum (nodesForService cs reg svc)))"
proof -
  have eq: "bind (gets registry) (\<lambda>reg. lift_sum (nodesForService cs reg svc))
      = bind (gets (\<lambda>s. nodesForService cs (registry s) svc)) lift_sum"
    by (auto simp: bind_def gets_def)
  show ?thesis unfolding nodesForServiceP_def eq
    by (auto intro!: does_locks does_atom mu_blind_intros mu_blind_gets mu_blind_lift)
qed

lemma does_nodesContaining: "does_safe NeedRW (nodesContainingServiceP key) (gets (\<lambda>s. nodesContainingService (registry s) key))"
  unfolding nodesContainingServiceP_def
  by (auto intro!: does_locks does_atom mu_blind_gets)

lemma does_updateNodes: "does_safe NeedRW (updateNodesP api cs ns) (updateNodes api cs ns)"
proof (cases "ns = []")
  case True
  then show ?thesis by (simp add: updateNodesP_def updateNodes_def does_pure)
next
  case False
  have node: "mu_blind (updateNode api cs n)" for n
    unfolding mu_blind_def by (auto intro!: blind_updateNode foreign.intros)
  have each: "does_safe NeedSvcNodes (foreachP xs (\<lambda>n. atomP (updateNode api cs n))) (foreach xs (updateNode api cs))" for xs
    by (induction xs) (auto intro!: does_pure does_seq_safe does_atom node)
  have eq: "bind (gets registry) (\<lambda>r. if length (nodes r) = 0 then throw e else ret ())
      = bind (gets (\<lambda>s. nodes (registry s))) (\<lambda>m. if length m = 0 then throw e else ret ())" for e
    by (auto simp: bind_def gets_def)
  show ?thesis
    unfolding updateNodesP_def updateNodes_def eq using False
    by (auto intro!: does_locks does_seq_safe each does_atom does_pure mu_blind_gets mu_blind_modify)
qed

lemma push_parts: "push cs e = bind (mergeEntryIO e) (\<lambda>found. if found then ret () else
    bind (bind (gets registry) (\<lambda>reg. lift_sum (nodesForService cs reg (Some (qe_service e))))) (\<lambda>_.
    modify (queue_update (AList.update (svcKey (qe_service e)) e))))"
  by (rule ext) (auto simp: push_def mergeEntryIO_def bind_def gets_def modify_def ret_def Let_def split: option.splits)

lemma does_push: "does_safe NeedAll (pushP cs e) (push cs e)"
proof -
  have merge: "mu_blind (mergeEntryIO e)"
    by (auto simp: mergeEntryIO_def Let_def mu_blind_def intro!: blind_gets blind_intros blind_modify split: option.splits)
  show ?thesis unfolding pushP_def push_parts
    by (auto simp del: bind_assoc intro!: does_locks does_seq_safe does_atom does_pure merge does_nodesForService mu_blind_modify)
qed

lemma extend_Cons: "gets (\<lambda>s. extendEntries (registry s) (ke # q)) =
    bind (bind (gets (\<lambda>s. nodesContainingService (registry s) (fst ke))) (\<lambda>ns. ret \<lparr>ext_entry = snd ke, topRevision = topRevisionOf ns\<rparr>)) (\<lambda>y.
    bind (gets (\<lambda>s. extendEntries (registry s) q)) (\<lambda>ys. ret (y # ys)))"
  by (rule ext) (simp add: bind_def gets_def ret_def extendEntries_def split_def)

lemma does_extendEntry: "does_safe NeedRW (extendEntryP ke)
    (bind (gets (\<lambda>s. nodesContainingService (registry s) (fst ke))) (\<lambda>ns. ret \<lparr>ext_entry = snd ke, topRevision = topRevisionOf ns\<rparr>))"
  unfolding extendEntryP_def by (auto simp: split_def intro!: does_seq_safe does_nodesContaining does_pure)

lemma does_extend: "does_safe NeedRW (mapP q extendEntryP) (gets (\<lambda>s. extendEntries (registry s) q))"
proof (induction q)
  case Nil
  show ?case using does_pure(1) [of NeedRW "[]"] by (simp add: extendEntries_def gets_def ret_def)
next
  case (Cons ke q)
  then show ?case unfolding mapP.simps extend_Cons by (intro does_seq_safe does_extendEntry does_pure)
qed

lemma does_pop: "does_safe NeedAll (popP api) (pop api)"
proof -
  have eq: "pop api = bind (gets queue) (\<lambda>q. bind (gets (\<lambda>s. extendEntries (registry s) q)) (\<lambda>entries.
      if length entries = 0 then ret None
      else bind (local_io (time_Now api)) (\<lambda>now.
          let entry = ext_entry (sortBy (Less now) entries ! 0) in
          if backoffUntil entry > now then ret None
          else bind (modify (queue_update (AList.delete (svcKey (qe_service entry))))) (\<lambda>_. ret (Some entry)))))"
    by (rule ext) (simp add: pop_def bind_def gets_def Let_def)
  show ?thesis unfolding popP_def eq Let_def
    by (auto intro!: does_locks does_seq_safe does_atom does_pure does_extend mu_blind_gets mu_blind_modify
        mu_blind_inner [OF inner_update.blind_world(3)])
qed

lemma does_run: "does_safe A p m \<Longrightarrow> does A p m"
  by (simp add: does_safe_def)

lemma does_wide: "does_safe NeedRW p m \<Longrightarrow> does_safe NeedAll p m"
  by (rule does_weaken) auto

lemma mu_blind_outside: "mu_blind (getLoadBalancer api cs svc p ns)" "mu_blind (setProjectLabel api cs lb)" "mu_blind (ensureIP api cs lb)"
  "mu_blind (ensureRule api cs lb)" "mu_blind (syncNodes api cs lb hosts ns)" "mu_blind (updateLoadBalancerPool api cs lb)"
  "mu_blind (deleteLoadBalancerRule api cs lb)" "mu_blind (releaseIPIfManaged api cs lb ip svc)"
  "mu_blind (local_io f)" "mu_blind (local_do h)" "mu_blind (event_io c h)"
  by (auto intro!: mu_blind_inner inner_update.blind_getLoadBalancer inner_update.blind_setProjectLabel inner_update.blind_ensureIP
      inner_update.blind_ensureRule inner_update.blind_rule_ops inner_update.blind_release inner_update.blind_world)

lemmas does_rules = does_seq_safe does_atom does_pure mu_blind_outside mu_blind_lift does_push does_pop
  does_wide [OF does_nodesForService] does_wide [OF does_updateNodes]

lemma does_pushWithBackoff: "does_safe NeedAll (pushWithBackoffP api cs e) (pushWithBackoff api cs e)"
  unfolding pushWithBackoffP_def pushWithBackoff_def by (auto intro!: does_rules)

lemma does_processEntry: "does_safe NeedAll (processEntryP api cs e) (processEntry api cs e)"
proof -
  have eq: "processEntry api cs e = bind (bind (gets registry) (\<lambda>reg. lift_sum (nodesForService cs reg (Some (qe_service e))))) (\<lambda>ns.
      let (hostIDs, networkIDs, projectID) = idsForNodes ns in
      bind (case qe_lb e of
          Some lb \<Rightarrow> ret (Some lb)
        | None \<Rightarrow>
            bind (getLoadBalancer api cs (qe_service e) projectID networkIDs) (\<lambda>lb.
              if lb_rule lb = None then ret None
              else if shouldManageLB lb \<noteq> None then ret None
              else ret (Some lb))) (\<lambda>found.
        case found of
          None \<Rightarrow> ret ()
        | Some lb \<Rightarrow>
            bind (syncNodes api cs lb hostIDs networkIDs) (\<lambda>_.
            if updatePool e then updateLoadBalancerPool api cs lb else ret ())))"
    by (simp add: processEntry_def)
  show ?thesis unfolding processEntryP_def eq
    by (auto simp del: bind_assoc bind_ret simp: Let_def split_def intro!: does_rules split: option.splits)
qed

lemma does_finishEntry: "does NeedAll (finishEntryP api cs e r) (finishEntry api cs e r)"
  unfolding finishEntryP_def finishEntry_def Let_def
  by (auto intro!: does_seq does_attempt does_run [OF does_pushWithBackoff] does_run [OF does_atom] does_run [OF does_pure(1)]
      mu_blind_outside split: sum.splits)

lemma does_workerStep: "does NeedAll (workerStepP api cs) (workerStep api cs)"
  unfolding workerStepP_def workerStep_def processQueueEntryP_def processQueueEntry_def
  by (auto intro!: does_seq does_attempt does_run [OF does_pop] does_withSvc [OF does_processEntry] does_finishEntry
      does_run [OF does_pure(1)] split: option.splits)

lemma does_findForEnsure: "does_safe NeedAll (findForEnsureP api cs svc ns) (findForEnsure api cs svc ns)"
proof -
  have ids: "bind (gets registry) (\<lambda>reg. bind (lift_sum (idsForService cs reg svc')) k)
      = bind (bind (bind (gets registry) (\<lambda>reg. lift_sum (nodesForService cs reg svc'))) (\<lambda>ns. ret (idsForNodes ns))) k" for svc' k
    by (rule ext) (auto simp: idsForService_def bind_def gets_def lift_sum_def throw_def ret_def split: sum.splits)
  show ?thesis
    unfolding findForEnsureP_def findForEnsure_def idsForServiceP_def ids
    by (auto simp del: bind_assoc intro!: does_rules)
qed

lemma does_handlers:
  "does NeedAll (GetLoadBalancerP api cs svc) (GetLoadBalancer api cs svc)"
  "does NeedAll (EnsureLoadBalancerP api cs svc ns) (EnsureLoadBalancer api cs svc ns)"
  "does NeedAll (UpdateLoadBalancerP api cs svc ns) (UpdateLoadBalancer api cs svc ns)"
  "does NeedAll (EnsureLoadBalancerDeletedP api cs svc) (EnsureLoadBalancerDeleted api cs svc)"
proof -
  have locked: "mu_blind (getLocked api cs svc)" "mu_blind (deleteLocked api cs svc)" for svc
    unfolding getLocked_def deleteLocked_def by (auto intro!: mu_blind_intros mu_blind_outside)
  show "does NeedAll (GetLoadBalancerP api cs svc) (GetLoadBalancer api cs svc)"
    "does NeedAll (EnsureLoadBalancerDeletedP api cs svc) (EnsureLoadBalancerDeleted api cs svc)"
    unfolding GetLoadBalancerP_def GetLoadBalancer_def EnsureLoadBalancerDeletedP_def EnsureLoadBalancerDeleted_def
    by (auto intro!: does_withSvc does_atom locked does_run [OF does_pure(2)] split: option.splits)
  show "does NeedAll (UpdateLoadBalancerP api cs svc ns) (UpdateLoadBalancer api cs svc ns)"
    unfolding UpdateLoadBalancerP_def UpdateLoadBalancer_def
    by (auto intro!: does_run does_rules split: option.splits)
  have "does_safe NeedAll (ensureLockedP api cs svc ns) (ensureLocked api cs svc ns)" for svc
    unfolding ensureLockedP_def ensureLocked_def
    by (auto intro!: does_rules does_findForEnsure split: option.splits)
  then show "does NeedAll (EnsureLoadBalancerP api cs svc ns) (EnsureLoadBalancer api cs svc ns)"
    unfolding EnsureLoadBalancerP_def EnsureLoadBalancer_def
    by (auto intro!: does_withSvc does_run [OF does_pure(2)] split: option.splits)
qed

lemma does_endpoints:
  "does_safe NeedAll (updateEndpointsNodesP ep) (modify (registry_update (updateEndpointsNodes ep)))"
  "does_safe NeedAll (deleteEndpointsNodesP ep) (modify (registry_update (deleteEndpointsNodes ep)))"
  by (rule does_weaken [of NeedSvcNodes];
      auto simp: updateEndpointsNodesP_def deleteEndpointsNodesP_def intro!: does_locks does_atom mu_blind_modify)+

lemma registry_same [simp]: "registry_update (\<lambda>r. r) s = s"
  by (cases s) simp

lemma handleEndpoints_eta:
  "handleEndpoints (AddFunc obj) = (case obj of EndpointsObj ep \<Rightarrow> updateEndpointsNodes ep | _ \<Rightarrow> (\<lambda>r. r))"
  "handleEndpoints (UpdateFunc old obj) = (case obj of EndpointsObj ep \<Rightarrow> updateEndpointsNodes ep | _ \<Rightarrow> (\<lambda>r. r))"
  "handleEndpoints (DeleteFunc obj) = (case obj of EndpointsObj ep \<Rightarrow> deleteEndpointsNodes ep
     | DeletedFinalStateUnknown (EndpointsObj ep) \<Rightarrow> deleteEndpointsNodes ep | _ \<Rightarrow> (\<lambda>r. r))"
  by (rule ext; simp split: informerObj.split)+

lemma does_nothing: "does_safe A (retP ()) (modify (registry_update (\<lambda>r. r)))"
  using does_pure(1) [of A "()"] by (simp add: modify_def ret_def)

lemma does_handleEndpoints: "does_safe NeedAll (handleEndpointsP ev) (modify (registry_update (handleEndpoints ev)))"
  by (cases ev) (auto simp: handleEndpoints_eta intro!: does_endpoints does_nothing split: informerObj.split)

lemma does_program: "does NeedAll (program api cs op) (sequential api cs op)"
  by (cases op) (auto simp: discard_def intro!: does_seq does_handlers does_workerStep does_run [OF does_pure(1)]
      does_run [OF does_handleEndpoints])

end
