(* ===== verification/Scheduling.thy ===== *)
theory Scheduling
  imports Goroutines
begin

text \<open>
  What schedules can do with goroutines that keep the lock discipline: some goroutine can always take a step until all
  have ended, no schedule goes on for ever unless a goroutine spins, and the run of a goroutine alone is one of them.
\<close>

section \<open>Progress\<close>

text \<open>How high in the lock order a goroutine waits.\<close>

fun op_rank :: "lockOp \<Rightarrow> nat" where
  "op_rank QLock = 2"
| "op_rank (RLock n) = 2 * rw_level n"
| "op_rank (WLock n) = 2 * rw_level n"
| "op_rank (WDrain n) = 2 * rw_level n + 1"
| "op_rank _ = 0"

lemma rw_level_le: "rw_level n \<le> 3"
  by (cases n) auto

lemma op_rank_le: "op_rank op \<le> 7"
  using rw_level_le [of "case op of RLock n \<Rightarrow> n | WLock n \<Rightarrow> n | WDrain n \<Rightarrow> n | _ \<Rightarrow> NodesMu"] by (cases op) auto

text \<open>Who holds a lock only waits for locks further up.\<close>

lemma holder_rank:
  assumes "typed0 sk H (Mu op p)" "sorted_wrt (\<lambda>h h'. level h' < level h) H" "h \<in> set H" "mutex_op op s = Waits"
  shows "op_rank op > 2 * level h" "op_rank op > 2 * level h + 1 \<or> (\<forall>n. h \<noteq> HR n)"
  using assms by (cases op; fastforce simp: typed_Mu split: if_splits)+

text \<open>A goroutine that waits for a mutex waits for another one that holds it.\<close>

lemma waits_for:
  assumes ok: "mutex_ok s gs" and w: "mutex_op op s = Waits"
  shows "\<exists>g \<in> set gs. \<exists>h \<in> set (held g). op_rank op \<le> 2 * level h \<or> op_rank op = 2 * level h + 1 \<and> (\<exists>n. h = HR n)"
proof -
  have writer: "\<exists>g \<in> set gs. \<exists>h \<in> set (held g). 2 * rw_level n \<le> 2 * level h" if "w_taken (rwMu s n)" for n
  proof -
    have "cnt (HA n) gs + cnt (HW n) gs = 1" using ok that by (simp add: mutex_ok_def)
    then have "0 < cnt (HA n) gs \<or> 0 < cnt (HW n) gs" by linarith
    then show ?thesis using cnt_holder [of "HA n" gs] cnt_holder [of "HW n" gs] by (metis level.simps(3,4) order_refl)
  qed
  show ?thesis
  proof (cases op)
    case QLock
    with w ok have "0 < cnt HQ gs" by (auto simp: mutex_ok_def split: if_splits)
    with cnt_holder [of HQ gs] QLock show ?thesis by force
  next
    case (RLock n)
    with w have "w_taken (rwMu s n)" by (simp split: if_splits)
    from writer [OF this] RLock show ?thesis by auto
  next
    case (WLock n)
    with w have "w_taken (rwMu s n)" by (simp split: if_splits)
    from writer [OF this] WLock show ?thesis by auto
  next
    case (WDrain n)
    with w ok have "0 < cnt (HR n) gs" by (auto simp: mutex_ok_def split: if_splits)
    with cnt_holder [of "HR n" gs] WDrain show ?thesis by force
  qed (use w in \<open>auto split: if_splits\<close>)
qed

lemma mutex_progress:
  assumes inv: "go_inv S"
  shows "i < length (gos S) \<Longrightarrow> code (gos S ! i) = Mu op p \<Longrightarrow> \<exists>j S'. go_step j S S'"
proof (induction "8 - op_rank op" arbitrary: i op p rule: less_induct)
  case less
  show ?case
  proof (cases "mutex_op op (shared S)")
    case (Went t)
    then show ?thesis using go_step.mutex less.prems by blast
  next
    case Fatal
    then show ?thesis using mutex_held(1) [OF inv less.prems] by simp
  next
    case Waits
    have "mutex_ok (shared S) (gos S)" using inv by (simp add: go_inv_def)
    from waits_for [OF this Waits] obtain j h where j: "j < length (gos S)" "h \<in> set (held (gos S ! j))"
      and h: "op_rank op \<le> 2 * level h \<or> op_rank op = 2 * level h + 1 \<and> (\<exists>n. h = HR n)"
      by (metis in_set_conv_nth)
    note D = goodD [OF go_inv_good [OF inv j(1)]]
    show ?thesis
    proof (cases "code (gos S ! j)")
      case (Mu op' p')
      show ?thesis
      proof (cases "mutex_op op' (shared S)")
        case (Went t)
        then show ?thesis using go_step.mutex j(1) Mu by blast
      next
        case Fatal
        then show ?thesis using mutex_held(1) [OF inv j(1) Mu] by simp
      next
        case Waits
        have "op_rank op < op_rank op'"
          using holder_rank [OF _ D(2) j(2) Waits] D(1) h unfolding Mu by fastforce
        then have "8 - op_rank op' < 8 - op_rank op" using op_rank_le [of op'] by simp
        from less.hyps [OF this j(1) Mu] show ?thesis .
      qed
    qed (use D(1) j in \<open>auto intro: go_step.act go_step.spin\<close>)
  qed
qed

text \<open>
  A system in which some goroutine has not finished can go on: nobody waits for a mutex or a service in a circle.
\<close>

lemma code_progress:
  assumes inv: "go_inv S" and i: "i < length (gos S)" "\<And>r. code (gos S ! i) \<noteq> Fin r" "\<And>k p. code (gos S ! i) \<noteq> SvcLock k p"
  shows "\<exists>j S'. go_step j S S'"
proof (cases "code (gos S ! i)")
  case (Act u c)
  then show ?thesis using go_step.act i by blast
next
  case (Mu op p)
  then show ?thesis using mutex_progress [OF inv i(1)] by blast
next
  case (SvcUnlock k p)
  then show ?thesis using unlock_held(2) [OF inv i(1)] go_step.release i by blast
next
  case Spin
  then show ?thesis using go_step.spin i by blast
qed (use i in auto)

lemma go_progress:
  assumes inv: "go_inv S" and i: "i < length (gos S)" "\<And>r. code (gos S ! i) \<noteq> Fin r"
  shows "\<exists>j S'. go_step j S S'"
proof (cases "\<exists>k p. code (gos S ! i) = SvcLock k p")
  case False
  then show ?thesis using code_progress [OF inv i] by blast
next
  case True
  then obtain k p where code: "code (gos S ! i) = SvcLock k p" by blast
  show ?thesis
  proof (cases "gpc (gos S ! i)")
    case Idle
    then show ?thesis using go_step.enter [OF i(1) code Idle] by (metis surj_pair)
  next
    case (Holding k')
    then show ?thesis using goodD(1) [OF go_inv_good [OF inv i(1)]] code by auto
  next
    case (Waiting k' m)
    have view: "view_inv (map_of (inUse (svcLock (shared S)))) (heap (svcLock (shared S))) (map gpc (gos S))"
      using inv by (simp add: go_inv_def lock_inv_def)
    show ?thesis
    proof (cases "lock_acquire m (svcLock (shared S))")
      case (Some l)
      then show ?thesis using go_step.acquire [OF i(1) code Waiting] by blast
    next
      case None
      from waiting_holder [OF view _ _ None, of i k'] i(1) Waiting
      obtain j where j: "j < length (gos S)" "gpc (gos S ! j) = Holding k'" by auto
      from goodD(1) [OF go_inv_good [OF inv j(1)]] j(2)
      have "typed0 (Some k') (held (gos S ! j)) (code (gos S ! j))" by simp
      then have "code (gos S ! j) \<noteq> Fin r" "code (gos S ! j) \<noteq> SvcLock k2 p2" for r k2 p2 by (metis option.distinct(1) typed_FinE typed_SvcLockE)+
      then show ?thesis by (rule code_progress [OF inv j(1)])
    qed
  qed
qed

section \<open>Termination\<close>

text \<open>
  What one step does to the goroutine that takes it: it goes on to a continuation of its program, or starts to wait
  for a service. Unless a goroutine spins, a system with a fixed set of goroutines comes to an end.
\<close>

inductive sub :: "('s, 'a) prog \<Rightarrow> ('s, 'a) prog \<Rightarrow> bool" where
  "sub (c s) (Act u c)"
| "sub p (Mu op p)"
| "sub (Fin r) (Mu op p)"
| "sub p (SvcLock k p)"
| "sub p (SvcUnlock k p)"
| "sub (Fin r) (SvcUnlock k p)"

inductive_simps sub_simps: "sub q (Fin r)" "sub q (Act u c)" "sub q (Mu op p)" "sub q (SvcLock k p)" "sub q (SvcUnlock k p)" "sub q Spin"

lemma wfp_sub: "wfp sub"
proof (rule accp_wfpI, rule allI)
  have fin: "Wellfounded.accp sub (Fin r)" for r by (rule accpI) (simp add: sub_simps)
  fix p
  show "Wellfounded.accp sub p"
    by (induction p) (rule accpI, auto simp: sub_simps fin)+
qed

inductive down :: "('s, 'a) goroutine \<Rightarrow> ('s, 'a) goroutine \<Rightarrow> bool" where
  "sub (code g) (code g') \<Longrightarrow> down g g'"
| "gpc g' = Idle \<Longrightarrow> down (g'\<lparr>gpc := Waiting k m\<rparr>) g'"

lemma wf_down: "wf {(g, g'). down g g'}"
proof -
  let ?f = "\<lambda>g. (code g, if gpc g = Idle then 1 else 0 :: nat)"
  have "wf (inv_image ({(p, q). sub p q} <*lex*> less_than) ?f)"
    using wfp_sub by (intro wf_inv_image wf_lex_prod) (auto simp: wfp_def)
  moreover have "{(g, g'). down g g'} \<subseteq> inv_image ({(p, q). sub p q} <*lex*> less_than) ?f"
    by (auto elim!: down.cases)
  ultimately show ?thesis by (rule wf_subset)
qed

lemma go_step_down:
  assumes "go_step i S S'" "code (gos S ! i) \<noteq> Spin"
  shows "i < length (gos S) \<and> (\<exists>g. gos S' = (gos S)[i := g] \<and> down g (gos S ! i))"
  using assms
proof (induction rule: go_step.induct)
  case (enter S k p m l)
  then show ?case using down.intros(2) by fastforce
qed (auto intro!: exI [where x = "_\<lparr>code := _\<rparr>"] exI down.intros(1) sub.intros)

definition no_spin :: "('s, 'a) gosys \<Rightarrow> bool" where
  "no_spin S \<longleftrightarrow> (\<forall>g \<in> set (gos S). code g \<noteq> Spin)"

lemma go_steps_end: "wf {(S', S :: (('w, 'x) csys_scheme, 'a) gosys). no_spin S \<and> (\<exists>i. go_step i S S')}"
proof (rule wf_subset [OF wf_inv_image [OF wf_listrel1_iff [THEN iffD2, OF wf_down], of gos]], safe)
  fix S S' :: "(('w, 'x) csys_scheme, 'a) gosys" and i
  assume "no_spin S" "go_step i S S'"
  then have "i < length (gos S)" "\<exists>g. gos S' = (gos S)[i := g] \<and> down g (gos S ! i)"
    using go_step_down [of i S S'] by (auto simp: no_spin_def elim: go_step.cases)
  then show "(S', S) \<in> inv_image (listrel1 {(g, g'). down g g'}) gos"
    by (auto simp: listrel1_iff_update intro!: exI [of _ "gos S ! i"] exI [of _ i])
qed

section \<open>A goroutine alone is one of the interleavings\<close>

abbreviation go_steps where
  "go_steps i \<equiv> (go_step i)\<^sup>*\<^sup>*"

definition ends_in :: "nat \<Rightarrow> ('w, 'x) csys_scheme \<Rightarrow> (('w, 'x) csys_scheme, 'a) goroutine list \<Rightarrow> 'a outcome
    \<Rightarrow> ('w, 'x) csys_scheme \<Rightarrow> bool" where
  "ends_in i s gs r t \<longleftrightarrow>
    (\<exists>c H. go_steps i \<lparr>shared = s, gos = gs\<rparr> \<lparr>shared = t, gos = gs[i := \<lparr>code = Fin r, gpc = c, held = H\<rparr>]\<rparr>)"

lemma ends_now: "gs ! i = \<lparr>code = Fin r, gpc = c, held = H\<rparr> \<Longrightarrow> ends_in i s gs r s"
  unfolding ends_in_def by (metis list_update_id rtranclp.rtrancl_refl)

lemma ends_step:
  assumes "go_step i \<lparr>shared = s, gos = gs\<rparr> \<lparr>shared = s1, gos = gs[i := g]\<rparr>" "ends_in i s1 (gs[i := g]) r t"
  shows "ends_in i s gs r t"
  using assms unfolding ends_in_def by (auto intro: converse_rtranclp_into_rtranclp)

lemma ends_fatal:
  assumes "go_step i \<lparr>shared = s, gos = gs\<rparr> \<lparr>shared = s, gos = gs[i := \<lparr>code = Fin r, gpc = c, held = H\<rparr>]\<rparr>" "i < length gs"
  shows "ends_in i s gs r s"
  using assms(2) by (intro ends_step [OF assms(1)] ends_now) simp

lemma run_steps:
  fixes p :: "(('w, 'x) csys_scheme, 'a) prog"
  assumes "run p s = (r, t)" "r \<noteq> Block" "i < length gs" "gs ! i = \<lparr>code = p, gpc = c, held = H\<rparr>"
    "\<And>k m. c \<noteq> Waiting k m" "typed0 (holding c) H p"
  shows "ends_in i s gs r t"
  using assms
proof (induction p arbitrary: s gs c H)
  case (Fin r')
  then show ?case by (auto intro: ends_now)
next
  case (Act u k)
  show ?case
  proof (rule ends_step)
    show "go_step i \<lparr>shared = s, gos = gs\<rparr> \<lparr>shared = u s, gos = gs[i := \<lparr>code = k s, gpc = c, held = H\<rparr>]\<rparr>"
      using go_step.act [of i "\<lparr>shared = s, gos = gs\<rparr>" u k] Act.prems by simp
    show "ends_in i (u s) (gs[i := \<lparr>code = k s, gpc = c, held = H\<rparr>]) r t"
      using Act.prems by (intro Act.IH [of "k s" "u s" _ c H]) auto
  qed
next
  case (Mu op p)
  show ?case
  proof (cases "mutex_op op s")
    case (Went s1)
    let ?g = "\<lparr>code = p, gpc = c, held = after op H\<rparr>"
    have "go_step i \<lparr>shared = s, gos = gs\<rparr> \<lparr>shared = s1, gos = gs[i := ?g]\<rparr>"
      using go_step.mutex [of i "\<lparr>shared = s, gos = gs\<rparr>" op p s1] Mu.prems Went by simp
    moreover have "typed0 (holding c) (after op H) p" using Mu.prems(6) by (cases op) (auto simp: typed_Mu)
    then have "ends_in i s1 (gs[i := ?g]) r t" using Mu.prems Went by (intro Mu.IH [of s1 _ c "after op H"]) auto
    ultimately show ?thesis by (rule ends_step)
  next
    case Fatal
    with Mu.prems go_step.mutex_fatal [of i "\<lparr>shared = s, gos = gs\<rparr>" op p] show ?thesis
      using ends_fatal [of i s gs r c H] by auto
  qed (use Mu.prems in auto)
next
  case (SvcLock k p)
  have c: "c = Idle" and H: "H = []" and ty: "typed0 (Some k) [] p" using SvcLock.prems(5,6) by (cases c; auto)+
  obtain m l where e: "lock_enter k (svcLock s) = (m, l)" by fastforce
  then obtain l1 where a: "lock_acquire m l = Some l1" and run: "run p (s\<lparr>svcLock := l1\<rparr>) = (r, t)"
    using SvcLock.prems(1,2) by (auto simp: lockService_def split: option.splits)
  let ?g1 = "\<lparr>code = SvcLock k p, gpc = Waiting k m, held = []\<rparr>" and ?g2 = "\<lparr>code = p, gpc = Holding k, held = []\<rparr>"
  have "go_step i \<lparr>shared = s, gos = gs\<rparr> \<lparr>shared = s\<lparr>svcLock := l\<rparr>, gos = gs[i := ?g1]\<rparr>"
    using go_step.enter [of i "\<lparr>shared = s, gos = gs\<rparr>" k p m l] SvcLock.prems c H e by simp
  moreover have "go_step i \<lparr>shared = s\<lparr>svcLock := l\<rparr>, gos = gs[i := ?g1]\<rparr> \<lparr>shared = s\<lparr>svcLock := l1\<rparr>, gos = gs[i := ?g1, i := ?g2]\<rparr>"
    using go_step.acquire [of i "\<lparr>shared = s\<lparr>svcLock := l\<rparr>, gos = gs[i := ?g1]\<rparr>" k p k m l1] SvcLock.prems a by simp
  moreover have "ends_in i (s\<lparr>svcLock := l1\<rparr>) (gs[i := ?g1, i := ?g2]) r t"
    using SvcLock.prems run ty by (intro SvcLock.IH [of _ _ "Holding k" "[]"]) auto
  ultimately show ?case by (blast intro: ends_step)
next
  case (SvcUnlock k p)
  have c: "c = Holding k" and H: "H = []" and ty: "typed0 None [] p" using SvcUnlock.prems(6) by (cases c; auto)+
  show ?case
  proof (cases "Unlock k (svcLock s)")
    case None
    with SvcUnlock.prems go_step.release_fatal [of i "\<lparr>shared = s, gos = gs\<rparr>" k p] show ?thesis
      using ends_fatal [of i s gs r c H] by auto
  next
    case (Some l)
    let ?g = "\<lparr>code = p, gpc = Idle, held = []\<rparr>"
    have "go_step i \<lparr>shared = s, gos = gs\<rparr> \<lparr>shared = s\<lparr>svcLock := l\<rparr>, gos = gs[i := ?g]\<rparr>"
      using go_step.release [of i "\<lparr>shared = s, gos = gs\<rparr>" k p l] SvcUnlock.prems H Some by simp
    moreover have "ends_in i (s\<lparr>svcLock := l\<rparr>) (gs[i := ?g]) r t"
      using SvcUnlock.prems ty Some by (intro SvcUnlock.IH [of _ _ Idle "[]"]) auto
    ultimately show ?thesis by (rule ends_step)
  qed
qed simp

end
