(* ===== verification/Concurrency.thy ===== *)
theory Concurrency
  imports Alone Scheduling
begin

text \<open>
  The provider with any number of its operations running at once: calls of the controller manager, events of the
  informer and looks of the workers at the queue, started at any time and interleaved in any way.
\<close>

section \<open>Exclusion\<close>

lemma cnt_two:
  assumes "i < length gs" "j < length gs" "i \<noteq> j"
  shows "count_list (held (gs ! i)) h + count_list (held (gs ! j)) h \<le> cnt h gs"
  using assms
proof (induction gs arbitrary: i j)
  case (Cons g gs)
  have "count_list (held (gs ! n)) h \<le> cnt h gs" if "n < length gs" for n using that by (intro cnt_le) simp
  with Cons show ?case by (cases i; cases j) (auto simp: cnt_def intro: trans_le_add2)
qed simp

text \<open>
  Who holds a lock that excludes others excludes them: two goroutines never both hold the queue's mutex, and nobody reads
  under a read-write mutex that another goroutine has locked for writing.
\<close>

lemma exclusive:
  assumes ok: "mutex_ok s gs" and ij: "i < length gs" "j < length gs" "i \<noteq> j"
  shows "HQ \<in> set (held (gs ! i)) \<Longrightarrow> HQ \<notin> set (held (gs ! j))"
    and "HW n \<in> set (held (gs ! i)) \<Longrightarrow> \<not> reading (held (gs ! j)) n"
proof -
  have pos: "0 < count_list (held (gs ! k)) h \<longleftrightarrow> h \<in> set (held (gs ! k))" for k h
    by (metis count_list_0_iff gr0I not_gr_zero)
  note two = cnt_two [OF ij]
  show "HQ \<notin> set (held (gs ! j))" if "HQ \<in> set (held (gs ! i))"
    using that two [of HQ] ok pos [of i HQ] pos [of j HQ] by (auto simp: mutex_ok_def split: if_splits)
  show "\<not> reading (held (gs ! j)) n" if w: "HW n \<in> set (held (gs ! i))"
  proof -
    have 1: "cnt (HA n) gs + cnt (HW n) gs \<le> 1" "0 < cnt (HW n) gs \<longrightarrow> cnt (HR n) gs = 0"
      using ok by (auto simp: mutex_ok_def split: if_splits)
    have 2: "0 < cnt (HW n) gs" using w ij by (intro cnt_pos [of "gs ! i"]) auto
    have "HR n \<notin> set (held (gs ! j))" using 1 2 cnt_pos [of "gs ! j" gs "HR n"] ij by auto
    moreover have "HW n \<notin> set (held (gs ! j))" using 1 two [of "HW n"] w pos [of i "HW n"] pos [of j "HW n"] by auto
    ultimately show ?thesis by (simp add: reading_def)
  qed
qed

abbreviation interleaved :: "'w api \<Rightarrow> CSCloud \<Rightarrow> (('w, 'x) csys_scheme, unit) gosys \<Rightarrow> bool" where
  "interleaved api cs \<equiv> reachable go_init (go_next (\<lambda>p. \<exists>op. p = program api cs op))"

section \<open>A sample system\<close>

definition freshGo :: "(unit csys, unit) gosys" where
  "freshGo = \<lparr>shared = \<lparr>world = (), trace = [], registry = newNodeRegistry, queue = [], svcLock = newServiceLock,
     queueMu = False, rwMu = \<lambda>_. idle_rw\<rparr>, gos = []\<rparr>"

abbreviation sampleProgram :: "operation \<Rightarrow> (unit csys, unit) prog" where
  "sampleProgram \<equiv> program sampleAPI sampleCloud"

abbreviation sampleStarted :: "operation list \<Rightarrow> (unit csys, unit) gosys" where
  "sampleStarted ops \<equiv> freshGo\<lparr>gos := map (\<lambda>op. newGo (sampleProgram op)) ops\<rparr>"

lemma freshGo_fields [simp]: "gos freshGo = []" "free NeedAll (shared freshGo)"
  by (simp_all add: freshGo_def)

lemma sampleStarted_reachable: "interleaved sampleAPI sampleCloud (sampleStarted ops)"
proof (induction ops rule: rev_induct)
  case Nil
  show ?case by (rule reachable_init) (simp add: go_init_def freshGo_def provider_init_def idle_rw_def)
next
  case (snoc op ops)
  show ?case
    using go_next.spawns [of "\<lambda>p. \<exists>op. p = sampleProgram op" "sampleProgram op" "sampleStarted ops"]
    by (intro reachable_step [OF snoc]) auto
qed

lemma interleaved_steps: "(\<lambda>S S'. \<exists>i. go_step i S S')\<^sup>*\<^sup>* S S' \<Longrightarrow> interleaved api cs S \<Longrightarrow> interleaved api cs S'"
  by (induction rule: rtranclp_induct) (auto intro: reachable_step go_next.runs)

text \<open>A goroutine that locks a free read-write mutex for writing.\<close>

definition write_locked :: "rw \<Rightarrow> nat \<Rightarrow> (('w, 'x) csys_scheme, 'a) prog \<Rightarrow> (('w, 'x) csys_scheme, 'a) gosys
    \<Rightarrow> (('w, 'x) csys_scheme, 'a) gosys" where
  "write_locked n i p S = S\<lparr>shared := setRW n \<lparr>w_taken = True, readers = 0\<rparr> (shared S),
     gos := (gos S)[i := (gos S ! i)\<lparr>code := p, held := HW n # held (gos S ! i)\<rparr>]\<rparr>"

lemma write_locked:
  assumes "interleaved api cs S" "i < length (gos S)" "code (gos S ! i) = Mu (WLock n) (Mu (WDrain n) p)" "rwMu (shared S) n = idle_rw"
  shows "interleaved api cs (write_locked n i p S)"
proof -
  let ?s = "setRW n \<lparr>w_taken = True, readers = 0\<rparr> (shared S)"
  let ?T = "S\<lparr>shared := ?s, gos := (gos S)[i := (gos S ! i)\<lparr>code := Mu (WDrain n) p, held := HA n # held (gos S ! i)\<rparr>]\<rparr>"
  have "go_step i S ?T"
    using go_step.mutex [of i S "WLock n" "Mu (WDrain n) p" ?s] assms(2-) by (simp add: idle_rw_def)
  moreover have "go_step i ?T (write_locked n i p S)"
    using go_step.mutex [of i ?T "WDrain n" p ?s] assms(2) by (simp add: write_locked_def)
  ultimately show ?thesis using assms(1) by (blast intro: reachable_step go_next.runs)
qed

lemma sample_runs:
  obtains t where "sequential sampleAPI sampleCloud (OpEnsure (Some sampleService) [sampleKubeNode]) (shared freshGo) = (Ret (), t)"
    "map_of (queue t) sampleKey \<noteq> None"
proof -
  have "case sequential sampleAPI sampleCloud (OpEnsure (Some sampleService) [sampleKubeNode]) (shared freshGo) of
      (r, t) \<Rightarrow> r = Ret () \<and> map_of (queue t) sampleKey \<noteq> None" by code_simp
  then show ?thesis using that by (auto split: prod.splits simp del: sequential.simps)
qed

section \<open>Properties\<close>

text \<open>
  C9: the lock discipline is a type system and every operation of the provider is typed in it: it takes the lock of a
  service first, then the queue's mutex, then the mutex of the nodes, then that of the service nodes; it reads and writes
  the queue, the nodes and the service nodes only while it holds the mutex that guards them (the write lock to write), and
  holds nothing when it ends, on every path, errors and panics included.
\<close>

theorem operations_typed: "typed (\<lambda>_. True) None [] None [] (program api cs op)"
  by (rule program_typed)

text \<open>
  C4: in every state that any number of operations, started at any time and interleaved in any way, can reach, the
  registry and the queue are well formed, two goroutines never work on the same service or both hold the queue, a goroutine
  that writes the nodes or the service nodes is the only one that reads them, and nobody is about to unlock a mutex that is not locked.
\<close>

theorem interleaving_safe:
  assumes "interleaved api cs S" "i < length (gos S)" "j < length (gos S)" "i \<noteq> j"
  shows "reg_wf (registry (shared S)) \<and> queue_wf (queue (shared S))
    \<and> \<not> (gpc (gos S ! i) = Holding k \<and> gpc (gos S ! j) = Holding k)
    \<and> \<not> (HQ \<in> set (held (gos S ! i)) \<and> HQ \<in> set (held (gos S ! j)))
    \<and> \<not> (HW n \<in> set (held (gos S ! i)) \<and> reading (held (gos S ! j)) n)
    \<and> (code (gos S ! i) = Mu op p \<longrightarrow> mutex_op op (shared S) \<noteq> Fatal)
    \<and> (code (gos S ! i) = SvcUnlock k p \<longrightarrow> Unlock k (svcLock (shared S)) \<noteq> None)"
proof -
  have inv: "go_inv S" by (rule provider_go.inv_reachable [OF assms(1)])
  then have parts: "reg_wf (registry (shared S))" "queue_wf (queue (shared S))" "mutex_ok (shared S) (gos S)"
    "view_inv (map_of (inUse (svcLock (shared S)))) (heap (svcLock (shared S))) (map gpc (gos S))"
    by (simp_all add: go_inv_def data_inv_def lock_inv_def)
  have "\<not> (gpc (gos S ! i) = Holding k \<and> gpc (gos S ! j) = Holding k)"
    using holder_unique [OF parts(4), of i k j] assms(2-) by auto
  with parts exclusive [OF parts(3) assms(2-4)] mutex_held(1) [OF inv assms(2)] unlock_held(2) [OF inv assms(2)]
  show ?thesis by blast
qed

theorem interleaving_safe_witness:
  "\<exists>S :: (unit csys, unit) gosys. interleaved sampleAPI sampleCloud S \<and> gpc (gos S ! 0) = Holding sampleKey
     \<and> (\<exists>p. code (gos S ! 1) = SvcLock sampleKey p) \<and> gpc (gos S ! 1) \<noteq> Holding sampleKey"
proof -
  let ?del = "OpDelete (Some sampleService)"
  let ?S = "sampleStarted [?del, ?del]" and ?l = "snd (lock_enter sampleKey newServiceLock)"
  let ?p = "deferP (SvcUnlock sampleKey) (atomP (deleteLocked sampleAPI sampleCloud sampleService)) :: (unit csys, unit) prog"
  have code: "sampleProgram ?del = SvcLock sampleKey ?p"
    unfolding program.simps EnsureLoadBalancerDeletedP_def withSvc_def by (simp add: sampleKey_def svcKey_def sampleService_def)
  define S1 where "S1 = ?S\<lparr>shared := (shared ?S)\<lparr>svcLock := ?l\<rparr>, gos := (gos ?S)[0 := (gos ?S ! 0)\<lparr>gpc := Waiting sampleKey 0\<rparr>]\<rparr>"
  define S2 where "S2 = S1\<lparr>shared := (shared S1)\<lparr>svcLock := the (lock_acquire 0 ?l)\<rparr>,
    gos := (gos S1)[0 := (gos S1 ! 0)\<lparr>code := ?p, gpc := Holding sampleKey\<rparr>]\<rparr>"
  have "go_step 0 ?S S1"
    unfolding S1_def by (rule go_step.enter [where p = ?p])
      (simp_all add: newGo_def code freshGo_def lock_enter_def newServiceLock_def getLocker_def del: program.simps)
  moreover have "go_step 0 S1 S2"
    unfolding S2_def by (rule go_step.acquire [where p = ?p and k' = sampleKey and m = 0])
      (simp_all add: S1_def newGo_def code freshGo_def lock_enter_def newServiceLock_def getLocker_def lock_acquire_def del: program.simps)
  ultimately have reach: "interleaved sampleAPI sampleCloud S2"
    using sampleStarted_reachable [of "[?del, ?del]"] by (blast intro: reachable_step go_next.runs)
  have S2: "length (gos S2) = 2" "gpc (gos S2 ! 0) = Holding sampleKey" "code (gos S2 ! 1) = SvcLock sampleKey ?p"
    by (simp_all add: S2_def S1_def newGo_def code del: program.simps)
  show ?thesis
    using interleaving_safe [OF reach, of 0 1 sampleKey] reach S2 by (intro exI [of _ S2]) auto
qed

text \<open>
  C6: there is no data race. When a step of one goroutine changes the queue, the nodes or the service nodes, the next
  step of any other goroutine, if it computes, neither reads nor writes what was changed.
\<close>

theorem no_data_race:
  assumes "interleaved api cs S" "i < length (gos S)" "j < length (gos S)" "i \<noteq> j"
    and "code (gos S ! i) = Act u c" "code (gos S ! j) = Act u' c'"
  shows "(queue (u s) \<noteq> queue s \<longrightarrow> (\<forall>t f. u' (queue_update f t) = queue_update f (u' t) \<and> c' (queue_update f t) = c' t))
    \<and> (nodes (registry (u s)) \<noteq> nodes (registry s) \<longrightarrow> (\<forall>t f. u' (registry_update (nodes_update f) t) = registry_update (nodes_update f) (u' t)
        \<and> c' (registry_update (nodes_update f) t) = c' t))
    \<and> (svcNodes (registry (u s)) \<noteq> svcNodes (registry s) \<longrightarrow> (\<forall>t f. u' (registry_update (svcNodes_update f) t)
        = registry_update (svcNodes_update f) (u' t) \<and> c' (registry_update (svcNodes_update f) t) = c' t))"
proof -
  have inv: "go_inv S" by (rule provider_go.inv_reachable [OF assms(1)])
  have ok: "mutex_ok (shared S) (gos S)" using inv by (simp add: go_inv_def)
  note ex = exclusive [OF ok assms(2-4)]
  have acc: "access (held (gos S ! i)) s (u s)"
    using goodD(1) [OF go_inv_good [OF inv assms(2)]] assms(5) by auto
  have other: "u' (g t) = g (u' t) \<and> c' (g t) = c' t" if "foreign (held (gos S ! j)) g" for g t
    using goodD(1) [OF go_inv_good [OF inv assms(3)]] assms(6) that by auto
  show ?thesis
  proof (intro conjI impI allI)
    fix t f
    show "u' (queue_update f t) = queue_update f (u' t)" "c' (queue_update f t) = c' t" if "queue (u s) \<noteq> queue s"
      using that acc ex(1) other [OF foreign.intros(4)] by (auto simp: access_def)
  next
    fix t f
    show "u' (registry_update (nodes_update f) t) = registry_update (nodes_update f) (u' t)" "c' (registry_update (nodes_update f) t) = c' t"
      if "nodes (registry (u s)) \<noteq> nodes (registry s)"
      using that acc ex(2) [of NodesMu] other [OF foreign.intros(5)] by (auto simp: access_def)
  next
    fix t f
    show "u' (registry_update (svcNodes_update f) t) = registry_update (svcNodes_update f) (u' t)"
      "c' (registry_update (svcNodes_update f) t) = c' t" if "svcNodes (registry (u s)) \<noteq> svcNodes (registry s)"
      using that acc ex(2) [of SvcNodesMu] other [OF foreign.intros(7)] by (auto simp: access_def)
  qed
qed

theorem no_data_race_witness:
  "\<exists>(S :: (unit csys, unit) gosys) u c u' c'. interleaved sampleAPI sampleCloud S \<and> code (gos S ! 0) = Act u c \<and> code (gos S ! 1) = Act u' c'
     \<and> svcNodes (registry (u (shared S))) \<noteq> svcNodes (registry (shared S))
     \<and> (\<forall>t f. u' (registry_update (svcNodes_update f) t) = registry_update (svcNodes_update f) (u' t))"
proof -
  let ?ep = "\<lparr>ep_meta = svc_meta sampleService, ep_Subsets = []\<rparr>"
  let ?op0 = "OpEndpoints (AddFunc (EndpointsObj ?ep))" and ?op1 = "OpUpdate (Some sampleService) [sampleKubeNode]"
  let ?S = "sampleStarted [?op0, ?op1]"
  obtain p0 where p0: "sampleProgram ?op0 = Mu (WLock SvcNodesMu) (Mu (WDrain SvcNodesMu) (Act (registry_update (updateEndpointsNodes ?ep)) p0))"
    by (simp add: updateEndpointsNodesP_def withWLock_def deferP_def atomP_def modify_def)
  obtain p1 u1 where p1: "sampleProgram ?op1 = Mu (WLock NodesMu) (Mu (WDrain NodesMu) (Act u1 p1))"
    by (simp add: UpdateLoadBalancerP_def updateNodesP_def withWLock_def deferP_def seqP_def atomP_def)
  define S1 where "S1 = write_locked SvcNodesMu 0 (Act (registry_update (updateEndpointsNodes ?ep)) p0) ?S"
  define S2 where "S2 = write_locked NodesMu 1 (Act u1 p1) S1"
  have "interleaved sampleAPI sampleCloud S1"
    unfolding S1_def by (rule write_locked [OF sampleStarted_reachable]) (simp_all add: newGo_def p0 freshGo_def del: program.simps)
  then have S2: "interleaved sampleAPI sampleCloud S2"
    unfolding S2_def by (rule write_locked)
      (simp_all add: S1_def write_locked_def newGo_def p1 freshGo_def setRW_def del: program.simps)
  have g: "length (gos S2) = 2" "code (gos S2 ! 0) = Act (registry_update (updateEndpointsNodes ?ep)) p0" "code (gos S2 ! 1) = Act u1 p1"
    by (simp_all add: S2_def S1_def write_locked_def)
  have "svcNodes (registry (shared S2)) = []"
    by (simp add: S2_def S1_def write_locked_def setRW_def freshGo_def newNodeRegistry_def)
  then have "svcNodes (registry (registry_update (updateEndpointsNodes ?ep) (shared S2))) \<noteq> svcNodes (registry (shared S2))"
    by (simp add: updateEndpointsNodes_def Let_def)
  with no_data_race [OF S2, of 0 1, OF _ _ _ g(2,3), of "shared S2"] S2 g show ?thesis
    by (intro exI [of _ S2] exI) auto
qed

text \<open>
  C7: no deadlock. While some goroutine has not finished, some goroutine can take a step.
\<close>

theorem interleaving_progress:
  assumes "interleaved api cs S" "i < length (gos S)" "\<forall>r. code (gos S ! i) \<noteq> Fin r"
  shows "\<exists>j S'. go_step j S S'"
  using go_progress [OF provider_go.inv_reachable [OF assms(1)] assms(2)] assms(3) by blast

theorem interleaving_progress_witness:
  "\<exists>j S'. go_step j (sampleStarted [OpEnsure (Some sampleService) [sampleKubeNode], OpWork]) S'"
  by (rule interleaving_progress [OF sampleStarted_reachable, of 0])
    (simp_all add: newGo_def discard_def EnsureLoadBalancerP_def withSvc_def seqP_def)

text \<open>
  A program is finite, with a listing that never ends as its own command, so with the progress of all interleavings no
  schedule goes on forever: after finitely many steps either a goroutine is caught in a listing whose pages never end, or
  all operations have finished.
\<close>

lemma interleaving_ends:
  assumes "interleaved api cs (f 0)" and run: "\<And>n. (\<exists>i. go_step i (f n) (f (Suc n))) \<or> (\<nexists>i S'. go_step i (f n) S') \<and> f (Suc n) = f n"
  shows "\<exists>n. \<not> no_spin (f n) \<or> (\<forall>g \<in> set (gos (f n)). \<exists>r. code g = Fin r)"
proof (rule ccontr)
  assume no: "\<not> ?thesis"
  have inv: "go_inv (f n)" for n
  proof (induction n)
    case 0
    show ?case by (rule provider_go.inv_reachable [OF assms(1)])
  next
    case (Suc n)
    then show ?case using run [of n] go_inv_step by metis
  qed
  have "\<exists>i. go_step i (f n) (f (Suc n))" for n
    using run [of n] no go_progress [OF inv [of n]] by (metis in_set_conv_nth)
  with no have "(f (Suc n), f n) \<in> {(S', S). no_spin S \<and> (\<exists>i. go_step i S S')}" for n by blast
  then show False using go_steps_end [unfolded wf_iff_no_infinite_down_chain] by blast
qed

lemma program_runs:
  fixes s :: "('w, 'x) csys_scheme"
  assumes "sequential api cs op s = (r, t)" "r \<noteq> Block" "free NeedAll s"
  shows "run (program api cs op) s = (r, t)"
proof -
  have "does NeedAll (program api cs op :: (('w, 'x) csys_scheme, unit) prog) (sequential api cs op)" by (rule does_program)
  then have "same_run (run (program api cs op) s) (r, t)" using assms(3) unfolding does_def assms(1) [symmetric] by blast
  then show ?thesis using assms(2) by (cases "run (program api cs op) s") (simp add: same_run_def)
qed

text \<open>
  C8: an operation that runs alone does what its sequential model says: from a state in which no mutex is held, the
  outcome of the sequential run is the outcome of a schedule in which only this goroutine moves.
\<close>

theorem operation_alone:
  fixes s :: "('w, 'x) csys_scheme"
  assumes "sequential api cs op s = (r, t)" "r \<noteq> Block" "free NeedAll s" "i < length gs" "gs ! i = newGo (program api cs op)"
  shows "ends_in i s gs r t"
  using program_runs [OF assms(1-3)] assms(2,4,5)
  by (intro run_steps [where c = Idle and H = "[]"]) (auto simp: newGo_def program_typed)

theorem operation_alone_witness:
  "\<exists>t. ends_in 0 (shared freshGo) (gos (sampleStarted [OpEnsure (Some sampleService) [sampleKubeNode]])) (Ret ()) t"
proof -
  let ?op = "OpEnsure (Some sampleService) [sampleKubeNode]"
  obtain t where "sequential sampleAPI sampleCloud ?op (shared freshGo) = (Ret (), t)" by (rule sample_runs)
  from operation_alone [OF this _ freshGo_fields(2)] show ?thesis by (intro exI [of _ t]) (simp del: program.simps)
qed

text \<open>
  C15: nothing stays locked. When all operations that were started have ended, in whatever order they were interleaved and
  whatever they returned, every mutex is free and the lock of the services has no entry left.
\<close>

theorem interleaving_releases:
  assumes "interleaved api cs S" "\<forall>g \<in> set (gos S). \<exists>r. code g = Fin r"
  shows "\<not> queueMu (shared S) \<and> (\<forall>n. \<not> w_taken (rwMu (shared S) n) \<and> readers (rwMu (shared S) n) = 0)
    \<and> inUse (svcLock (shared S)) = []"
proof -
  have inv: "go_inv S" by (rule provider_go.inv_reachable [OF assms(1)])
  have mu: "mutex_ok (shared S) (gos S)" and view: "view_inv (map_of (inUse (svcLock (shared S)))) (heap (svcLock (shared S))) (map gpc (gos S))"
    using inv by (simp_all add: go_inv_def lock_inv_def)
  have idle: "held g = [] \<and> gpc g = Idle" if g: "g \<in> set (gos S)" for g
  proof -
    obtain r where "code g = Fin r" using g assms(2) by blast
    moreover have "good g" using g inv by (simp add: go_inv_def list_all_iff)
    ultimately show ?thesis by (cases "gpc g") (auto simp: good_def)
  qed
  then have "cnt h (gos S) = 0" for h by (simp add: cnt_def)
  with mu have "\<not> queueMu (shared S) \<and> (\<forall>n. \<not> w_taken (rwMu (shared S) n) \<and> readers (rwMu (shared S) n) = 0)"
    by (simp add: mutex_ok_def split: if_splits)
  moreover have "inUse (svcLock (shared S)) = []" using idle by (intro view_inv_idle [OF view]) (simp add: list_all_iff)
  ultimately show ?thesis by blast
qed

theorem interleaving_releases_witness:
  "\<exists>S :: (unit csys, unit) gosys. interleaved sampleAPI sampleCloud S \<and> length (gos S) = 1 \<and> (\<exists>e. map_of (queue (shared S)) sampleKey = Some e)
     \<and> \<not> queueMu (shared S) \<and> inUse (svcLock (shared S)) = []"
proof -
  let ?op = "OpEnsure (Some sampleService) [sampleKubeNode]" let ?S = "sampleStarted [?op]"
  obtain t where t: "sequential sampleAPI sampleCloud ?op (shared freshGo) = (Ret (), t)" "map_of (queue t) sampleKey \<noteq> None"
    by (rule sample_runs)
  have "ends_in 0 (shared freshGo) (gos ?S) (Ret ()) t"
    using program_runs [OF t(1) _ freshGo_fields(2)] program_typed [of sampleAPI sampleCloud ?op]
    by (intro run_steps [where p = "sampleProgram ?op" and c = Idle and H = "[]"]) (simp_all add: newGo_def del: program.simps)
  then obtain c H where "go_steps 0 \<lparr>shared = shared freshGo, gos = gos ?S\<rparr> \<lparr>shared = t, gos = [\<lparr>code = Fin (Ret ()), gpc = c, held = H\<rparr>]\<rparr>"
    by (auto simp: ends_in_def)
  moreover have "\<lparr>shared = shared freshGo, gos = gos ?S\<rparr> = ?S" by (simp add: freshGo_def)
  ultimately have reach: "interleaved sampleAPI sampleCloud \<lparr>shared = t, gos = [\<lparr>code = Fin (Ret ()), gpc = c, held = H\<rparr>]\<rparr>"
    using interleaved_steps [OF _ sampleStarted_reachable [of "[?op]"]] by (metis (mono_tags, lifting) mono_rtranclp)
  from interleaving_releases [OF reach] reach t(2) show ?thesis by (intro exI [of _ "\<lparr>shared = t, gos = [\<lparr>code = Fin (Ret ()), gpc = c, held = H\<rparr>]\<rparr>"]) simp
qed

end
