(* ===== verification/Spec2Isabelle.thy ===== *)
theory Spec2Isabelle
  imports Lifecycle Concurrency
begin

text \<open>
  A verification development for the custom CloudStack cloud controller manager. The program is a provider for the
  Kubernetes cloud controller manager: it turns services of type \<open>LoadBalancer\<close> into CloudStack load balancer rules
  with public addresses, keeps the machines behind those rules in line with the cluster's nodes, and answers
  questions about nodes (addresses, instance IDs, zones). Everything here is about the Go code under \<open>src/cloudstack\<close> and
  \<open>src/cmd/controller\<close>.

  \<^bold>\<open>Parts of the program and where they are modelled.\<close>

  \<^item> \<open>Prelude\<close>: the effect type of the stateful functions (a value, an error, a panic, or waiting forever, with the
    state so far), sequencing, loops and deferred calls; the parts of \<open>strings\<close>, \<open>strconv\<close> and \<open>fmt\<close> the program uses;
    the locales \<open>frame_relation\<close> (claims about all final states) and \<open>invariant_system\<close> (reachable states).
  \<^item> \<open>World\<close>: Kubernetes and CloudStack objects, and the client libraries as a record \<open>'w api\<close> of functions on an
    abstract outside world. Every call goes through a wrapper that records it, so that theorems can speak about the
    requests a run makes. The libraries themselves are parameters.
  \<^item> \<open>Cloud\<close>: \<open>cloudstack.go\<close>, configuration and environments, and the label lookups of \<open>instances.go\<close>.
  \<^item> \<open>Helpers\<close>: \<open>helpers.go\<close>, the machine cache and the loop over all pages of a listing. The page loop is a
    \<open>partial_function (option)\<close>; \<open>None\<close> is a server that never stops sending pages. The locale \<open>page_source\<close> states
    what a listing has to promise for the loop to end.
  \<^item> \<open>Nodes\<close>: \<open>nodes.go\<close>, the registry of nodes and of the nodes each service runs on.
  \<^item> \<open>LBModel\<close>, \<open>Tags\<close>, \<open>Ports\<close>, \<open>LBRule\<close>, \<open>Pools\<close>, \<open>LBIP\<close>: \<open>loadbalancer.go\<close>, one theory per group of operations: the
    load balancer object, names and labels; ownership tags; ports; finding, creating and deleting rules and synchronising
    their hosts; health check pools; public addresses.
  \<^item> \<open>ServiceLock\<close>: \<open>servicelock.go\<close>, the reference-counted lock per service with any number of goroutines as a step
    relation on the atomic actions of the code.
  \<^item> \<open>Queue\<close>: \<open>service_queue.go\<close>, the queue of pending services, its priority order, and one look of a worker at it.
  \<^item> \<open>Provider\<close>: the four handlers of \<open>loadbalancer.go\<close> that the controller manager calls.
  \<^item> \<open>Instances\<close>: \<open>instances.go\<close> and \<open>zones.go\<close>.
  \<^item> \<open>FakeServer\<close>: \<open>fake/cloudstack.go\<close>, the CloudStack server of the repository's tests. It is modelled like the rest and
    serves as the concrete instance of the contracts stated for CloudStack.
  \<^item> \<open>NoPanic\<close> and \<open>System\<close>: properties of all parts together: which runs can panic, and the invariant of the running
    provider when its operations follow one another.
  \<^item> \<open>Lifecycle\<close>: \<open>cmd/controller/main.go\<close>, the registered constructor, \<open>Initialize\<close> and \<open>SetInformers\<close> of \<open>cloudstack.go\<close>, and
    \<open>start\<close> and \<open>stopWait\<close> of \<open>service_queue.go\<close>: the worker goroutines with their timers, the context, the stop channel and
    the wait group, as a step relation.
  \<^item> \<open>Footprint\<close>, \<open>Goroutines\<close>, \<open>Scheduling\<close>: the operations at the grain of their mutexes. \<open>Footprint\<close> shows which parts of the
    memory a computation does not see; \<open>Goroutines\<close> has programs with mutex operations, their interleaving, the lock
    discipline as a type system and the invariant of all interleavings; \<open>Scheduling\<close> progress, termination, and that a
    goroutine alone is one of the schedules.
  \<^item> \<open>Programs\<close>, \<open>Discipline\<close>, \<open>Alone\<close>, \<open>Concurrency\<close>: every operation of the registry, the queue and the handlers as such a
    program (\<open>popP\<close> is \<open>pop\<close>), with \<open>Lock\<close>, \<open>RLock\<close>, \<open>Unlock\<close> and \<open>RUnlock\<close> where the code has them; that they are typed; that
    each, run alone, is its sequential model; and the properties of the provider with any number of them running at once.

  \<^bold>\<open>State.\<close> \<open>sys\<close> is the outside world and the calls made; \<open>nsys\<close> adds the node registry, \<open>psys\<close> the queue and the service
  locks. A Go map is an association list in the order a \<open>range\<close> visits it. Pointers that several places change (the lock
  counters) live in a heap of their own; a \<open>*loadBalancer\<close> is owned by one run at a time and passed through it. A nil
  pointer or nil map is \<open>None\<close>, and following it or writing to it is a panic. The rules and pools of a listing, which the
  program decodes into its own structs, may be nil; the rule embedded in a \<open>loadBalancerRule\<close> is part of it, and a listed
  rule without it counts as nil, since the first field read panics in both cases. What the client library decodes into its own
  structs is not nil. The registry's revision is a 64-bit word.

  \<^bold>\<open>What is proved.\<close> \<open>ServiceLock\<close>: mutual exclusion per service, progress, no entry left behind. \<open>Nodes\<close>: what an update
  leaves in the registry, which nodes serve a service. \<open>Tags\<close>, \<open>Ports\<close>, \<open>LBRule\<close>, \<open>LBIP\<close>, \<open>Pools\<close>: which resources the
  provider may change, which requests it makes, where an address comes from and that it is not leaked, that one
  synchronisation reaches the wanted hosts. \<open>Queue\<close>: the queue refines a map with a priority; failed work is put back.
  \<open>Provider\<close>: handlers change only what the provider manages, an ensured service is queued. \<open>NoPanic\<close>: the answers and objects
  that can crash a handler or a worker. \<open>Instances\<close>: provider IDs round
  trip, a machine is reported as gone only when CloudStack says so. \<open>Lifecycle\<close>: what a provider needs to start, the wait group
  counts the running workers, no worker is stuck at its timer, stopping ends within a bound on the workers' steps and loses no
  ready work. \<open>Concurrency\<close>: under
  every interleaving the data is well formed, services, queue and registry are used exclusively, there is no data race and no
  deadlock, and nothing stays locked. This theory: the invariant of all reachable states, that an ensured
  service gets its nodes behind its rule, and that a worker touches only that rule.

  \<^bold>\<open>Choices.\<close> The locales \<open>host_store\<close> and \<open>page_source\<close> are the interfaces to CloudStack and are interpreted on the model of
  the fake server, \<open>strict_weak_order\<close> is the contract of \<open>sort.Interface\<close> and is interpreted on the queue's order,
  \<open>invariant_system\<close> on the registry, the lock, the running provider and its lifecycle; \<open>inner_update\<close> is the contract of a
  change that the outside world does not notice and is interpreted on every field of the provider's memory; \<open>disciplined\<close> is the
  contract of programs that may be started at any time and is interpreted on the provider's operations. In \<open>System\<close> and
  \<open>Lifecycle\<close> an operation is one step, also the pop of a worker with the work on the entry, in \<open>Concurrency\<close> the steps are the mutex operations and the computations between them.
  A computation that only talks to the outside world is one step there: what happens outside meanwhile is up to the
  parameter \<open>api\<close>, and other goroutines cannot tell, since it is blind to the provider's memory. A \<open>sync.RWMutex\<close> lets a writer
  announce itself, which keeps new readers out, and then wait for the readers inside. A goroutine caught in a listing that
  never ends is \<open>Spin\<close>. The clock is read once per pop: the comparison gets that time for
  both operands, where the code reads the clock again for each of them and once more for the head. \<open>sort.Slice\<close> on ports is
  stable here. \<open>strings.ToUpper\<close> changes ASCII letters only. Timers are those of
  the Go version in \<open>go.mod\<close>, whose channel keeps a value until it is received.
  Texts printed with \<open>%#v\<close> are left out of error messages. Durations are nanoseconds and print as
  \<open>time.Duration\<close> does. A timer that fires while the stop channel is closed may be taken by \<open>select\<close> again and again; the bound
  on stopping counts how often. No fuel is used anywhere: loops are
  structural, come with a termination proof, or are partial with their end proved under the contract of the server.

  \<^bold>\<open>Not modelled.\<close> The libraries that the program calls (the Kubernetes controller manager and its informers, the event
  broadcaster, the HTTP transport, the CloudStack client, the cache, the rate limiter, the configuration parser): they are
  parameters. Logging, metrics, and how long the timers of the workers wait: they do not change the state modelled here. JSON
  and HTTP encodings between the program and the servers: the decoded values are modelled. The methods of
  \<open>sort.Interface\<close> other than \<open>Less\<close>: the sort is the library's, known by its contract.
\<close>

section \<open>Properties of the whole provider\<close>

text \<open>
  C5: in every state the running provider can reach, from an empty start through any sequence of handler calls, worker
  steps and endpoint events, however each of them ended, the registry and the queue are well formed, no service is
  locked, and a worker that looks at the queue does not panic, unless CloudStack answers with a nil rule or pool.
\<close>

theorem provider_invariant:
  assumes "reachable provider_init (provider_step api cs) s"
  shows "reg_wf (registry s) \<and> queue_wf (queue s) \<and> inUse (svcLock s) = []
    \<and> (wholeAnswers api \<longrightarrow> fst (workerStep api cs s) \<noteq> Panic p)"
proof -
  have "sys_inv s" by (rule provider.inv_reachable [OF assms])
  then have inv: "reg_wf (registry s)" "queue_wf (queue s)" "inUse (svcLock s) = []"
    by (simp_all add: sys_inv_def data_inv_def)
  with worker_calm [OF _ inv(2,3)] show ?thesis by blast
qed

theorem provider_invariant_witness:
  "queue_wf (queue (snd sampleEnsure)) \<and> inUse (svcLock (snd sampleEnsure)) = []"
proof -
  obtain t where run: "sampleEnsure = (Ret [\<lparr>ing_IP = ''10.0.0.1'', ing_Hostname = ''web.test.com''\<rparr>], t)"
    using sampleEnsure_ok by (metis fst_conv surj_pair)
  have "provider_init freshSys" by (simp add: provider_init_def freshSys_def)
  moreover have "provider_step sampleAPI sampleCloud freshSys t" by (rule provider_step.ensured [OF run]) simp
  ultimately have "reachable provider_init (provider_step sampleAPI sampleCloud) t"
    by (blast intro: reachable_step reachable_init)
  from provider_invariant [OF this] show ?thesis unfolding run by simp
qed

text \<open>A server that has a rule of the sample service, with a machine behind it that is no node any more.\<close>

definition sampleServer :: CloudstackServer where
  "sampleServer = NewCloudstackServer\<lparr>
     srv_tags := [(''lbrule-1'', [\<lparr>tag_Key = cloudProviderTag, tag_Value = ProviderName\<rparr>, \<lparr>tag_Key = namespaceTag, tag_Value = ''ns1''\<rparr>,
       \<lparr>tag_Key = serviceTag, tag_Value = ''web''\<rparr>])],
     lbRules := [(''web.test.com'', \<lparr>Rule = [(''id'', JStr ''lbrule-1''), (''algorithm'', JStr ''roundrobin''), (''name'', JStr ''web.test.com''),
       (''privateport'', JStr ''30080''), (''publicport'', JStr ''80''), (''networkid'', JStr ''net1''), (''publicipid'', JStr ''ip-1''),
       (''protocol'', JStr ''TCP''), (''publicip'', JStr ''10.0.0.1'')], lbPools = [], createLBPool = True\<rparr>)],
     srv_vms := [(''lbrule-1'', [blankVM\<lparr>vm_Id := ''vm9''\<rparr>])]\<rparr>"

definition serverSys :: "CloudstackServer psys" where
  "serverSys = \<lparr>world = sampleServer, trace = [], registry = newNodeRegistry, queue = [], svcLock = newServiceLock\<rparr>"

abbreviation serverEnsure :: "status outcome \<times> CloudstackServer psys" where
  "serverEnsure \<equiv> EnsureLoadBalancer fakeAPI sampleCloud (Some sampleService) [sampleKubeNode] serverSys"

lemma serverEnsure_run:
  "case serverEnsure of (r, t) \<Rightarrow> r = Ret [\<lparr>ing_IP = ''10.0.0.1'', ing_Hostname = ''web.test.com''\<rparr>]
     \<and> ruleHosts (world t) ''lbrule-1'' = {''vm9''}
     \<and> (case map_of (queue t) sampleKey of None \<Rightarrow> False | Some e \<Rightarrow>
          map_sum id (map vmID) (nodesForService sampleCloud (registry t) (Some (qe_service e))) = Inr [''vm1'']
          \<and> (case qe_lb e of None \<Rightarrow> False | Some lb \<Rightarrow> getClient sampleCloud lb = Inr sampleClient
               \<and> getLabelOrAnnotation (svc_meta (lb_service lb)) lbCustomHealthCheck = None
               \<and> (case lb_rule lb of None \<Rightarrow> False | Some rule \<Rightarrow> rule_Id rule = ''lbrule-1'' \<and> rule_Protocol rule = ''TCP'')))"
  by code_simp

text \<open>
  C3: an ensured service gets served. When ensuring a service succeeds on a provider with nothing pending, against the server
  that keeps the hosts of a rule, the service has nodes, and the next look of a worker at the queue succeeds and leaves exactly
  the machines of those nodes behind the rule of the load balancer, whatever was there before, and nothing pending. The
  hypotheses leave out health check pools and extra networks, and machine IDs with commas.
\<close>

theorem ensured_service_served:
  fixes s :: "(CloudstackServer, 'x) psys_scheme"
  assumes idle: "queue s = []" "inUse (svcLock s) = []"
    and run: "EnsureLoadBalancer fakeAPI cs (Some svc) kns s = (Ret st, t)"
    and entry: "map_of (queue t) (svcKey svc) = Some e" "qe_lb e = Some lb" "lb_rule lb = Some rule" "getClient cs lb = Inr c"
    and pools: "getLabelOrAnnotation (svc_meta (lb_service lb)) lbCustomHealthCheck = None" "rule_Protocol rule \<noteq> ''UDP''"
    and nets: "AssignNetworks (Command (config cs)) = []"
    and ids: "\<And>ns. nodesForService cs (registry t) (Some (qe_service e)) = Inr ns \<Longrightarrow> plainIDs (map vmID ns)"
      "plainIDs (sorted_list_of_set (ruleHosts (world t) (rule_Id rule)))"
  shows "\<exists>ns u. nodesForService cs (registry t) (Some (qe_service e)) = Inr ns \<and> ns \<noteq> []
    \<and> workerStep fakeAPI cs t = (Ret True, u) \<and> queue u = []
    \<and> ruleHosts (world u) = (ruleHosts (world t))(rule_Id rule := vmID ` set ns)"
proof -
  have free: "map_of (inUse (svcLock s)) (svcKey svc) = None" using idle by simp
  obtain lb' now where q: "svcKey (lb_service lb') = svcKey svc"
    "queue t = [(svcKey svc, \<lparr>qe_service = lb_service lb', qe_lb = Some lb', updatePool = True, start = now, backoffUntil = zeroTime\<rparr>)]"
    "\<exists>nodes. nodesForService cs (registry t) (Some (lb_service lb')) = Inr nodes" "map_of (inUse (svcLock t)) = map_of (inUse (svcLock s))"
    by (rule ensure_queued [OF free run]) (simp add: idle(1) mergeEntry_def)
  have e: "e = \<lparr>qe_service = lb_service lb, qe_lb = Some lb, updatePool = True, start = now, backoffUntil = zeroTime\<rparr>" "lb' = lb"
    using q(2) entry(1,2) by auto
  obtain ns where ns: "nodesForService cs (registry t) (Some (qe_service e)) = Inr ns" using q(3) e by auto
  have wf: "queue_wf (queue t)" using q(1,2) entry(3) e by (auto simp: queue_wf_def entry_wf_def)
  have unlocked: "inUse (svcLock t) = []" using q(4) idle(2) by simp
  obtain s1 where pop: "pop fakeAPI t = (Ret (Some e), s1)"
    using q(2) e by (simp add: pop_def extendEntries_def bind_def gets_def modify_def local_io_def fakeAPI_def offlineAPI_def ret_def
        Let_def zeroTime_def)
  obtain u where u: "workerStep fakeAPI cs t = (Ret True, u)" "ruleHosts (world u) = (ruleHosts (world t))(rule_Id rule := vmID ` set ns)"
    "map_of (queue u) = (map_of (queue t))(svcKey (qe_service e) := None)"
    using worker_converges [OF wf unlocked pop entry(2-4) ns _ nets ids(1) [OF ns] ids(2)] pools by blast
  have "map_of (queue u) = Map.empty" using u(3) q(1,2) e by (auto simp: fun_eq_iff)
  then have "queue u = []" by simp
  moreover have "ns \<noteq> []" using ns by (auto simp: nodesForService_def Let_def split: if_splits option.splits)
  ultimately show ?thesis using ns u by blast
qed

theorem ensured_service_served_witness:
  "\<exists>t u. serverEnsure = (Ret [\<lparr>ing_IP = ''10.0.0.1'', ing_Hostname = ''web.test.com''\<rparr>], t)
     \<and> workerStep fakeAPI sampleCloud t = (Ret True, u) \<and> ruleHosts (world u) ''lbrule-1'' = {''vm1''} \<and> queue u = []"
proof -
  obtain r t where rt: "serverEnsure = (r, t)" by (rule prod.exhaust)
  have r: "r = Ret [\<lparr>ing_IP = ''10.0.0.1'', ing_Hostname = ''web.test.com''\<rparr>]" and hosts: "ruleHosts (world t) ''lbrule-1'' = {''vm9''}"
    using serverEnsure_run unfolding rt by simp_all
  obtain e lb rule where e: "map_of (queue t) sampleKey = Some e" "qe_lb e = Some lb" "lb_rule lb = Some rule" "getClient sampleCloud lb = Inr sampleClient"
    and p: "getLabelOrAnnotation (svc_meta (lb_service lb)) lbCustomHealthCheck = None" "rule_Protocol rule \<noteq> ''UDP''" "rule_Id rule = ''lbrule-1''"
    and ns: "map_sum id (map vmID) (nodesForService sampleCloud (registry t) (Some (qe_service e))) = Inr [''vm1'']"
    using serverEnsure_run unfolding rt by (auto split: option.splits)
  have ids: "map vmID ns = [''vm1'']" if "nodesForService sampleCloud (registry t) (Some (qe_service e)) = Inr ns" for ns
    using ns that by simp
  have key: "svcKey sampleService = sampleKey" by (simp add: sampleKey_def svcKey_def sampleService_def)
  have "\<exists>ns u. nodesForService sampleCloud (registry t) (Some (qe_service e)) = Inr ns \<and> ns \<noteq> []
      \<and> workerStep fakeAPI sampleCloud t = (Ret True, u) \<and> queue u = []
      \<and> ruleHosts (world u) = (ruleHosts (world t))(rule_Id rule := vmID ` set ns)"
    using rt r e p key ids hosts
    by (intro ensured_service_served [of serverSys sampleCloud sampleService "[sampleKubeNode]"])
      (auto simp: serverSys_def newServiceLock_def sample_defs plainIDs_def)
  then show ?thesis using rt r p(3) ids by (metis fun_upd_same list.set(1,2) set_map)
qed

text \<open>
  C12: a worker touches only the rule it works for. Every changing request made for an entry assigns or removes hosts or
  networks of one rule, or updates the health check pools of that rule if the entry asks for it; the rule is the one
  remembered in the entry or, without one, the rule of the load balancer that this run found and that the provider manages.
\<close>

theorem processQueueEntry_only_managed:
  fixes s :: "('w, 'x) psys_scheme"
  assumes run: "processQueueEntry api cs entry s = (r, t)" and t: "trace t = trace s @ calls"
    and call: "call \<in> set calls" "\<not> read_only call"
  shows "\<exists>lb rule. lb_rule lb = Some rule
    \<and> (sync_call cs (rule_Id rule) call \<or> updatePool entry \<and> pool_call (rule_Id rule) call)
    \<and> (qe_lb entry = Some lb \<or> qe_lb entry = None \<and> shouldManageLB lb = None
        \<and> (\<exists>l p n t1. getLoadBalancer api cs (qe_service entry) p n (s\<lparr>svcLock := l\<rparr>) = (Ret lb, t1)))"
proof -
  obtain l r1 t1 where e: "processEntry api cs entry (s\<lparr>svcLock := l\<rparr>) = (r1, t1)" "trace t1 = trace (s\<lparr>svcLock := l\<rparr>) @ calls"
    using withLock_calls [OF _ t call(1)] run unfolding processQueueEntry_def by blast
  let ?s = "s\<lparr>svcLock := l\<rparr>"
  have reads: "\<not> outside_only read_only ?s t1"
    using e(2) call by (auto simp: outside_only_def list_all_iff)
  then obtain ns where ns: "nodesForService cs (registry s) (Some (qe_service entry)) = Inr ns"
    using e(1) outside.R_refl by (cases "nodesForService cs (registry s) (Some (qe_service entry))") (auto simp: processEntry_def go_simps)
  obtain hosts nets proj where i: "idsForNodes ns = (hosts, nets, proj)" by (cases "idsForNodes ns") auto
  let ?work = "entryWork api cs entry hosts nets"
  show ?thesis
  proof (cases "qe_lb entry")
    case (Some lb)
    then have "?work lb ?s = (r1, t1)" using e(1) ns i by (simp add: processEntry_def entryWork_def go_simps)
    from entryWork_calls [OF this e(2) call] Some show ?thesis by blast
  next
    case None
    obtain r2 t2 where g: "getLoadBalancer api cs (qe_service entry) proj nets ?s = (r2, t2)" by fastforce
    have ro: "outside_only read_only ?s t2" by (rule keepsD [OF keeps_getLoadBalancer g])
    then have "t1 \<noteq> t2" using reads by blast
    then obtain lb where lb: "r2 = Ret lb" "lb_rule lb \<noteq> None" "shouldManageLB lb = None" "?work lb t2 = (r1, t1)"
      using e(1) ns i None g
      by (cases r2) (auto simp: processEntry_def entryWork_def go_simps split: if_splits)
    obtain c1 where c1: "trace t2 = trace ?s @ c1" "list_all read_only c1" using ro by (auto simp: outside_only_def)
    obtain c2 where c2: "trace t1 = trace t2 @ c2" using keepsD [OF keeps_entryWork lb(4)] by (auto simp: outside_only_def)
    have "call \<in> set c2" using e(2) c1 c2 call by (auto simp: list_all_iff)
    from entryWork_calls [OF lb(4) c2 this call(2)] lb g None show ?thesis by blast
  qed
qed

theorem processQueueEntry_only_managed_witness:
  "\<exists>lb rule l p n t1. getLoadBalancer (sampleAPI\<lparr>api_listInstances := (\<lambda>_ _ _ _ w. (Inr (0, []), w)),
        api_assignHosts := (\<lambda>_ _ _ w. (Inr (), w))\<rparr>) sampleCloud sampleService p n (samplePsys\<lparr>svcLock := l\<rparr>) = (Ret lb, t1)
    \<and> lb_rule lb = Some rule \<and> rule_Id rule = ''lbrule-1'' \<and> shouldManageLB lb = None"
proof -
  let ?api = "sampleAPI\<lparr>api_listInstances := (\<lambda>_ _ _ _ w. (Inr (0, []), w)), api_assignHosts := (\<lambda>_ _ _ w. (Inr (), w))\<rparr>"
  let ?run = "processQueueEntry ?api sampleCloud sampleEntry samplePsys"
  let ?call = "AssignToLoadBalancerRule sampleClient ''lbrule-1'' [''vm1'']"
  have call: "?call \<in> set (trace (snd ?run))" by code_simp
  obtain r t where run: "?run = (r, t)" by fastforce
  have tr: "trace t = trace samplePsys @ trace t" by (simp add: samplePsys_def)
  have "?call \<in> set (trace t)" using call run by simp
  from processQueueEntry_only_managed [OF run tr this] show ?thesis
    by (auto simp: sync_call_def pool_call_def sampleEntry_def) blast
qed

end
